(* ===== verification/Deadcom_Prelude.thy ===== *)
theory Deadcom_Prelude
  imports Main "HOL-Library.Word" "HOL-Library.Monad_Syntax"
begin

text \<open>
  Shared vocabulary of the development: the machine types of the C code, the
  model of caller-supplied buffers, and the rewrite collections the component
  proofs use.

  Conventions.  A C computation whose behaviour the language defines is
  \<open>Some r\<close>; \<open>None\<close> stands for undefined behaviour (a store or load outside an
  object, the use of an indeterminate value).  A pointer parameter that the code
  compares with \<open>NULL\<close> is an \<open>option\<close>.  A fixed-size array is a list whose length
  is the size of the array; a store goes through \<open>buf_write\<close>, a \<open>memcpy\<close> through
  \<open>buf_copy\<close>, and both are \<open>None\<close> out of range.
\<close>

unbundle bit_operations_syntax

type_synonym byte = "8 word"

named_theorems buf_simps "stores, loads and copies of byte buffers"
named_theorems fcs_simps "the frame check sequence"
named_theorems frame_simps "frame layout and byte stuffing"
named_theorems step_simps "one-byte steps of the frame parser"
named_theorems link_simps "operations of the link object"

section \<open>Results\<close>

text \<open>The \<open>errno\<close> values the framing code returns negated (\<open>-EINVAL\<close> and so on).\<close>

datatype errno = EINVAL | EIO | ENOMSG

text \<open>
  An \<open>int\<close> result of the framing functions: \<open>Inl e\<close> is \<open>-e\<close>, \<open>Inr n\<close> is the
  non-negative value \<open>n\<close>.
\<close>

type_synonym hdlc_ret = "errno + nat"

section \<open>Buffers\<close>

definition buf_write :: "nat \<Rightarrow> 'a \<Rightarrow> 'a list \<Rightarrow> 'a list option" where
  "buf_write i v b = (if i < length b then Some (b[i := v]) else None)"

definition buf_read :: "nat \<Rightarrow> 'a list \<Rightarrow> 'a list option" where
  "buf_read n b = (if n \<le> length b then Some (take n b) else None)"

definition buf_copy :: "'a list \<Rightarrow> 'a list \<Rightarrow> nat \<Rightarrow> 'a list option" where
  \<comment> \<open>\<open>memcpy(dst, src, n)\<close>\<close>
  "buf_copy dst src n =
     (if n \<le> length dst \<and> n \<le> length src then Some (take n src @ drop n dst) else None)"

lemma buf_write_append [buf_simps]:
  "buf_write (length xs) v (xs @ ys) =
     (case ys of [] \<Rightarrow> None | y # ys' \<Rightarrow> Some (xs @ v # ys'))"
  by (cases ys) (simp_all add: buf_write_def)

lemma buf_write_Some_length: "buf_write i v b = Some b' \<Longrightarrow> length b' = length b"
  by (auto simp: buf_write_def split: if_splits)

lemma buf_write_take:
  assumes "buf_write i v b = Some b'"
  shows "take (Suc i) b' = take i b @ [v]"
  using assms by (auto simp: buf_write_def take_Suc_conv_app_nth split: if_splits)

lemma buf_read_all [buf_simps]: "buf_read (length b) b = Some b"
  by (simp add: buf_read_def)

lemma buf_read_Some: "buf_read n b = Some x \<longleftrightarrow> n \<le> length b \<and> x = take n b"
  by (auto simp: buf_read_def)

lemma buf_copy_Some:
  "buf_copy dst src n = Some b \<longleftrightarrow>
     n \<le> length dst \<and> n \<le> length src \<and> b = take n src @ drop n dst"
  by (auto simp: buf_copy_def)

lemma buf_copy_length: "buf_copy dst src n = Some b \<Longrightarrow> length b = length dst"
  by (auto simp: buf_copy_Some)

section \<open>The option monad\<close>

lemma option_bind_assoc:
  "Option.bind (Option.bind x f) g = Option.bind x (\<lambda>y. Option.bind (f y) g)"
  by (cases x) simp_all

lemma option_bind_map: "Option.bind (map_option f x) g = Option.bind x (\<lambda>y. g (f y))"
  by (cases x) simp_all

lemma option_map_bind: "map_option g (Option.bind x f) = Option.bind x (\<lambda>y. map_option g (f y))"
  by (cases x) simp_all

lemma option_bind_Some: "Option.bind x (\<lambda>y. Some (f y)) = map_option f x"
  by (cases x) simp_all

lemmas option_bind_simps = option_bind_assoc option_bind_map option_map_bind bind_runit

section \<open>Sizes\<close>

text \<open>
  \<open>size_t\<close> is 64 bits wide on the hosts the library is tested on.  The only
  subtraction the code does in that type is \<open>size_sub\<close>, which wraps below zero.
\<close>

definition SIZE_MAX :: nat where
  "SIZE_MAX = 2 ^ 64 - 1"

definition size_sub :: "nat \<Rightarrow> nat \<Rightarrow> nat" where
  "size_sub a b = unat (word_of_nat a - word_of_nat b :: 64 word)"

lemma size_sub_le: "b \<le> a \<Longrightarrow> a \<le> SIZE_MAX \<Longrightarrow> size_sub a b = a - b"
  by (simp add: size_sub_def SIZE_MAX_def unat_of_nat flip: of_nat_diff)

lemma size_sub_wraps:
  "a < b \<Longrightarrow> b \<le> SIZE_MAX \<Longrightarrow> size_sub a b = SIZE_MAX + 1 - (b - a)"
  by (auto simp: size_sub_def SIZE_MAX_def unat_of_nat unat_sub_if_size word_size)

section \<open>Machine words\<close>

lemma byte_xor_cancel [simp]: "(x XOR y) XOR y = (x :: 'a::len word)"
  by (simp add: xor.assoc)

lemma byte_xor_right_inject [simp]: "x XOR y = x XOR z \<longleftrightarrow> y = (z :: 'a::len word)"
  by (metis xor.assoc xor_self_eq xor.left_neutral)

lemma byte_xor_left_inject [simp]: "y XOR x = z XOR x \<longleftrightarrow> y = (z :: 'a::len word)"
  by (metis byte_xor_cancel)

lemma bit_byteD: "bit (b :: byte) n \<Longrightarrow> n < 8"
  using bit_imp_le_length [of b n] by simp

lemma bit_word16D: "bit (f :: 16 word) n \<Longrightarrow> n < 16"
  using bit_imp_le_length [of f n] by simp

lemma unat_byte_less: "unat (b :: byte) < 256"
  using unsigned_less [of b] by simp

lemma bytes_of_word16_eqI:
  fixes f g :: "16 word"
  assumes "drop_bit 8 f = drop_bit 8 g" and "(ucast f :: byte) = ucast g"
  shows "f = g"
proof (rule bit_word_eqI)
  fix n :: nat
  assume n: "n < LENGTH(16)"
  show "bit f n = bit g n"
  proof (cases "n < 8")
    case True
    then show ?thesis
      using arg_cong [OF assms(2), of "\<lambda>w. bit w n"] n by (simp add: bit_ucast_iff)
  next
    case False
    then obtain m where "n = 8 + m" using le_Suc_ex not_less by blast
    then show ?thesis
      using arg_cong [OF assms(1), of "\<lambda>w. bit w m"] by (simp add: bit_drop_bit_eq)
  qed
qed

end
