(* ===== verification/Yahdlc_Fcs.thy ===== *)
theory Yahdlc_Fcs
  imports Deadcom_Prelude
begin

text \<open>
  The frame check sequence of \<open>dcl2/lib/src/yahdlc.c\<close>: the table \<open>fcstab\<close> and the
  update \<open>fcs16\<close>, the contract a frame relies on (\<open>frame_check\<close>, \<open>burst_check\<close>), and
  the proof that the table driven update is the bitwise CRC of ISO/IEC 13239.
\<close>

section \<open>The code\<close>

definition FCS16_INIT_VALUE :: "16 word" where "FCS16_INIT_VALUE = 0xFFFF"
definition FCS16_GOOD_VALUE :: "16 word" where "FCS16_GOOD_VALUE = 0xF0B8"

definition fcstab :: "16 word list" where
  "fcstab = [
     0x0000, 0x1189, 0x2312, 0x329b, 0x4624, 0x57ad, 0x6536, 0x74bf,
     0x8c48, 0x9dc1, 0xaf5a, 0xbed3, 0xca6c, 0xdbe5, 0xe97e, 0xf8f7,
     0x1081, 0x0108, 0x3393, 0x221a, 0x56a5, 0x472c, 0x75b7, 0x643e,
     0x9cc9, 0x8d40, 0xbfdb, 0xae52, 0xdaed, 0xcb64, 0xf9ff, 0xe876,
     0x2102, 0x308b, 0x0210, 0x1399, 0x6726, 0x76af, 0x4434, 0x55bd,
     0xad4a, 0xbcc3, 0x8e58, 0x9fd1, 0xeb6e, 0xfae7, 0xc87c, 0xd9f5,
     0x3183, 0x200a, 0x1291, 0x0318, 0x77a7, 0x662e, 0x54b5, 0x453c,
     0xbdcb, 0xac42, 0x9ed9, 0x8f50, 0xfbef, 0xea66, 0xd8fd, 0xc974,
     0x4204, 0x538d, 0x6116, 0x709f, 0x0420, 0x15a9, 0x2732, 0x36bb,
     0xce4c, 0xdfc5, 0xed5e, 0xfcd7, 0x8868, 0x99e1, 0xab7a, 0xbaf3,
     0x5285, 0x430c, 0x7197, 0x601e, 0x14a1, 0x0528, 0x37b3, 0x263a,
     0xdecd, 0xcf44, 0xfddf, 0xec56, 0x98e9, 0x8960, 0xbbfb, 0xaa72,
     0x6306, 0x728f, 0x4014, 0x519d, 0x2522, 0x34ab, 0x0630, 0x17b9,
     0xef4e, 0xfec7, 0xcc5c, 0xddd5, 0xa96a, 0xb8e3, 0x8a78, 0x9bf1,
     0x7387, 0x620e, 0x5095, 0x411c, 0x35a3, 0x242a, 0x16b1, 0x0738,
     0xffcf, 0xee46, 0xdcdd, 0xcd54, 0xb9eb, 0xa862, 0x9af9, 0x8b70,
     0x8408, 0x9581, 0xa71a, 0xb693, 0xc22c, 0xd3a5, 0xe13e, 0xf0b7,
     0x0840, 0x19c9, 0x2b52, 0x3adb, 0x4e64, 0x5fed, 0x6d76, 0x7cff,
     0x9489, 0x8500, 0xb79b, 0xa612, 0xd2ad, 0xc324, 0xf1bf, 0xe036,
     0x18c1, 0x0948, 0x3bd3, 0x2a5a, 0x5ee5, 0x4f6c, 0x7df7, 0x6c7e,
     0xa50a, 0xb483, 0x8618, 0x9791, 0xe32e, 0xf2a7, 0xc03c, 0xd1b5,
     0x2942, 0x38cb, 0x0a50, 0x1bd9, 0x6f66, 0x7eef, 0x4c74, 0x5dfd,
     0xb58b, 0xa402, 0x9699, 0x8710, 0xf3af, 0xe226, 0xd0bd, 0xc134,
     0x39c3, 0x284a, 0x1ad1, 0x0b58, 0x7fe7, 0x6e6e, 0x5cf5, 0x4d7c,
     0xc60c, 0xd785, 0xe51e, 0xf497, 0x8028, 0x91a1, 0xa33a, 0xb2b3,
     0x4a44, 0x5bcd, 0x6956, 0x78df, 0x0c60, 0x1de9, 0x2f72, 0x3efb,
     0xd68d, 0xc704, 0xf59f, 0xe416, 0x90a9, 0x8120, 0xb3bb, 0xa232,
     0x5ac5, 0x4b4c, 0x79d7, 0x685e, 0x1ce1, 0x0d68, 0x3ff3, 0x2e7a,
     0xe70e, 0xf687, 0xc41c, 0xd595, 0xa12a, 0xb0a3, 0x8238, 0x93b1,
     0x6b46, 0x7acf, 0x4854, 0x59dd, 0x2d62, 0x3ceb, 0x0e70, 0x1ff9,
     0xf78f, 0xe606, 0xd49d, 0xc514, 0xb1ab, 0xa022, 0x92b9, 0x8330,
     0x7bc7, 0x6a4e, 0x58d5, 0x495c, 0x3de3, 0x2c6a, 0x1ef1, 0x0f78
   ]"

definition fcs16 :: "16 word \<Rightarrow> byte \<Rightarrow> 16 word" where
  "fcs16 f v = drop_bit 8 f XOR fcstab ! unat ((f XOR ucast v) AND 0xFF)"

text \<open>
  What the framer appends (lines 359 to 366): the inverted check value, low byte
  first.
\<close>

definition fcs_byte :: "16 word \<Rightarrow> nat \<Rightarrow> byte" where
  "fcs_byte f i = ucast (drop_bit (8 * i) f AND 0xFF)"

definition fcs_trailer :: "16 word \<Rightarrow> byte list" where
  "fcs_trailer f = [fcs_byte (f XOR 0xFFFF) 0, fcs_byte (f XOR 0xFFFF) 1]"

section \<open>The contract of a check sequence\<close>

locale frame_check =
  fixes upd :: "'c \<Rightarrow> byte \<Rightarrow> 'c"
    and init good :: 'c
    and trailer :: "'c \<Rightarrow> byte list"
  assumes upd_byte_inj: "upd c a = upd c b \<Longrightarrow> a = b"
    and upd_state_inj: "upd c a = upd d a \<Longrightarrow> c = d"
    and trailer_good: "foldl upd c (trailer c) = good"
begin

lemma accepts_own_trailer: "foldl upd init (xs @ trailer (foldl upd init xs)) = good"
  by (simp add: trailer_good)

lemma foldl_state_inj: "foldl upd c xs = foldl upd d xs \<Longrightarrow> c = d"
  by (induction xs arbitrary: c d) (auto dest: upd_state_inj)

lemma substitution_changes_check:
  "foldl upd c (xs @ a # ys) = foldl upd c (xs @ b # ys) \<Longrightarrow> a = b"
  by (auto dest!: foldl_state_inj upd_byte_inj)

end

text \<open>
  A check sequence over two bytes also fixes the two bytes it is fed last, so a
  burst confined to two neighbouring bytes is seen and no trailer but the one
  computed is accepted.
\<close>

locale burst_check = frame_check +
  assumes upd_pair_inj: "upd (upd c a) b = upd (upd c a') b' \<Longrightarrow> a = a' \<and> b = b'"
    and trailer_length: "length (trailer c) = 2"
begin

lemma burst_changes_check:
  "foldl upd c (xs @ [a, b] @ ys) = foldl upd c (xs @ [a', b'] @ ys) \<Longrightarrow> a = a' \<and> b = b'"
  by (auto dest!: foldl_state_inj upd_pair_inj)

lemma accepts_iff_trailer:
  "foldl upd c (xs @ [a, b]) = good \<longleftrightarrow> [a, b] = trailer (foldl upd c xs)"
proof -
  obtain p q where pq: "trailer (foldl upd c xs) = [p, q]"
    using trailer_length [of "foldl upd c xs"]
    by (auto simp: length_Suc_conv numeral_2_eq_2)
  have "upd (upd (foldl upd c xs) p) q = good"
    using trailer_good [of "foldl upd c xs"] pq by simp
  then show ?thesis
    using pq upd_pair_inj by auto
qed

end

section \<open>The table is the bitwise division\<close>

text \<open>
  One step of the bit-serial division by the reflected CCITT polynomial, and the
  check value of one byte computed with it: the reference \<open>fcs16\<close> is compared to.
\<close>

definition fcs_bit :: "16 word \<Rightarrow> 16 word" where
  "fcs_bit x = (if bit x 0 then drop_bit 1 x XOR 0x8408 else drop_bit 1 x)"

definition fcs16_bitwise :: "16 word \<Rightarrow> byte \<Rightarrow> 16 word" where
  "fcs16_bitwise f v = (fcs_bit ^^ 8) (f XOR ucast v)"

lemma length_fcstab [fcs_simps]: "length fcstab = 256"
  by (simp add: fcstab_def)

lemma fcs_bit_xor: "fcs_bit (x XOR y) = fcs_bit x XOR fcs_bit y"
  by (simp add: fcs_bit_def bit_xor_iff drop_bit_xor xor.assoc xor.left_commute xor.commute)

lemma fcs_bits_xor: "(fcs_bit ^^ n) (x XOR y) = (fcs_bit ^^ n) x XOR (fcs_bit ^^ n) y"
  by (induction n) (simp_all add: fcs_bit_xor)

lemma fcs_bits_shift:
  "(\<And>i. i < n \<Longrightarrow> \<not> bit x i) \<Longrightarrow> (fcs_bit ^^ n) x = drop_bit n x"
proof (induction n)
  case (Suc n)
  then have "(fcs_bit ^^ n) x = drop_bit n x" and "\<not> bit x n" by simp_all
  moreover from this have "fcs_bit (drop_bit n x) = drop_bit (Suc n) x"
    by (simp add: fcs_bit_def bit_drop_bit_eq)
  ultimately show ?case by simp
qed simp

text \<open>
  The division is linear over exclusive or, so the table doubles: each power of two
  contributes one entry, and the second half of the indices its exclusive or with
  the first half.
\<close>

definition table_double :: "16 word list \<Rightarrow> 16 word \<Rightarrow> 16 word list" where
  "table_double xs t = xs @ map ((XOR) t) xs"

lemma fcstab_doubles:
  "fcstab = foldl table_double [0] [0x1189, 0x2312, 0x4624, 0x8c48, 0x1081, 0x2102, 0x4204, 0x8408]"
  by (simp add: fcstab_def table_double_def)

definition table_bits :: "nat \<Rightarrow> 16 word list" where
  "table_bits k = map (\<lambda>i. (fcs_bit ^^ 8) (word_of_nat i)) [0..<2 ^ k]"

lemma table_double_bits:
  assumes "k < 16"
  shows "table_double (table_bits k) ((fcs_bit ^^ 8) (2 ^ k)) = table_bits (Suc k)"
proof -
  have x: "(2 :: 16 word) ^ k XOR word_of_nat i = word_of_nat (2 ^ k + i)" if "i < 2 ^ k" for i
  proof -
    have "\<not> bit i k"
      using \<open>i < 2 ^ k\<close> by (simp add: bit_iff_odd)
    then have "(2 :: 16 word) ^ k AND word_of_nat i = 0"
      by (intro bit_word_eqI) (auto simp: bit_simps bit_exp_iff)
    then show ?thesis by (simp add: disjunctive_add_eq_xor [symmetric])
  qed
  have "[0..<2 ^ Suc k] = [0..<2 ^ k] @ map (\<lambda>i. i + 2 ^ k) [0..<2 ^ k]"
    using upt_add_eq_append [of 0 "2 ^ k" "2 ^ k"] by (simp only: map_add_upt power_Suc mult_2 le0)
  then have "table_bits (Suc k) = table_bits k
      @ map (\<lambda>i. (fcs_bit ^^ 8) (word_of_nat (i + 2 ^ k))) [0..<2 ^ k]"
    unfolding table_bits_def by (simp only: map_append map_map o_def)
  also have "map (\<lambda>i. (fcs_bit ^^ 8) (word_of_nat (i + 2 ^ k))) [0..<2 ^ k]
      = map ((XOR) ((fcs_bit ^^ 8) (2 ^ k))) (table_bits k)"
    unfolding table_bits_def map_map
    by (rule map_cong [OF refl]) (simp only: set_upt atLeastLessThan_iff o_def
        add.commute [of _ "2 ^ k"] x [symmetric] fcs_bits_xor)
  finally show ?thesis by (simp only: table_double_def)
qed

lemma fcs_bits8:
  "(fcs_bit ^^ 8) x = fcs_bit (fcs_bit (fcs_bit (fcs_bit (fcs_bit (fcs_bit (fcs_bit (fcs_bit x)))))))"
  by (simp add: eval_nat_numeral)

lemma fcstab_computed: "fcstab = map (\<lambda>i. (fcs_bit ^^ 8) (word_of_nat i)) [0..<256]"
proof -
  have basis: "(fcs_bit ^^ 8) 0x01 = 0x1189" "(fcs_bit ^^ 8) 0x02 = 0x2312"
    "(fcs_bit ^^ 8) 0x04 = 0x4624" "(fcs_bit ^^ 8) 0x08 = 0x8c48"
    "(fcs_bit ^^ 8) 0x10 = 0x1081" "(fcs_bit ^^ 8) 0x20 = 0x2102"
    "(fcs_bit ^^ 8) 0x40 = 0x4204" "(fcs_bit ^^ 8) 0x80 = 0x8408"
    by (simp_all add: fcs_bits8 fcs_bit_def)
  have "table_bits 0 = [0]" by (simp add: table_bits_def fcs_bits8 fcs_bit_def)
  then have "fcstab = table_bits (Suc (Suc (Suc (Suc (Suc (Suc (Suc (Suc 0))))))))"
    by (simp add: fcstab_doubles table_double_bits [symmetric] basis del: funpow.simps)
  then show ?thesis by (simp add: table_bits_def del: funpow.simps upt_Suc)
qed

text \<open>The table entry of a byte, with the index arithmetic out of the way.\<close>

definition fcs_entry :: "byte \<Rightarrow> 16 word" where
  "fcs_entry b = fcstab ! unat b"

lemma fcs_entry_bits: "fcs_entry b = (fcs_bit ^^ 8) (ucast b)"
proof -
  have "unat b < 256" using unsigned_less [of b] by simp
  then show ?thesis
    by (simp add: fcs_entry_def fcstab_computed del: funpow.simps)
qed

lemma fcs_index: "(f XOR ucast v) AND 0xFF = (ucast (ucast f XOR v :: byte) :: 16 word)"
proof -
  have m: "(0xFF :: 16 word) = mask 8" by (simp add: mask_eq_exp_minus_1)
  show ?thesis
    unfolding m by (rule bit_word_eqI) (auto simp: bit_simps dest: bit_byteD)
qed

lemma fcs16_entry: "fcs16 f v = drop_bit 8 f XOR fcs_entry (ucast f XOR v)"
  by (simp add: fcs16_def fcs_entry_def fcs_index unsigned_ucast_eq take_bit_nat_eq_self unat_byte_less [THEN less_le_trans])

lemma fcs16_is_bitwise: "fcs16 f v = fcs16_bitwise f v"
proof -
  have "f XOR ucast v = push_bit 8 (drop_bit 8 f) XOR ucast (ucast f XOR v :: byte)"
    by (rule bit_word_eqI) (auto simp: bit_simps)
  moreover have "(fcs_bit ^^ 8) (push_bit 8 (drop_bit 8 f)) = drop_bit 8 f"
  proof -
    have "(fcs_bit ^^ 8) (push_bit 8 (drop_bit 8 f)) = drop_bit 8 (push_bit 8 (drop_bit 8 f))"
      by (rule fcs_bits_shift) (simp add: bit_simps)
    also have "\<dots> = drop_bit 8 f"
      by (rule bit_word_eqI) (auto simp: bit_simps dest: bit_word16D)
    finally show ?thesis .
  qed
  ultimately show ?thesis
    by (simp add: fcs16_bitwise_def fcs_bits_xor fcs16_entry fcs_entry_bits del: funpow.simps)
qed

section \<open>Injectivity\<close>

lemma fcs_entry_xor: "fcs_entry (a XOR b) = fcs_entry a XOR fcs_entry b"
  by (simp add: fcs_entry_bits unsigned_xor_eq fcs_bits_xor del: funpow.simps)

lemma fcs_entry_high_kernel:
  assumes "drop_bit 8 (fcs_entry b) = 0"
  shows "b = 0"
proof -
  have "\<forall>i \<in> {1..<256}. drop_bit 8 (fcstab ! i) \<noteq> 0"
    by code_simp
  moreover have "unat b < 256" using unsigned_less [of b] by simp
  ultimately have "\<not> 1 \<le> unat b"
    using assms unfolding fcs_entry_def by (metis atLeastLessThan_iff)
  then show ?thesis using unat_eq_0 [of b] by simp
qed

lemma fcs_entry_high_inj:
  assumes "drop_bit 8 (fcs_entry a) = drop_bit 8 (fcs_entry b)"
  shows "a = b"
proof -
  have "drop_bit 8 (fcs_entry (a XOR b)) = 0"
    using assms by (simp add: fcs_entry_xor)
  then have "a XOR b = 0" by (rule fcs_entry_high_kernel)
  then show ?thesis by (metis byte_xor_right_inject xor_self_eq)
qed

lemma high_byte_twice: "drop_bit 8 (drop_bit 8 (f :: 16 word)) = 0"
  by (rule bit_word_eqI) (simp add: bit_simps)

lemma fcs16_eqD:
  assumes "fcs16 f v = fcs16 g w"
  shows "ucast f XOR v = (ucast g XOR w :: byte)" and "drop_bit 8 f = drop_bit 8 g"
proof -
  have "drop_bit 8 (fcs_entry (ucast f XOR v)) = drop_bit 8 (fcs_entry (ucast g XOR w))"
    using arg_cong [OF assms, of "drop_bit 8"]
    by (simp only: fcs16_entry drop_bit_xor high_byte_twice xor.left_neutral)
  then show *: "ucast f XOR v = (ucast g XOR w :: byte)"
    by (rule fcs_entry_high_inj)
  show "drop_bit 8 f = drop_bit 8 g"
    using assms by (simp add: fcs16_entry *)
qed

lemma fcs16_pair_inj:
  assumes "fcs16 (fcs16 f a) b = fcs16 (fcs16 f a') b'"
  shows "a = a' \<and> b = b'"
proof -
  have "drop_bit 8 (fcs16 f a) = drop_bit 8 (fcs16 f a')"
    using fcs16_eqD(2) [OF assms] .
  then have "drop_bit 8 (fcs_entry (ucast f XOR a)) = drop_bit 8 (fcs_entry (ucast f XOR a'))"
    by (simp only: fcs16_entry drop_bit_xor high_byte_twice xor.left_neutral)
  then have "a = a'" using fcs_entry_high_inj by fastforce
  then show ?thesis using fcs16_eqD(1) [OF assms] by simp
qed

text \<open>
  Fed with its own inverted low byte, the register selects the last table entry;
  with the high byte, the entry \<open>0x87\<close>.
\<close>

lemma fcs_trailer_good: "foldl fcs16 f (fcs_trailer f) = FCS16_GOOD_VALUE"
proof -
  let ?h = "drop_bit 8 f"
  have lo: "ucast f XOR fcs_byte (f XOR 0xFFFF) 0 = 0xFF"
  proof -
    have m: "(0xFFFF :: 16 word) = -1" "(0xFF :: 16 word) = mask 8" "(0xFF :: byte) = -1"
      by (simp_all add: mask_eq_exp_minus_1)
    have "fcs_byte (f XOR 0xFFFF) 0 = ucast f XOR 0xFF"
      unfolding fcs_byte_def m by (rule bit_word_eqI) (auto simp: bit_simps)
    then show ?thesis by (simp add: xor.left_commute)
  qed
  have entries: "fcs_entry 0xFF = 0x0F78" "fcs_entry 0x87 = 0xF0B7"
    by (simp_all add: fcs_entry_def fcstab_def)
  have one: "fcs16 f (fcs_byte (f XOR 0xFFFF) 0) = ?h XOR 0x0F78"
    by (simp only: fcs16_entry lo entries)
  have hi: "ucast (?h XOR 0x0F78) XOR fcs_byte (f XOR 0xFFFF) 1 = (0x87 :: byte)"
  proof -
    have m: "(0xFFFF :: 16 word) = -1" "(0xFF :: 16 word) = mask 8" "(0xFF :: byte) = -1"
      by (simp_all add: mask_eq_exp_minus_1)
    have "fcs_byte (f XOR 0xFFFF) 1 = ucast ?h XOR 0xFF"
      unfolding fcs_byte_def m by (rule bit_word_eqI) (auto simp: bit_simps)
    moreover have "ucast (?h XOR 0x0F78) = (ucast ?h XOR 0x78 :: byte)"
      by (simp add: unsigned_xor_eq)
    ultimately show ?thesis by (simp add: xor.assoc xor.left_commute)
  qed
  have "drop_bit 8 (?h XOR 0x0F78) = (0x0F :: 16 word)"
    by (simp only: drop_bit_xor high_byte_twice) simp
  then show ?thesis
    using one hi entries by (simp add: fcs_trailer_def fcs16_entry FCS16_GOOD_VALUE_def)
qed

interpretation fcs_check: burst_check fcs16 FCS16_INIT_VALUE FCS16_GOOD_VALUE fcs_trailer
proof
  show "\<And>c a b. fcs16 c a = fcs16 c b \<Longrightarrow> a = b"
    by (auto dest: fcs16_eqD)
  show "\<And>c a d. fcs16 c a = fcs16 d a \<Longrightarrow> c = d"
    by (rule bytes_of_word16_eqI) (auto dest: fcs16_eqD)
  show "\<And>c. foldl fcs16 c (fcs_trailer c) = FCS16_GOOD_VALUE"
    by (rule fcs_trailer_good)
  show "\<And>c a b a' b'. fcs16 (fcs16 c a) b = fcs16 (fcs16 c a') b' \<Longrightarrow> a = a' \<and> b = b'"
    by (rule fcs16_pair_inj)
  show "\<And>c. length (fcs_trailer c) = 2"
    by (simp add: fcs_trailer_def)
qed

section \<open>Properties\<close>

text \<open>
  C33. The table driven update is the CRC the standard asks for: for every register value
  and octet \<open>fcs16\<close> is eight steps of the bit-serial division by the reflected
  polynomial \<open>0x8408\<close>, so all 256 entries of \<open>fcstab\<close> are right.
\<close>

theorem fcs16_table_correct: "fcs16 f v = fcs16_bitwise f v"
  by (rule fcs16_is_bitwise)

end
