(* ===== verification/Yahdlc_Control.thy ===== *)
theory Yahdlc_Control
  imports Deadcom_Prelude
begin

text \<open>
  The control octet of a frame: the types \<open>yahdlc_frame_t\<close> and \<open>yahdlc_control_t\<close> of
  \<open>dcl2/lib/inc/yahdlc.h\<close>, and \<open>yahdlc_frame_control_type\<close> and
  \<open>yahdlc_get_control_type\<close> of \<open>dcl2/lib/src/yahdlc.c\<close>, with the round trip between
  them and the octets the decoder does not tell apart.
\<close>

datatype yahdlc_frame_t =
    YAHDLC_FRAME_DATA
  | YAHDLC_FRAME_ACK
  | YAHDLC_FRAME_NACK
  | YAHDLC_FRAME_CONN
  | YAHDLC_FRAME_CONN_ACK

text \<open>The enumerators, in their order: statements over all frame types are decided by evaluation.\<close>

instantiation yahdlc_frame_t :: enum
begin

definition enum_yahdlc_frame_t :: "yahdlc_frame_t list" where
  "enum_yahdlc_frame_t =
     [YAHDLC_FRAME_DATA, YAHDLC_FRAME_ACK, YAHDLC_FRAME_NACK, YAHDLC_FRAME_CONN,
      YAHDLC_FRAME_CONN_ACK]"

definition enum_all_yahdlc_frame_t :: "(yahdlc_frame_t \<Rightarrow> bool) \<Rightarrow> bool" where
  "enum_all_yahdlc_frame_t P \<longleftrightarrow> list_all P Enum.enum"

definition enum_ex_yahdlc_frame_t :: "(yahdlc_frame_t \<Rightarrow> bool) \<Rightarrow> bool" where
  "enum_ex_yahdlc_frame_t P \<longleftrightarrow> list_ex P Enum.enum"

instance
proof
  have all: "(UNIV :: yahdlc_frame_t set) = set Enum.enum"
    using yahdlc_frame_t.exhaust by (auto simp: enum_yahdlc_frame_t_def)
  then show "(UNIV :: yahdlc_frame_t set) = set Enum.enum" .
  show "distinct (Enum.enum :: yahdlc_frame_t list)" by (simp add: enum_yahdlc_frame_t_def)
  show "Enum.enum_all P \<longleftrightarrow> Ball UNIV P" "Enum.enum_ex P \<longleftrightarrow> Bex UNIV P"
    for P :: "yahdlc_frame_t \<Rightarrow> bool"
    by (simp_all add: all enum_all_yahdlc_frame_t_def enum_ex_yahdlc_frame_t_def list_all_iff
        list_ex_iff)
qed

end

text \<open>The two sequence numbers are three-bit fields, so an assignment truncates.\<close>

record yahdlc_control_t =
  frame :: yahdlc_frame_t
  send_seq_no :: "3 word"
  recv_seq_no :: "3 word"

text \<open>\<open>yahdlc_control_t value = {}\<close>: the first enumerator and two zeros.\<close>

definition control_zero :: yahdlc_control_t where
  "control_zero = \<lparr>frame = YAHDLC_FRAME_DATA, send_seq_no = 0, recv_seq_no = 0\<rparr>"

section \<open>Positions and codes\<close>

text \<open>
  The macros of \<open>yahdlc.c\<close>: bit positions, the codes of the supervisory frames, and the
  modifier bits of the two unnumbered frames.  The code compares with the first and the
  third supervisory code only.
\<close>

definition YAHDLC_CONTROL_S_OR_U_FRAME_BIT :: nat where "YAHDLC_CONTROL_S_OR_U_FRAME_BIT = 0"
definition YAHDLC_CONTROL_SEND_SEQ_NO_BIT :: nat where "YAHDLC_CONTROL_SEND_SEQ_NO_BIT = 1"
definition YAHDLC_CONTROL_S_FRAME_TYPE_BIT :: nat where "YAHDLC_CONTROL_S_FRAME_TYPE_BIT = 2"
definition YAHDLC_CONTROL_POLL_BIT :: nat where "YAHDLC_CONTROL_POLL_BIT = 4"
definition YAHDLC_CONTROL_RECV_SEQ_NO_BIT :: nat where "YAHDLC_CONTROL_RECV_SEQ_NO_BIT = 5"
definition YAHDLC_CONTROL_U_ONLY_FRAME_BIT :: nat where "YAHDLC_CONTROL_U_ONLY_FRAME_BIT = 1"

definition YAHDLC_CONTROL_TYPE_RECEIVE_READY :: byte where "YAHDLC_CONTROL_TYPE_RECEIVE_READY = 0"
definition YAHDLC_CONTROL_TYPE_RECEIVE_NOT_READY :: byte where
  "YAHDLC_CONTROL_TYPE_RECEIVE_NOT_READY = 1"
definition YAHDLC_CONTROL_TYPE_REJECT :: byte where "YAHDLC_CONTROL_TYPE_REJECT = 2"
definition YAHDLC_CONTROL_TYPE_SELECTIVE_REJECT :: byte where
  "YAHDLC_CONTROL_TYPE_SELECTIVE_REJECT = 3"

definition YAHDLC_CONTROL_CONN_OR_DISC :: nat where "YAHDLC_CONTROL_CONN_OR_DISC = 2"
definition YAHDLC_CONTROL_CONN_ACK :: nat where "YAHDLC_CONTROL_CONN_ACK = 5"
definition YAHDLC_CONTROL_U_TYPE_ADDED_BITS :: byte where "YAHDLC_CONTROL_U_TYPE_ADDED_BITS = 3"
definition YAHDLC_CONTROL_CONN_SPECIAL_BIT :: nat where "YAHDLC_CONTROL_CONN_SPECIAL_BIT = 5"
definition YAHDLC_U_FRAME_CONN_CHECK :: byte where "YAHDLC_U_FRAME_CONN_CHECK = 0x01"
definition YAHDLC_U_FRAME_CONN_ACK_CHECK :: byte where "YAHDLC_U_FRAME_CONN_ACK_CHECK = 0x03"

lemmas control_codes =
  YAHDLC_CONTROL_S_OR_U_FRAME_BIT_def YAHDLC_CONTROL_SEND_SEQ_NO_BIT_def
  YAHDLC_CONTROL_S_FRAME_TYPE_BIT_def YAHDLC_CONTROL_POLL_BIT_def
  YAHDLC_CONTROL_RECV_SEQ_NO_BIT_def YAHDLC_CONTROL_U_ONLY_FRAME_BIT_def
  YAHDLC_CONTROL_TYPE_RECEIVE_READY_def YAHDLC_CONTROL_TYPE_RECEIVE_NOT_READY_def
  YAHDLC_CONTROL_TYPE_REJECT_def YAHDLC_CONTROL_TYPE_SELECTIVE_REJECT_def
  YAHDLC_CONTROL_CONN_OR_DISC_def YAHDLC_CONTROL_CONN_ACK_def
  YAHDLC_CONTROL_U_TYPE_ADDED_BITS_def YAHDLC_CONTROL_CONN_SPECIAL_BIT_def
  YAHDLC_U_FRAME_CONN_CHECK_def YAHDLC_U_FRAME_CONN_ACK_CHECK_def

definition yahdlc_get_control_type :: "byte \<Rightarrow> yahdlc_control_t" where
  "yahdlc_get_control_type control =
     (let value = control_zero in
      if control AND push_bit YAHDLC_CONTROL_S_OR_U_FRAME_BIT 1 \<noteq> 0 then
        if control AND push_bit YAHDLC_CONTROL_U_ONLY_FRAME_BIT 1 \<noteq> 0 then
          if drop_bit YAHDLC_CONTROL_CONN_SPECIAL_BIT control = YAHDLC_U_FRAME_CONN_CHECK
          then value\<lparr>frame := YAHDLC_FRAME_CONN\<rparr>
          else if drop_bit YAHDLC_CONTROL_CONN_SPECIAL_BIT control = YAHDLC_U_FRAME_CONN_ACK_CHECK
          then value\<lparr>frame := YAHDLC_FRAME_CONN_ACK\<rparr>
          else value
        else
          (if drop_bit YAHDLC_CONTROL_S_FRAME_TYPE_BIT control AND 0x3
              = YAHDLC_CONTROL_TYPE_RECEIVE_READY
           then value\<lparr>frame := YAHDLC_FRAME_ACK\<rparr>
           else value\<lparr>frame := YAHDLC_FRAME_NACK\<rparr>)
            \<lparr>recv_seq_no := ucast (drop_bit YAHDLC_CONTROL_RECV_SEQ_NO_BIT control AND 0x7)\<rparr>
      else
        value\<lparr>frame := YAHDLC_FRAME_DATA,
              send_seq_no := ucast (drop_bit YAHDLC_CONTROL_SEND_SEQ_NO_BIT control AND 0x7),
              recv_seq_no := ucast (drop_bit YAHDLC_CONTROL_RECV_SEQ_NO_BIT control AND 0x7)\<rparr>)"

definition yahdlc_frame_control_type :: "yahdlc_control_t \<Rightarrow> byte" where
  "yahdlc_frame_control_type control =
     (case frame control of
        YAHDLC_FRAME_DATA \<Rightarrow>
          push_bit YAHDLC_CONTROL_SEND_SEQ_NO_BIT (ucast (send_seq_no control)) OR
          push_bit YAHDLC_CONTROL_RECV_SEQ_NO_BIT (ucast (recv_seq_no control)) OR
          push_bit YAHDLC_CONTROL_POLL_BIT 1
      | YAHDLC_FRAME_ACK \<Rightarrow>
          push_bit YAHDLC_CONTROL_RECV_SEQ_NO_BIT (ucast (recv_seq_no control)) OR
          push_bit YAHDLC_CONTROL_S_OR_U_FRAME_BIT 1
      | YAHDLC_FRAME_NACK \<Rightarrow>
          push_bit YAHDLC_CONTROL_RECV_SEQ_NO_BIT (ucast (recv_seq_no control)) OR
          push_bit YAHDLC_CONTROL_S_FRAME_TYPE_BIT YAHDLC_CONTROL_TYPE_REJECT OR
          push_bit YAHDLC_CONTROL_S_OR_U_FRAME_BIT 1
      | YAHDLC_FRAME_CONN \<Rightarrow>
          push_bit YAHDLC_CONTROL_S_OR_U_FRAME_BIT 1 OR
          push_bit YAHDLC_CONTROL_U_ONLY_FRAME_BIT 1 OR
          push_bit YAHDLC_CONTROL_POLL_BIT 1 OR
          push_bit YAHDLC_CONTROL_CONN_OR_DISC YAHDLC_CONTROL_U_TYPE_ADDED_BITS OR
          push_bit YAHDLC_CONTROL_CONN_SPECIAL_BIT 1
      | YAHDLC_FRAME_CONN_ACK \<Rightarrow>
          push_bit YAHDLC_CONTROL_S_OR_U_FRAME_BIT 1 OR
          push_bit YAHDLC_CONTROL_U_ONLY_FRAME_BIT 1 OR
          push_bit YAHDLC_CONTROL_CONN_ACK YAHDLC_CONTROL_U_TYPE_ADDED_BITS)"

text \<open>The two functions with the macros expanded, for proofs and evaluation.\<close>

lemmas get_control_type_eq = yahdlc_get_control_type_def [unfolded control_codes]
lemmas frame_control_type_eq = yahdlc_frame_control_type_def [unfolded control_codes]

section \<open>What the octet carries\<close>

text \<open>
  The fields a frame of each type transports; the receiver sees the others as zero.
\<close>

definition control_carried :: "yahdlc_control_t \<Rightarrow> yahdlc_control_t" where
  "control_carried c =
     (case frame c of
        YAHDLC_FRAME_DATA \<Rightarrow> c
      | YAHDLC_FRAME_ACK \<Rightarrow> c\<lparr>send_seq_no := 0\<rparr>
      | YAHDLC_FRAME_NACK \<Rightarrow> c\<lparr>send_seq_no := 0\<rparr>
      | _ \<Rightarrow> c\<lparr>send_seq_no := 0, recv_seq_no := 0\<rparr>)"

lemma bit_seqD: "bit (s :: 3 word) n \<Longrightarrow> n < 3"
  using bit_imp_le_length [of s n] by simp

lemma control_carried_frame [simp]: "frame (control_carried c) = frame c"
  by (simp add: control_carried_def split: yahdlc_frame_t.split)

text \<open>Tests of single bits of an octet.\<close>

lemma and_bit_zero_iff: "(b :: byte) AND push_bit n 1 = 0 \<longleftrightarrow> n \<ge> 8 \<or> \<not> bit b n"
proof
  assume "b AND push_bit n 1 = 0"
  then have "\<not> bit (b AND push_bit n 1) n" by simp
  then show "n \<ge> 8 \<or> \<not> bit b n" by (auto simp: bit_simps)
next
  assume "n \<ge> 8 \<or> \<not> bit b n"
  then show "b AND push_bit n 1 = 0"
    by (intro bit_word_eqI) (auto simp: bit_simps)
qed

lemma mask_octet: "(0x7 :: byte) = mask 3" "(0x3 :: byte) = mask 2"
  by (simp_all add: mask_eq_exp_minus_1)

lemma data_octet:
  fixes s r :: "3 word"
  defines "v \<equiv> push_bit 1 (ucast s) OR push_bit 5 (ucast r) OR push_bit 4 1 :: byte"
  shows "\<not> bit v 0" "ucast (drop_bit 1 v AND 0x7) = s" "ucast (drop_bit 5 v AND 0x7) = r"
proof -
  have bits: "bit v n \<longleftrightarrow> n < 8 \<and> (1 \<le> n \<and> bit s (n - 1) \<or> 5 \<le> n \<and> bit r (n - 5) \<or> n = 4)" for n
    unfolding v_def by (simp only: bit_or_iff bit_push_bit_iff bit_ucast_iff bit_1_iff) auto
  show "\<not> bit v 0" by (simp add: bits)
  show "ucast (drop_bit 1 v AND 0x7) = s"
    unfolding mask_octet(1)
    by (rule bit_word_eqI) (auto simp: bit_simps bits dest: bit_seqD)
  show "ucast (drop_bit 5 v AND 0x7) = r"
    unfolding mask_octet(1)
    by (rule bit_word_eqI) (auto simp: bit_simps bits dest: bit_seqD)
qed

lemma ack_octet:
  fixes r :: "3 word" and t :: byte
  assumes "t = 0 \<or> t = 2"
  defines "v \<equiv> push_bit 5 (ucast r) OR push_bit 2 t OR 1 :: byte"
  shows "bit v 0" "\<not> bit v 1" "drop_bit 2 v AND 0x3 = t" "ucast (drop_bit 5 v AND 0x7) = r"
proof -
  show "bit v 0" "\<not> bit v 1" using assms(1) by (auto simp: v_def bit_simps)
  show "drop_bit 2 v AND 0x3 = t"
    using assms(1) unfolding v_def mask_octet(2)
    by (intro bit_word_eqI) (auto simp: bit_simps)
  show "ucast (drop_bit 5 v AND 0x7) = r"
    using assms(1) unfolding v_def mask_octet(1)
    by (intro bit_word_eqI) (auto simp: bit_simps dest: bit_seqD)
qed

lemma low_bit_tests:
  "(b :: byte) AND push_bit 0 1 = 0 \<longleftrightarrow> \<not> bit b 0"
  "(b :: byte) AND push_bit 1 1 = 0 \<longleftrightarrow> \<not> bit b 1"
  by (simp_all only: and_bit_zero_iff) simp_all

lemmas control_defs = get_control_type_eq frame_control_type_eq
  control_carried_def control_zero_def

lemma decode_encode_control:
  "yahdlc_get_control_type (yahdlc_frame_control_type c) = control_carried c"
  using data_octet [of "send_seq_no c" "recv_seq_no c"]
    ack_octet [of 0 "recv_seq_no c"] ack_octet [of 2 "recv_seq_no c"]
  by (cases "frame c") (simp_all add: control_defs low_bit_tests [simplified])

lemma control_octet_eq_iff:
  "yahdlc_frame_control_type c = yahdlc_frame_control_type d
     \<longleftrightarrow> control_carried c = control_carried d"
proof -
  have "yahdlc_frame_control_type (control_carried e) = yahdlc_frame_control_type e" for e
    by (cases "frame e") (simp_all add: frame_control_type_eq control_carried_def)
  then show ?thesis by (metis decode_encode_control)
qed

text \<open>
  The octets an encoder makes are the ones that survive decoding and encoding again.  Decided
  over all frame types and numbers: the octets of different types differ, and the supervisory
  frames the library does not know (receive not ready and selective reject) are taken for a
  NACK, with their sequence number.
\<close>

lemma encodings_fixed:
  "yahdlc_frame_control_type (yahdlc_get_control_type b) = b
     \<longleftrightarrow> b \<in> range yahdlc_frame_control_type"
proof
  assume "b \<in> range yahdlc_frame_control_type"
  then obtain c where b: "b = yahdlc_frame_control_type c" by blast
  have "control_carried (control_carried c) = control_carried c"
    by (cases "frame c") (simp_all add: control_carried_def)
  then show "yahdlc_frame_control_type (yahdlc_get_control_type b) = b"
    by (simp add: b decode_encode_control control_octet_eq_iff)
qed (metis rangeI)

lemma frame_types_distinct:
  "\<forall>t u. yahdlc_frame_control_type (control_zero\<lparr>frame := t\<rparr>)
     = yahdlc_frame_control_type (control_zero\<lparr>frame := u\<rparr>) \<longrightarrow> t = u"
  by code_simp

lemma other_supervisory_is_nack:
  "\<forall>n :: 3 word. \<forall>s \<in> {YAHDLC_CONTROL_TYPE_RECEIVE_NOT_READY,
       YAHDLC_CONTROL_TYPE_SELECTIVE_REJECT}.
     yahdlc_get_control_type (push_bit YAHDLC_CONTROL_RECV_SEQ_NO_BIT (ucast n) OR
       push_bit YAHDLC_CONTROL_S_FRAME_TYPE_BIT s OR push_bit YAHDLC_CONTROL_S_OR_U_FRAME_BIT 1)
     = \<lparr>frame = YAHDLC_FRAME_NACK, send_seq_no = 0, recv_seq_no = n\<rparr>"
  by code_simp

section \<open>Properties\<close>

text \<open>
  The control octet transports the frame type and the sequence numbers the type
  carries: decoding what \<open>yahdlc_frame_control_type\<close> builds gives the control
  structure back, with the fields the type does not carry set to zero; so two control
  structures share an octet exactly when they agree on what is carried.
\<close>

theorem control_roundtrip:
  "yahdlc_get_control_type (yahdlc_frame_control_type c) = control_carried c \<and>
   (yahdlc_frame_control_type c = yahdlc_frame_control_type d
      \<longleftrightarrow> control_carried c = control_carried d)"
  by (simp add: decode_encode_control control_octet_eq_iff)

text \<open>
  The decoder has no notion of an unsupported unnumbered frame: every octet with
  both low bits set that is neither of the two known commands (its three upper bits
  are not \<open>001\<close> or \<open>011\<close>), for example the HDLC DISC command \<open>0x43\<close>, is reported as a
  DATA frame with sequence number zero.
\<close>

theorem unknown_unnumbered_is_data:
  assumes "bit b 0" "bit b 1" "drop_bit 5 b \<noteq> 1" "drop_bit 5 b \<noteq> 3"
  shows "yahdlc_get_control_type b =
    \<lparr>frame = YAHDLC_FRAME_DATA, send_seq_no = 0, recv_seq_no = 0\<rparr>"
  using assms
  by (simp add: get_control_type_eq control_zero_def low_bit_tests [simplified])

theorem unknown_unnumbered_is_data_witness:
  "yahdlc_get_control_type 0x43 =
    \<lparr>frame = YAHDLC_FRAME_DATA, send_seq_no = 0, recv_seq_no = 0\<rparr>"
  by (rule unknown_unnumbered_is_data) simp_all

text \<open>
  Of the five frame types only DATA and CONN are sent with the poll/final bit
  (bit 4) set; ACK, NACK and CONN\_ACK leave it clear.
\<close>

theorem poll_final_bit:
  "bit (yahdlc_frame_control_type c) 4 \<longleftrightarrow>
     frame c = YAHDLC_FRAME_DATA \<or> frame c = YAHDLC_FRAME_CONN"
  by (cases "frame c")
    (simp_all add: frame_control_type_eq bit_simps del: push_bit_numeral)

end
