(* ===== verification/Yahdlc_Encode.thy ===== *)
theory Yahdlc_Encode
  imports Yahdlc_Fcs Yahdlc_Control
begin

text \<open>
  Frame construction: \<open>yahdlc_escape_value\<close> and \<open>yahdlc_frame_data\<close> of
  \<open>dcl2/lib/src/yahdlc.c\<close>, the byte stuffing they implement and its contract
  (\<open>transparency\<close>), and the two-pass idiom (first a length, then the frame) every
  caller in \<open>dcl2.c\<close> uses.
\<close>

definition YAHDLC_FLAG_SEQUENCE :: byte where "YAHDLC_FLAG_SEQUENCE = 0x7E"
definition YAHDLC_CONTROL_ESCAPE :: byte where "YAHDLC_CONTROL_ESCAPE = 0x7D"
definition YAHDLC_ALL_STATION_ADDR :: byte where "YAHDLC_ALL_STATION_ADDR = 0xFF"

lemmas octet_defs = YAHDLC_FLAG_SEQUENCE_def YAHDLC_CONTROL_ESCAPE_def
  YAHDLC_ALL_STATION_ADDR_def

section \<open>The code\<close>

text \<open>
  The output position: the buffer \<open>dest\<close> (\<open>None\<close> for \<open>NULL\<close>) and \<open>dest_index\<close>.
  \<open>put\<close> is \<open>if (dest) dest[dest_index++] = v; else dest_index++;\<close>.
\<close>

type_synonym hdlc_out = "byte list option \<times> nat"

fun put :: "byte \<Rightarrow> hdlc_out \<Rightarrow> hdlc_out option" where
  "put v (None, i) = Some (None, i + 1)"
| "put v (Some b, i) = map_option (\<lambda>b'. (Some b', i + 1)) (buf_write i v b)"

definition yahdlc_escape_value :: "byte \<Rightarrow> hdlc_out \<Rightarrow> hdlc_out option" where
  "yahdlc_escape_value value out =
     (if value = YAHDLC_FLAG_SEQUENCE \<or> value = YAHDLC_CONTROL_ESCAPE
      then do {
        out \<leftarrow> put YAHDLC_CONTROL_ESCAPE out;
        put (value XOR 0x20) out
      }
      else put value out)"

text \<open>The loop over the payload, and the loop over the two octets of the check value.\<close>

fun frame_payload :: "byte list \<Rightarrow> 16 word \<times> hdlc_out \<Rightarrow> (16 word \<times> hdlc_out) option" where
  "frame_payload [] s = Some s"
| "frame_payload (x # xs) (f, out) = do {
     out \<leftarrow> yahdlc_escape_value x out;
     frame_payload xs (fcs16 f x, out)
   }"

fun frame_fcs :: "16 word \<Rightarrow> nat list \<Rightarrow> hdlc_out \<Rightarrow> hdlc_out option" where
  "frame_fcs f [] = Some"
| "frame_fcs f (i # is) = (\<lambda>out. do {
     out \<leftarrow> yahdlc_escape_value (fcs_byte f i) out;
     frame_fcs f is out
   })"

text \<open>
  The parameters \<open>control\<close>, \<open>src\<close>, \<open>dest\<close> and \<open>dest_len\<close> are pointers that may be
  \<open>NULL\<close>; the result is the return value with the final contents of \<open>dest\<close> and
  \<open>*dest_len\<close>.
\<close>

definition yahdlc_frame_data ::
  "yahdlc_control_t option \<Rightarrow> byte list option \<Rightarrow> nat \<Rightarrow> byte list option \<Rightarrow> nat option
     \<Rightarrow> (hdlc_ret \<times> byte list option \<times> nat option) option" where
  "yahdlc_frame_data control src src_len dest dest_len =
     (if control = None \<or> (src = None \<and> src_len > 0) \<or> dest_len = None
      then Some (Inl EINVAL, dest, dest_len)
      else do {
        let f = FCS16_INIT_VALUE;
        out \<leftarrow> put YAHDLC_FLAG_SEQUENCE (dest, 0);
        let f = fcs16 f YAHDLC_ALL_STATION_ADDR;
        out \<leftarrow> yahdlc_escape_value YAHDLC_ALL_STATION_ADDR out;
        let value = yahdlc_frame_control_type (the control);
        let f = fcs16 f value;
        out \<leftarrow> yahdlc_escape_value value out;
        (f, out) \<leftarrow>
          (if frame (the control) = YAHDLC_FRAME_DATA
           then do {
             data \<leftarrow> (case src of None \<Rightarrow> Some [] | Some s \<Rightarrow> buf_read src_len s);
             frame_payload data (f, out)
           }
           else Some (f, out));
        let f = f XOR 0xFFFF;
        out \<leftarrow> frame_fcs f [0, 1] out;
        out \<leftarrow> put YAHDLC_FLAG_SEQUENCE out;
        Some (Inr 0, fst out, Some (snd out))
      })"

section \<open>Byte stuffing\<close>

definition stuff_byte :: "byte \<Rightarrow> byte list" where
  "stuff_byte v =
     (if v = YAHDLC_FLAG_SEQUENCE \<or> v = YAHDLC_CONTROL_ESCAPE
      then [YAHDLC_CONTROL_ESCAPE, v XOR 0x20] else [v])"

definition stuff :: "byte list \<Rightarrow> byte list" where
  "stuff xs = concat (map stuff_byte xs)"

text \<open>The receiver's side: an escape octet is dropped and inverts bit 5 of the next octet.\<close>

fun unstuff :: "bool \<Rightarrow> byte list \<Rightarrow> byte list" where
  "unstuff esc [] = []"
| "unstuff esc (b # bs) =
     (if b = YAHDLC_CONTROL_ESCAPE then unstuff True bs
      else (if esc then b XOR 0x20 else b) # unstuff False bs)"

text \<open>What a framing scheme needs of its transparency encoding.\<close>

locale transparency =
  fixes enc :: "byte list \<Rightarrow> byte list"
    and dec :: "byte list \<Rightarrow> byte list"
    and flag :: byte
  assumes enc_Nil: "enc [] = []"
    and enc_append: "enc (xs @ ys) = enc xs @ enc ys"
    and enc_one_length: "length (enc [x]) \<in> {1, 2}"
    and enc_one_flag: "flag \<notin> set (enc [x])"
    and dec_enc: "dec (enc xs) = xs"
begin

lemma enc_Cons: "enc (x # xs) = enc [x] @ enc xs"
  using enc_append [of "[x]" xs] by simp

lemma flag_free: "flag \<notin> set (enc xs)"
proof (induction xs)
  case (Cons x xs)
  then show ?case using enc_one_flag [of x] by (subst enc_Cons) simp
qed (simp add: enc_Nil)

lemma enc_length: "length xs \<le> length (enc xs) \<and> length (enc xs) \<le> 2 * length xs"
proof (induction xs)
  case (Cons x xs)
  then show ?case using enc_one_length [of x] by (subst (1 2) enc_Cons) auto
qed (simp add: enc_Nil)

lemma enc_inj: "enc xs = enc ys \<longleftrightarrow> xs = ys"
  by (metis dec_enc)

end

lemma stuff_simps [frame_simps]:
  "stuff [] = []"
  "stuff (x # xs) = stuff_byte x @ stuff xs"
  "stuff (xs @ ys) = stuff xs @ stuff ys"
  by (simp_all add: stuff_def)

lemma escape_xor_neq: "v = YAHDLC_FLAG_SEQUENCE \<or> v = YAHDLC_CONTROL_ESCAPE \<Longrightarrow>
    v XOR 0x20 \<noteq> YAHDLC_FLAG_SEQUENCE \<and> v XOR 0x20 \<noteq> YAHDLC_CONTROL_ESCAPE"
  by (auto simp: octet_defs)

lemma unstuff_stuff_byte: "unstuff False (stuff_byte x @ ys) = x # unstuff False ys"
  using escape_xor_neq [of x] by (auto simp: stuff_byte_def)

lemma unstuff_stuff: "unstuff False (stuff xs) = xs"
  by (induction xs) (simp_all add: frame_simps unstuff_stuff_byte)

interpretation stuffing: transparency stuff "unstuff False" YAHDLC_FLAG_SEQUENCE
proof
  fix x xs ys
  show "stuff [] = []" "stuff (xs @ ys) = stuff xs @ stuff ys"
    by (simp_all add: frame_simps)
  show "length (stuff [x]) \<in> {1, 2}"
    by (simp add: frame_simps stuff_byte_def)
  show "YAHDLC_FLAG_SEQUENCE \<notin> set (stuff [x])"
    using escape_xor_neq [of x] by (auto simp: frame_simps stuff_byte_def octet_defs)
  show "unstuff False (stuff xs) = xs" by (rule unstuff_stuff)
qed

section \<open>Frame layout\<close>

text \<open>
  The octets between the flags before stuffing (address, control, payload of a DATA
  frame, check value), and the frame on the wire.
\<close>

definition frame_content :: "yahdlc_control_t \<Rightarrow> byte list \<Rightarrow> byte list" where
  "frame_content c m =
     YAHDLC_ALL_STATION_ADDR # yahdlc_frame_control_type c #
       (if frame c = YAHDLC_FRAME_DATA then m else [])"

definition frame_body :: "yahdlc_control_t \<Rightarrow> byte list \<Rightarrow> byte list" where
  "frame_body c m =
     frame_content c m @ fcs_trailer (foldl fcs16 FCS16_INIT_VALUE (frame_content c m))"

definition frame_bytes :: "yahdlc_control_t \<Rightarrow> byte list \<Rightarrow> byte list" where
  "frame_bytes c m =
     YAHDLC_FLAG_SEQUENCE # stuff (frame_body c m) @ [YAHDLC_FLAG_SEQUENCE]"

lemma length_frame_content:
  "length (frame_content c m) = 2 + (if frame c = YAHDLC_FRAME_DATA then length m else 0)"
  by (simp add: frame_content_def)

lemma length_frame_body:
  "length (frame_body c m) = 4 + (if frame c = YAHDLC_FRAME_DATA then length m else 0)"
  by (simp add: frame_body_def length_frame_content fcs_check.trailer_length)

lemma frame_body_accepted: "foldl fcs16 FCS16_INIT_VALUE (frame_body c m) = FCS16_GOOD_VALUE"
  unfolding frame_body_def by (rule fcs_check.accepts_own_trailer)

lemma length_frame_bytes:
  "length (frame_bytes c m) = 2 + length (stuff (frame_body c m))"
  by (simp add: frame_bytes_def)

section \<open>The code writes that layout\<close>

text \<open>Sequential output of a list, the common form of all the writes.\<close>

fun put_all :: "byte list \<Rightarrow> hdlc_out \<Rightarrow> hdlc_out option" where
  "put_all [] = Some"
| "put_all (x # xs) = (\<lambda>out. do { out \<leftarrow> put x out; put_all xs out })"

lemma put_all_append: "put_all (xs @ ys) = (\<lambda>out. do { out \<leftarrow> put_all xs out; put_all ys out })"
  by (induction xs) (simp_all add: option_bind_assoc)

lemma escape_value_put_all: "yahdlc_escape_value v out = put_all (stuff_byte v) out"
  by (simp add: yahdlc_escape_value_def stuff_byte_def)

lemma frame_payload_put_all:
  "frame_payload xs (f, out) =
     map_option (\<lambda>out. (foldl fcs16 f xs, out)) (put_all (stuff xs) out)"
proof (induction xs arbitrary: f out)
  case (Cons x xs)
  then show ?case
    by (cases "put_all (stuff_byte x) out")
      (simp_all add: frame_simps escape_value_put_all put_all_append)
qed (simp add: frame_simps)

lemma frame_fcs_put_all:
  "frame_fcs (f XOR 0xFFFF) [0, Suc 0] out = put_all (stuff (fcs_trailer f)) out"
  by (simp add: fcs_trailer_def frame_simps escape_value_put_all put_all_append)

lemma put_all_null: "put_all xs (None, i) = Some (None, i + length xs)"
  by (induction xs arbitrary: i) simp_all

lemma put_all_buffer:
  "put_all xs (Some b, i) =
     (if i + length xs \<le> length b \<or> xs = []
      then Some (Some (take i b @ xs @ drop (i + length xs) b), i + length xs) else None)"
proof (induction xs arbitrary: b i)
  case (Cons x xs)
  show ?case
  proof (cases "i < length b")
    case True
    then have "take (Suc i) (b[i := x]) = take i b @ [x]"
      by (simp add: take_Suc_conv_app_nth)
    with True Cons show ?thesis by (simp add: buf_write_def)
  next
    case False
    then show ?thesis by (simp add: buf_write_def)
  qed
qed simp

text \<open>
  With valid pointers the whole function is one sequential output of the frame.  The
  payload is read for DATA frames only.
\<close>

definition payload_of :: "yahdlc_control_t \<Rightarrow> byte list option \<Rightarrow> nat \<Rightarrow> byte list option" where
  "payload_of c src n =
     (if frame c = YAHDLC_FRAME_DATA
      then (case src of None \<Rightarrow> Some [] | Some s \<Rightarrow> buf_read n s) else Some [])"

lemma frame_data_put_all:
  assumes "src = None \<Longrightarrow> n = 0" and "payload_of c src n = Some m"
  shows "yahdlc_frame_data (Some c) src n dest (Some l) =
    map_option (\<lambda>out. (Inr 0, fst out, Some (snd out))) (put_all (frame_bytes c m) (dest, 0))"
proof -
  let ?f = "foldl fcs16 FCS16_INIT_VALUE (frame_content c m)"
  have bytes: "frame_bytes c m = [YAHDLC_FLAG_SEQUENCE]
      @ stuff_byte YAHDLC_ALL_STATION_ADDR @ stuff_byte (yahdlc_frame_control_type c)
      @ stuff (if frame c = YAHDLC_FRAME_DATA then m else [])
      @ stuff (fcs_trailer ?f) @ [YAHDLC_FLAG_SEQUENCE]"
    by (simp add: frame_bytes_def frame_body_def frame_content_def frame_simps)
  show ?thesis
    using assms
    unfolding bytes yahdlc_frame_data_def payload_of_def
    by (auto simp: Let_def option_bind_simps option_bind_Some option.map_ident put_all_append escape_value_put_all
        frame_payload_put_all frame_content_def frame_fcs_put_all frame_simps
        simp del: frame_fcs.simps split: option.splits)
qed

lemma frame_bytes_not_Nil: "frame_bytes c m \<noteq> []"
  by (simp add: frame_bytes_def)

lemma frame_data_null_dest:
  assumes "src = None \<Longrightarrow> n = 0" and "payload_of c src n = Some m"
  shows "yahdlc_frame_data (Some c) src n None (Some l) =
    Some (Inr 0, None, Some (length (frame_bytes c m)))"
  by (simp add: frame_data_put_all [OF assms] put_all_null)

lemma frame_data_buffer:
  assumes "src = None \<Longrightarrow> n = 0" and "payload_of c src n = Some m"
  shows "yahdlc_frame_data (Some c) src n (Some b) (Some l) =
    (if length (frame_bytes c m) \<le> length b
     then Some (Inr 0, Some (frame_bytes c m @ drop (length (frame_bytes c m)) b),
                Some (length (frame_bytes c m)))
     else None)"
  by (simp add: frame_data_put_all [OF assms] put_all_buffer frame_bytes_not_Nil del: put_all.simps)

text \<open>
  The idiom of all five callers in \<open>dcl2.c\<close>: ask for the length with a null
  destination, allocate an array of that length, build the frame in it, and transmit
  \<open>length\<close> octets of it.  The result is the return value of the first call and the
  octets to transmit.  The array starts out with indeterminate contents; the zeros
  below stand for them, and \<open>frame_data_buffer\<close> shows that none of them survives.
\<close>

definition build_frame ::
  "yahdlc_control_t \<Rightarrow> byte list option \<Rightarrow> nat \<Rightarrow> (hdlc_ret \<times> byte list) option" where
  "build_frame c src n = do {
     (r, _, len) \<leftarrow> yahdlc_frame_data (Some c) src n None (Some 0);
     (case r of
        Inl e \<Rightarrow> Some (r, [])
      | Inr _ \<Rightarrow> do {
          (_, dest, len) \<leftarrow> yahdlc_frame_data (Some c) src n (Some (replicate (the len) 0)) len;
          bytes \<leftarrow> buf_read (the len) (the dest);
          Some (r, bytes)
        })
   }"

lemma build_frame_eq:
  assumes "src = None \<Longrightarrow> n = 0" and "payload_of c src n = Some m"
  shows "build_frame c src n = Some (Inr 0, frame_bytes c m)"
  by (simp add: build_frame_def frame_data_null_dest [OF assms] frame_data_buffer [OF assms]
      buf_read_def)

section \<open>Properties\<close>

text \<open>
  C21. Frame construction meets its specification: with valid pointers and a readable
  payload, \<open>yahdlc_frame_data\<close> stores exactly the frame (flag, stuffed address,
  control, payload and inverted check value, flag) at the start of \<open>dest\<close>, leaves the
  rest of \<open>dest\<close> alone and reports the frame's length; it stays inside \<open>dest\<close> exactly
  when \<open>dest\<close> has room for the frame; and with a null \<open>dest\<close> it reports the same
  length.  A payload is sent in DATA frames only.
\<close>

theorem frame_data_spec:
  assumes "n \<le> length s"
  shows "yahdlc_frame_data (Some c) (Some s) n None (Some l) =
      Some (Inr 0, None, Some (length (frame_bytes c (take n s)))) \<and>
    yahdlc_frame_data (Some c) (Some s) n (Some b) (Some l) =
      (if length (frame_bytes c (take n s)) \<le> length b
       then Some (Inr 0,
         Some (frame_bytes c (take n s) @ drop (length (frame_bytes c (take n s))) b),
         Some (length (frame_bytes c (take n s))))
       else None)"
proof -
  obtain m where m: "payload_of c (Some s) n = Some m" "frame_bytes c m = frame_bytes c (take n s)"
    using assms
    by (cases "frame c = YAHDLC_FRAME_DATA")
      (auto simp: payload_of_def buf_read_def frame_bytes_def frame_body_def frame_content_def)
  show ?thesis
    using frame_data_null_dest [OF _ m(1)] frame_data_buffer [OF _ m(1)] m(2) by simp
qed

text \<open>The frame of an empty DATA message into a buffer of ten octets.\<close>

theorem frame_data_spec_witness:
  "yahdlc_frame_data (Some control_zero) (Some [0x11]) 0 (Some (replicate 10 0)) (Some 7) =
     Some (Inr 0, Some [0x7E, 0xFF, 0x10, 0x06, 0xE0, 0x7E, 0, 0, 0, 0], Some 6)"
proof -
  have "frame_bytes control_zero [] = [0x7E, 0xFF, 0x10, 0x06, 0xE0, 0x7E]"
    by (simp add: frame_bytes_def frame_body_def frame_content_def stuff_def stuff_byte_def
        octet_defs control_zero_def frame_control_type_eq fcs_trailer_def fcs_byte_def
        fcs16_def fcstab_def FCS16_INIT_VALUE_def)
  then show ?thesis
    using frame_data_spec [of 0 "[0x11]" control_zero 7 "replicate 10 0"]
    by (simp add: eval_nat_numeral)
qed

text \<open>
  Invalid parameters are refused without touching the output: a null control
  structure, a null payload with a positive length, or a null length pointer gives
  \<open>-EINVAL\<close> with the buffer and the length unchanged.
\<close>

theorem frame_data_invalid:
  "(control = None \<or> (src = None \<and> src_len > 0) \<or> dest_len = None)
     \<longleftrightarrow> (\<exists>b l. yahdlc_frame_data control src src_len dest dest_len = Some (Inl EINVAL, b, l))"
proof
  assume "control = None \<or> (src = None \<and> src_len > 0) \<or> dest_len = None"
  then show "\<exists>b l. yahdlc_frame_data control src src_len dest dest_len = Some (Inl EINVAL, b, l)"
    by (simp add: yahdlc_frame_data_def)
next
  assume "\<exists>b l. yahdlc_frame_data control src src_len dest dest_len = Some (Inl EINVAL, b, l)"
  then show "control = None \<or> (src = None \<and> src_len > 0) \<or> dest_len = None"
    by (auto simp: yahdlc_frame_data_def Let_def bind_eq_Some_conv split: if_splits)
qed

text \<open>
  The two-pass idiom of the callers is safe and exact: for every control structure
  and payload the second pass fits the array sized by the first, and the octets
  transmitted are the frame.
\<close>

theorem build_frame_spec:
  "build_frame c (Some m) (length m) = Some (Inr 0, frame_bytes c m) \<and>
   (frame c \<noteq> YAHDLC_FRAME_DATA \<longrightarrow> build_frame c None 0 = Some (Inr 0, frame_bytes c []))"
proof -
  obtain m' where "payload_of c (Some m) (length m) = Some m'" "frame_bytes c m' = frame_bytes c m"
    by (cases "frame c = YAHDLC_FRAME_DATA")
      (auto simp: payload_of_def buf_read_def frame_bytes_def frame_body_def frame_content_def)
  then have "build_frame c (Some m) (length m) = Some (Inr 0, frame_bytes c m)"
    using build_frame_eq by fastforce
  moreover have "payload_of c None 0 = Some []" by (simp add: payload_of_def)
  ultimately show ?thesis using build_frame_eq by fastforce
qed

theorem build_frame_spec_witness:
  "build_frame \<lparr>frame = YAHDLC_FRAME_CONN, send_seq_no = 0, recv_seq_no = 0\<rparr> None 0 =
     Some (Inr 0, frame_bytes \<lparr>frame = YAHDLC_FRAME_CONN, send_seq_no = 0, recv_seq_no = 0\<rparr> [])"
  using build_frame_spec [of "\<lparr>frame = YAHDLC_FRAME_CONN, send_seq_no = 0, recv_seq_no = 0\<rparr>" "[]"]
  by simp

text \<open>
  Frame length: a frame is at least six octets longer than its payload is kept,
  and at most ten octets plus twice the payload; so the frame of a message of at most
  249 octets has at most 508 octets, the bound \<open>DEADCOM_MAX_FRAME_LEN\<close> is meant to be.
\<close>

theorem frame_length_bounds:
  "6 + (if frame c = YAHDLC_FRAME_DATA then length m else 0) \<le> length (frame_bytes c m) \<and>
   length (frame_bytes c m) \<le> 10 + 2 * (if frame c = YAHDLC_FRAME_DATA then length m else 0)"
  using stuffing.enc_length [of "frame_body c m"]
  by (simp add: length_frame_bytes length_frame_body)

text \<open>
  Transparency: the flag octet occurs in a frame as its first and its last octet
  and nowhere between, whatever the payload.
\<close>

theorem frame_flag_free:
  "\<exists>mid. frame_bytes c m = YAHDLC_FLAG_SEQUENCE # mid @ [YAHDLC_FLAG_SEQUENCE] \<and>
     YAHDLC_FLAG_SEQUENCE \<notin> set mid"
  using stuffing.flag_free [of "frame_body c m"] by (auto simp: frame_bytes_def)

text \<open>
  Frames are uniquely decodable: two frames are the same octets exactly when they
  carry the same control information and, for DATA frames, the same payload.
\<close>

theorem frame_bytes_inj:
  "frame_bytes c m = frame_bytes d k \<longleftrightarrow>
     control_carried c = control_carried d \<and> (if frame c = YAHDLC_FRAME_DATA then m = k else True)"
proof -
  have *: "frame_bytes c m = frame_bytes d k \<longleftrightarrow> frame_body c m = frame_body d k"
    by (simp add: frame_bytes_def stuffing.enc_inj)
  also have "\<dots> \<longleftrightarrow> frame_content c m = frame_content d k"
    by (auto simp: frame_body_def fcs_check.trailer_length append_eq_append_conv)
  also have "\<dots> \<longleftrightarrow> control_carried c = control_carried d \<and> (if frame c = YAHDLC_FRAME_DATA then m = k else True)"
    using control_carried_frame [of c] control_carried_frame [of d]
    by (auto simp: frame_content_def control_octet_eq_iff simp del: control_carried_frame)
  finally show ?thesis .
qed

end
