(* ===== verification/Yahdlc_Decode.thy ===== *)
theory Yahdlc_Decode
  imports Yahdlc_Encode
begin

text \<open>
  Frame reception: the parser state \<open>yahdlc_state_t\<close>, \<open>yahdlc_reset_state\<close> and
  \<open>yahdlc_get_data\<close> of \<open>dcl2/lib/src/yahdlc.c\<close>.  The loop of \<open>yahdlc_get_data\<close> is
  \<open>get_data_loop\<close>, one iteration of it \<open>get_data_byte\<close>.
\<close>

section \<open>The parser state\<close>

text \<open>
  The \<open>ptrdiff_t\<close> positions are integers (\<open>-1\<close> is "not seen"); \<open>dest_index\<close>, which is
  never negative, and the counters are naturals.  \<open>control_escape\<close> is 0 or 1.
\<close>

record yahdlc_state_t =
  control_escape :: bool
  fcs :: "16 word"
  start_index :: int
  end_index :: int
  src_index :: int
  frame_byte_index :: nat
  dest_index :: nat
  frame_control :: byte
  max_frame_len :: nat

definition yahdlc_reset_state :: "yahdlc_state_t \<Rightarrow> nat \<Rightarrow> yahdlc_state_t" where
  "yahdlc_reset_state st max_len =
     st\<lparr>fcs := FCS16_INIT_VALUE,
        start_index := -1, end_index := -1,
        src_index := 0, dest_index := 0,
        control_escape := False,
        frame_byte_index := 0,
        frame_control := 0,
        max_frame_len := max_len\<rparr>"

text \<open>The state every reset produces, independent of the state before it.\<close>

definition reset_state :: "nat \<Rightarrow> yahdlc_state_t" where
  "reset_state max_len =
     \<lparr>control_escape = False, fcs = FCS16_INIT_VALUE, start_index = -1, end_index = -1,
      src_index = 0, frame_byte_index = 0, dest_index = 0, frame_control = 0,
      max_frame_len = max_len\<rparr>"

lemma yahdlc_reset_state_eq [simp]: "yahdlc_reset_state st n = reset_state n"
  by (cases st) (simp add: yahdlc_reset_state_def reset_state_def)

section \<open>One octet\<close>

text \<open>
  How an iteration of the loop ends: it goes on (\<open>continue\<close>, or the fall-through to
  \<open>state->src_index++\<close>), it breaks at an end flag, or the maximum frame length is hit.
\<close>

datatype loop_step =
    is_Continue: Continue yahdlc_state_t "byte list"
  | EndFlag yahdlc_state_t "byte list"
  | TooLong yahdlc_state_t "byte list"

definition advance :: "yahdlc_state_t \<Rightarrow> yahdlc_state_t" where
  "advance st = st\<lparr>src_index := src_index st + 1\<rparr>"

text \<open>
  The body of the loop for the octet \<open>b = src[i]\<close>; \<open>next_flag\<close> is
  \<open>(i < src_len - 1) && src[i + 1] == YAHDLC_FLAG_SEQUENCE\<close>.
\<close>

definition get_data_byte ::
  "yahdlc_state_t \<Rightarrow> byte list \<Rightarrow> byte \<Rightarrow> bool \<Rightarrow> loop_step option" where
  "get_data_byte st dest b next_flag =
     (if start_index st < 0 then
        if b = YAHDLC_FLAG_SEQUENCE then
          if next_flag then Some (Continue st dest)
          else Some (Continue (advance (st\<lparr>start_index := src_index st\<rparr>)) dest)
        else Some (Continue (advance st) dest)
      else
        if b = YAHDLC_FLAG_SEQUENCE then
          if next_flag \<or> start_index st + 1 = src_index st then Some (Continue st dest)
          else Some (EndFlag (st\<lparr>end_index := src_index st\<rparr>) dest)
        else if b = YAHDLC_CONTROL_ESCAPE then
          Some (Continue (advance (st\<lparr>control_escape := True\<rparr>)) dest)
        else
          let value = (if control_escape st then b XOR 0x20 else b);
              st = st\<lparr>control_escape := False, fcs := fcs16 (fcs st) value\<rparr>
          in
          if frame_byte_index st = 1 then
            Some (Continue (advance (st\<lparr>frame_control := value,
                                        frame_byte_index := frame_byte_index st + 1\<rparr>)) dest)
          else if frame_byte_index st > 1 then
            if dest_index st + 1 \<ge> max_frame_len st then Some (TooLong st dest)
            else do {
              dest \<leftarrow> buf_write (dest_index st) value dest;
              Some (Continue (advance (st\<lparr>dest_index := dest_index st + 1,
                                          frame_byte_index := frame_byte_index st + 1\<rparr>)) dest)
            }
          else
            Some (Continue (advance (st\<lparr>frame_byte_index := frame_byte_index st + 1\<rparr>)) dest))"

section \<open>The loop and the function\<close>

definition next_is_flag :: "byte list \<Rightarrow> bool" where
  "next_is_flag bs = (case bs of [] \<Rightarrow> False | b # _ \<Rightarrow> b = YAHDLC_FLAG_SEQUENCE)"

text \<open>The index at which the loop was left and how; running off the end is \<open>Continue\<close>.\<close>

fun get_data_loop ::
  "yahdlc_state_t \<Rightarrow> byte list \<Rightarrow> byte list \<Rightarrow> nat \<Rightarrow> (nat \<times> loop_step) option" where
  "get_data_loop st dest [] i = Some (i, Continue st dest)"
| "get_data_loop st dest (b # bs) i = do {
     s \<leftarrow> get_data_byte st dest b (next_is_flag bs);
     (case s of
        Continue st dest \<Rightarrow> get_data_loop st dest bs (Suc i)
      | EndFlag _ _ \<Rightarrow> Some (i, s)
      | TooLong _ _ \<Rightarrow> Some (i, s))
   }"

text \<open>
  The outputs of a call: the return value, and the final contents of \<open>*state\<close>,
  \<open>*control\<close>, \<open>dest\<close> and \<open>*dest_len\<close>.
\<close>

record get_data_result =
  ret :: hdlc_ret
  r_state :: yahdlc_state_t
  r_control :: yahdlc_control_t
  r_dest :: "byte list"
  r_dest_len :: nat

text \<open>What follows the loop when it was not left by the length check (lines 293 to 319).\<close>

definition get_data_finish ::
  "nat \<Rightarrow> yahdlc_state_t \<Rightarrow> yahdlc_control_t \<Rightarrow> byte list \<Rightarrow> get_data_result" where
  "get_data_finish i st control dest =
     (if start_index st < 0 \<or> end_index st < 0 then
        \<lparr>ret = Inl ENOMSG, r_state = st, r_control = control, r_dest = dest, r_dest_len = 0\<rparr>
      else if end_index st < start_index st + 4 \<or> fcs st \<noteq> FCS16_GOOD_VALUE then
        \<lparr>ret = Inl EIO, r_state = yahdlc_reset_state st (max_frame_len st),
         r_control = control, r_dest = dest, r_dest_len = i\<rparr>
      else
        \<lparr>ret = Inr i, r_state = yahdlc_reset_state st (max_frame_len st),
         r_control = yahdlc_get_control_type (frame_control st), r_dest = dest,
         r_dest_len = size_sub (dest_index st) 2\<rparr>)"

definition get_data ::
  "yahdlc_state_t \<Rightarrow> yahdlc_control_t \<Rightarrow> byte list \<Rightarrow> byte list \<Rightarrow> get_data_result option" where
  "get_data st control src dest = do {
     (i, s) \<leftarrow> get_data_loop st dest src 0;
     Some (case s of
         Continue st dest \<Rightarrow> get_data_finish i st control dest
       | EndFlag st dest \<Rightarrow> get_data_finish i st control dest
       | TooLong st dest \<Rightarrow>
           \<lparr>ret = Inl EIO, r_state = yahdlc_reset_state st (max_frame_len st),
            r_control = control, r_dest = dest, r_dest_len = i\<rparr>)
   }"

text \<open>
  The function with its pointer checks; the five outputs are those of the pointers
  that were passed.
\<close>

definition yahdlc_get_data ::
  "yahdlc_state_t option \<Rightarrow> yahdlc_control_t option \<Rightarrow> byte list option \<Rightarrow> nat
     \<Rightarrow> byte list option \<Rightarrow> nat option
     \<Rightarrow> (hdlc_ret \<times> yahdlc_state_t option \<times> yahdlc_control_t option \<times> byte list option
          \<times> nat option) option" where
  "yahdlc_get_data state control src src_len dest dest_len =
     (case (state, control, src, dest, dest_len) of
        (Some st, Some c, Some s, Some d, Some _) \<Rightarrow> do {
          s \<leftarrow> buf_read src_len s;
          r \<leftarrow> get_data st c s d;
          Some (ret r, Some (r_state r), Some (r_control r), Some (r_dest r), Some (r_dest_len r))
        }
      | _ \<Rightarrow> Some (Inl EINVAL, state, control, dest, dest_len))"

section \<open>Where the loop stops\<close>

lemma get_data_loop_shift:
  "get_data_loop st dest bs (i + k) = map_option (\<lambda>(j, s). (j + k, s)) (get_data_loop st dest bs i)"
proof (induction bs arbitrary: st dest i)
  case (Cons b bs)
  show ?case
    using Cons.IH [of _ _ "Suc i"]
    by (cases "get_data_byte st dest b (next_is_flag bs)") (simp_all split: loop_step.split)
qed simp

lemma get_data_loop_index:
  "get_data_loop st dest bs i = Some (j, s) \<Longrightarrow>
     i \<le> j \<and> j \<le> i + length bs \<and> (\<not> is_Continue s \<longrightarrow> j < i + length bs)"
proof (induction bs arbitrary: st dest i)
  case (Cons b bs)
  from Cons.prems obtain s' where s': "get_data_byte st dest b (next_is_flag bs) = Some s'"
    and rest: "(case s' of Continue st dest \<Rightarrow> get_data_loop st dest bs (Suc i)
                 | _ \<Rightarrow> Some (i, s')) = Some (j, s)"
    by (auto simp: bind_eq_Some_conv)
  show ?case
  proof (cases s')
    case (Continue st' dest')
    with rest have "get_data_loop st' dest' bs (Suc i) = Some (j, s)" by simp
    from Cons.IH [OF this] show ?thesis by auto
  qed (use rest in auto)
qed auto

text \<open>Only a parser that has seen a start flag can stop at the first octet.\<close>

lemma get_data_byte_hunting:
  assumes "start_index st < 0"
  shows "\<exists>st'. get_data_byte st dest b nf = Some (Continue st' dest)"
  using assms by (simp add: get_data_byte_def)

lemma get_data_loop_hunting:
  assumes "start_index st < 0" "bs \<noteq> []" "get_data_loop st dest bs i = Some (j, s)"
  shows "i < j"
proof -
  obtain b bs' where bs: "bs = b # bs'" using assms(2) by (cases bs) auto
  obtain st' where "get_data_byte st dest b (next_is_flag bs') = Some (Continue st' dest)"
    using get_data_byte_hunting [OF assms(1)] by blast
  with assms(3) bs have "get_data_loop st' dest bs' (Suc i) = Some (j, s)" by simp
  then show ?thesis using get_data_loop_index by fastforce
qed

text \<open>
  The call's own progress measure: unless it reports \<open>-ENOMSG\<close>, it consumes at most
  the input, leaves a reset parser, and consumes at least one octet if the parser had
  not seen a start flag.
\<close>

definition consumed :: "get_data_result \<Rightarrow> nat option" where
  "consumed r = (case ret r of Inr n \<Rightarrow> Some n | Inl EIO \<Rightarrow> Some (r_dest_len r) | _ \<Rightarrow> None)"

lemma get_data_finish_consumed:
  "consumed (get_data_finish i st c dest) = Some n \<Longrightarrow>
     n = i \<and> r_state (get_data_finish i st c dest) = reset_state (max_frame_len st)"
  by (auto simp: get_data_finish_def consumed_def split: if_splits)

lemma start_index_reset [simp]: "start_index (reset_state m) = -1"
  by (simp add: reset_state_def)

lemma get_data_progress:
  assumes "get_data st c src dest = Some r" "consumed r = Some n"
  shows "n \<le> length src \<and> start_index (r_state r) < 0 \<and>
    (start_index st < 0 \<longrightarrow> src \<noteq> [] \<longrightarrow> 0 < n)"
proof -
  from assms(1) obtain j s where loop: "get_data_loop st dest src 0 = Some (j, s)"
    and r: "r = (case s of Continue st dest \<Rightarrow> get_data_finish j st c dest
              | EndFlag st dest \<Rightarrow> get_data_finish j st c dest
              | TooLong st dest \<Rightarrow>
                  \<lparr>ret = Inl EIO, r_state = yahdlc_reset_state st (max_frame_len st),
                   r_control = c, r_dest = dest, r_dest_len = j\<rparr>)"
    by (auto simp: get_data_def bind_eq_Some_conv)
  have "n = j \<and> (\<exists>m. r_state r = reset_state m)"
    using assms(2) r get_data_finish_consumed
    by (cases s) (auto simp: consumed_def split: errno.splits)
  moreover have "j \<le> length src" using get_data_loop_index [OF loop] by simp
  ultimately show ?thesis using get_data_loop_hunting [OF _ _ loop] by fastforce
qed

section \<open>The first octet of a call\<close>

text \<open>
  A call on a non-empty input is one iteration on its first octet and, if that goes on,
  the same call on the rest, its indices moved by one.  This needs the end flag not to
  have been seen before the call, which every reset establishes.
\<close>

definition shift_result :: "get_data_result \<Rightarrow> get_data_result" where
  "shift_result r =
     (case ret r of
        Inr n \<Rightarrow> r\<lparr>ret := Inr (Suc n)\<rparr>
      | Inl EIO \<Rightarrow> r\<lparr>r_dest_len := Suc (r_dest_len r)\<rparr>
      | _ \<Rightarrow> r)"

lemma get_data_finish_Suc:
  "get_data_finish (Suc i) st c dest = shift_result (get_data_finish i st c dest)"
  by (simp add: get_data_finish_def shift_result_def)

lemma get_data_Nil:
  "end_index st < 0 \<Longrightarrow> get_data st c [] dest =
     Some \<lparr>ret = Inl ENOMSG, r_state = st, r_control = c, r_dest = dest, r_dest_len = 0\<rparr>"
  by (simp add: get_data_def get_data_finish_def)

lemma get_data_Cons:
  "get_data st c (b # bs) dest = do {
     s \<leftarrow> get_data_byte st dest b (next_is_flag bs);
     (case s of
        Continue st dest \<Rightarrow> map_option shift_result (get_data st c bs dest)
      | EndFlag st dest \<Rightarrow> Some (get_data_finish 0 st c dest)
      | TooLong st dest \<Rightarrow>
          Some \<lparr>ret = Inl EIO, r_state = reset_state (max_frame_len st),
                r_control = c, r_dest = dest, r_dest_len = 0\<rparr>)
   }"
proof (cases "get_data_byte st dest b (next_is_flag bs)")
  case (Some s)
  show ?thesis
  proof (cases s)
    case (Continue st' dest')
    have "get_data_loop st' dest' bs (Suc 0)
        = map_option (\<lambda>(j, s). (Suc j, s)) (get_data_loop st' dest' bs 0)"
      using get_data_loop_shift [of st' dest' bs 0 1] by simp
    then show ?thesis
      using Some Continue
      by (cases "get_data_loop st' dest' bs 0")
        (auto simp: get_data_def get_data_finish_Suc shift_result_def split: loop_step.split)
  qed (simp_all add: Some get_data_def)
qed (simp add: get_data_def)

end
