(* ===== verification/Dcl2_Link.thy ===== *)
theory Dcl2_Link
  imports Yahdlc_Decode
begin

text \<open>
  The link object of DeadCom Layer 2, \<open>dcl2/lib/inc/dcl2.h\<close> and \<open>dcl2/lib/src/dcl2.c\<close>:
  its state, the callbacks it is given, and the operations of the upper-layer API
  (\<open>dcInit\<close>, \<open>dcConnect\<close>, \<open>dcDisconnect\<close>, \<open>dcSendMessage\<close>, \<open>dcGetReceivedMsg\<close>).
  \<open>dcProcessData\<close> is in the theory \<open>Dcl2_Receive\<close>.

  An operation takes the object as it is when the mutex has been acquired and returns
  the object as it is when the mutex is released.  While an operation waits on the
  condition variable the mutex is free and other threads change the object; this is
  why the model's \<open>condvarWait\<close> returns a new object.
\<close>

section \<open>Types\<close>

datatype DeadcomL2State = DC_DISCONNECTED | DC_CONNECTING | DC_CONNECTED | DC_TRANSMITTING

datatype DeadcomL2LastResponse = DC_RESP_OK | DC_RESP_REJECT | DC_RESP_NOLINK

datatype DeadcomL2Result = DC_OK | DC_FAILURE | DC_NOT_CONNECTED | DC_LINK_RESET

definition DEADCOM_CONN_TIMEOUT_MS :: nat where "DEADCOM_CONN_TIMEOUT_MS = 100"
definition DEADCOM_ACK_TIMEOUT_MS :: nat where "DEADCOM_ACK_TIMEOUT_MS = 100"
definition DEADCOM_PAYLOAD_MAX_LEN :: nat where "DEADCOM_PAYLOAD_MAX_LEN = 249"
definition DEADCOM_MAX_FAILURE_COUNT :: byte where "DEADCOM_MAX_FAILURE_COUNT = 3"
definition DEADCOM_MAX_FRAME_LEN :: nat where
  "DEADCOM_MAX_FRAME_LEN = DEADCOM_PAYLOAD_MAX_LEN * 2 + 10"

text \<open>An opaque pointer: an address or \<open>NULL\<close>.\<close>

type_synonym ptr = "nat option"

record DeadcomL2 =
  state :: DeadcomL2State
  extractionBuffer :: "byte list"
  scratchpadBuffer :: "byte list"
  extractionBufferSize :: "16 word"
  extractionComplete :: bool
  yahdlc_state :: yahdlc_state_t
  send_number :: byte
  next_expected_ack :: byte
  recv_number :: byte
  failure_count :: byte
  last_response :: DeadcomL2LastResponse
  transmitBytes_p :: ptr
  mutex_p :: ptr
  condvar_p :: ptr
  transmission_context_p :: ptr
  t_p :: ptr

text \<open>
  The callbacks, acting on an environment \<open>'e\<close> (the wire, the scheduler, the other
  threads).  Each returns its boolean result.  \<open>condvarWait\<close> is passed the value of
  \<open>*timed_out\<close> (\<open>None\<close> while it is indeterminate) and returns the value after the
  call, together with the object the other threads leave behind.
\<close>

record 'e dcl2_env =
  mutexInit :: "ptr \<Rightarrow> 'e \<Rightarrow> bool \<times> 'e"
  mutexLock :: "ptr \<Rightarrow> 'e \<Rightarrow> bool \<times> 'e"
  mutexUnlock :: "ptr \<Rightarrow> 'e \<Rightarrow> bool \<times> 'e"
  condvarInit :: "ptr \<Rightarrow> 'e \<Rightarrow> bool \<times> 'e"
  condvarWait :: "ptr \<Rightarrow> nat \<Rightarrow> bool option \<Rightarrow> DeadcomL2 \<Rightarrow> 'e
                    \<Rightarrow> bool \<times> bool option \<times> DeadcomL2 \<times> 'e"
  condvarSignal :: "ptr \<Rightarrow> 'e \<Rightarrow> bool \<times> 'e"
  transmitBytes :: "byte list \<Rightarrow> ptr \<Rightarrow> 'e \<Rightarrow> bool \<times> 'e"

type_synonym 'e dc_ret = "(DeadcomL2Result \<times> DeadcomL2 option \<times> 'e) option"

section \<open>Initialisation\<close>

definition resetLink :: "DeadcomL2 \<Rightarrow> DeadcomL2" where
  "resetLink d =
     d\<lparr>send_number := 0,
       next_expected_ack := 0,
       recv_number := 0,
       failure_count := 0,
       extractionBufferSize := 0,
       extractionComplete := False,
       state := DC_DISCONNECTED\<rparr>"

text \<open>The object after \<open>memset(deadcom, 0, sizeof(DeadcomL2))\<close>.\<close>

definition dc_zero :: DeadcomL2 where
  "dc_zero =
     \<lparr>state = DC_DISCONNECTED,
      extractionBuffer = replicate DEADCOM_PAYLOAD_MAX_LEN 0,
      scratchpadBuffer = replicate DEADCOM_PAYLOAD_MAX_LEN 0,
      extractionBufferSize = 0, extractionComplete = False,
      yahdlc_state =
        \<lparr>control_escape = False, fcs = 0, start_index = 0, end_index = 0, src_index = 0,
         frame_byte_index = 0, dest_index = 0, frame_control = 0, max_frame_len = 0\<rparr>,
      send_number = 0, next_expected_ack = 0, recv_number = 0, failure_count = 0,
      last_response = DC_RESP_OK,
      transmitBytes_p = None, mutex_p = None, condvar_p = None,
      transmission_context_p = None, t_p = None\<rparr>"

definition dcInit ::
  "'e dcl2_env \<Rightarrow> DeadcomL2 option \<Rightarrow> ptr \<Rightarrow> ptr \<Rightarrow> ptr \<Rightarrow> ptr \<Rightarrow> ptr \<Rightarrow> 'e
     \<Rightarrow> DeadcomL2Result \<times> DeadcomL2 option \<times> 'e" where
  "dcInit env deadcom mutex condvar t transmit transmissionContext e =
     (if deadcom = None \<or> transmit = None \<or> mutex = None \<or> condvar = None \<or> t = None
      then (DC_FAILURE, deadcom, e)
      else
        let d = resetLink dc_zero;
            d = d\<lparr>transmitBytes_p := transmit, mutex_p := mutex, condvar_p := condvar,
                  t_p := t, transmission_context_p := transmissionContext,
                  yahdlc_state := yahdlc_reset_state (yahdlc_state d) DEADCOM_MAX_FRAME_LEN\<rparr>;
            (m, e) = mutexInit env (mutex_p d) e
        in if \<not> m then (DC_FAILURE, Some d, e)
           else let (c, e) = condvarInit env (condvar_p d) e
                in (if c then DC_OK else DC_FAILURE, Some d, e))"

text \<open>
  The exit of every operation: \<open>if (!mutexUnlock(m)) return DC_FAILURE; return r;\<close>.
\<close>

definition leave :: "'e dcl2_env \<Rightarrow> DeadcomL2Result \<Rightarrow> DeadcomL2 \<Rightarrow> 'e \<Rightarrow> 'e dc_ret" where
  "leave env r d e =
     (let (u, e) = mutexUnlock env (mutex_p d) e
      in Some (if u then r else DC_FAILURE, Some d, e))"

section \<open>Connecting and disconnecting\<close>

definition conn_control :: yahdlc_control_t where
  "conn_control = \<lparr>frame = YAHDLC_FRAME_CONN, send_seq_no = 0, recv_seq_no = 0\<rparr>"

lemma build_control: "frame c \<noteq> YAHDLC_FRAME_DATA \<Longrightarrow> build_frame c None 0 = Some (Inr 0, frame_bytes c [])"
  by (rule build_frame_eq) (simp_all add: payload_of_def)

lemma build_conn: "build_frame conn_control None 0 = Some (Inr 0, frame_bytes conn_control [])"
  by (rule build_control) (simp add: conn_control_def)

lemma build_data: "frame c = YAHDLC_FRAME_DATA \<Longrightarrow> n \<le> length m \<Longrightarrow>
    build_frame c (Some m) n = Some (Inr 0, frame_bytes c (take n m))"
  by (rule build_frame_eq) (simp_all add: payload_of_def buf_read_def)

text \<open>What follows the wait in \<open>dcConnect\<close> (lines 83 to 104).\<close>

definition connect_finish ::
  "'e dcl2_env \<Rightarrow> bool \<Rightarrow> bool \<Rightarrow> DeadcomL2 \<Rightarrow> 'e \<Rightarrow> 'e dc_ret" where
  "connect_finish env waited timed_out d e =
     (if \<not> waited then leave env DC_FAILURE (d\<lparr>state := DC_DISCONNECTED\<rparr>) e
      else if timed_out then leave env DC_NOT_CONNECTED (d\<lparr>state := DC_DISCONNECTED\<rparr>) e
      else
        let d = (resetLink d)\<lparr>state := DC_CONNECTED\<rparr>;
            (u, e) = mutexUnlock env (mutex_p d) e
        in if \<not> u then Some (DC_FAILURE, Some (d\<lparr>state := DC_DISCONNECTED\<rparr>), e)
           else Some (DC_OK, Some d, e))"

definition dcConnect :: "'e dcl2_env \<Rightarrow> DeadcomL2 option \<Rightarrow> 'e \<Rightarrow> 'e dc_ret" where
  "dcConnect env deadcom e =
     (case deadcom of
        None \<Rightarrow> Some (DC_FAILURE, None, e)
      | Some d \<Rightarrow>
          let (l, e) = mutexLock env (mutex_p d) e in
          if \<not> l then Some (DC_FAILURE, Some d, e)
          else if state d = DC_CONNECTED then leave env DC_OK d e
          else if state d = DC_CONNECTING then leave env DC_FAILURE d e
          else do {
            let d = d\<lparr>state := DC_CONNECTING\<rparr>;
            (_, frame_data) \<leftarrow> build_frame conn_control None 0;
            let (x, e) = transmitBytes env frame_data (transmission_context_p d) e;
            if \<not> x then leave env DC_FAILURE (d\<lparr>state := DC_DISCONNECTED\<rparr>) e
            else do {
              let (w, timed_out, d, e) =
                condvarWait env (condvar_p d) DEADCOM_CONN_TIMEOUT_MS (Some False) d e;
              if \<not> w then connect_finish env False False d e
              else do {
                timed_out \<leftarrow> timed_out;
                connect_finish env True timed_out d e
              }
            }
          })"

definition dcDisconnect :: "'e dcl2_env \<Rightarrow> DeadcomL2 option \<Rightarrow> 'e \<Rightarrow> 'e dc_ret" where
  "dcDisconnect env deadcom e =
     (case deadcom of
        None \<Rightarrow> Some (DC_FAILURE, None, e)
      | Some d \<Rightarrow>
          let (l, e) = mutexLock env (mutex_p d) e in
          if \<not> l then Some (DC_FAILURE, Some d, e)
          else if state d = DC_CONNECTING then leave env DC_FAILURE d e
          else leave env DC_OK (d\<lparr>state := DC_DISCONNECTED\<rparr>) e)"

section \<open>Sending\<close>

text \<open>How the retransmission loop of \<open>dcSendMessage\<close> is left.\<close>

datatype send_exit =
    SendFailed    \<comment> \<open>a callback failed: \<open>return DC_FAILURE\<close> out of the loop\<close>
  | SendAcked     \<comment> \<open>\<open>transmit_success = true; break;\<close>\<close>
  | SendDropped   \<comment> \<open>no link, or \<open>DEADCOM_MAX_FAILURE_COUNT\<close> failures\<close>

text \<open>The restoration on a failed callback (lines 161 and 162, 168 and 169).\<close>

definition send_rollback :: "DeadcomL2 \<Rightarrow> DeadcomL2" where
  "send_rollback d =
     d\<lparr>state := DC_CONNECTED, send_number := (send_number d + 7) mod 8\<rparr>"

text \<open>
  The reaction to the end of a wait (lines 174 to 184): \<open>Some x\<close> leaves the loop.
\<close>

definition send_check :: "bool \<Rightarrow> DeadcomL2 \<Rightarrow> send_exit option \<times> DeadcomL2" where
  "send_check timed_out d =
     (if \<not> timed_out \<and> last_response d = DC_RESP_OK then (Some SendAcked, d)
      else if \<not> timed_out \<and> last_response d = DC_RESP_NOLINK then (Some SendDropped, d)
      else (None, d\<lparr>failure_count := failure_count d + 1\<rparr>))"

text \<open>
  The loop \<open>while (failure_count < DEADCOM_MAX_FAILURE_COUNT)\<close>.  Other threads write
  \<open>failure_count\<close> while this one waits, so nothing in the function itself bounds the
  number of iterations: \<open>None\<close> is no return (or the use of an indeterminate
  \<open>timed_out\<close>).
\<close>

partial_function (option) send_loop ::
  "'e dcl2_env \<Rightarrow> byte list \<Rightarrow> DeadcomL2 \<Rightarrow> 'e \<Rightarrow> (send_exit \<times> DeadcomL2 \<times> 'e) option" where
  "send_loop env frame_data d e =
     (if failure_count d < DEADCOM_MAX_FAILURE_COUNT then
        let (x, e) = transmitBytes env frame_data (transmission_context_p d) e in
        if \<not> x then Some (SendFailed, send_rollback d, e)
        else
          let (w, timed_out, d, e) =
            condvarWait env (condvar_p d) DEADCOM_ACK_TIMEOUT_MS None d e in
          if \<not> w then Some (SendFailed, send_rollback d, e)
          else (case timed_out of
                  None \<Rightarrow> None
                | Some timed_out \<Rightarrow>
                    (case send_check timed_out d of
                       (Some r, d) \<Rightarrow> Some (r, d, e)
                     | (None, d) \<Rightarrow> send_loop env frame_data d e))
      else Some (SendDropped, d, e))"

definition data_control :: "DeadcomL2 \<Rightarrow> yahdlc_control_t" where
  "data_control d =
     \<lparr>frame = YAHDLC_FRAME_DATA, send_seq_no = ucast (send_number d),
      recv_seq_no = ucast (recv_number d)\<rparr>"

definition dcSendMessage ::
  "'e dcl2_env \<Rightarrow> DeadcomL2 option \<Rightarrow> byte list option \<Rightarrow> nat \<Rightarrow> 'e \<Rightarrow> 'e dc_ret" where
  "dcSendMessage env deadcom message message_len e =
     (case deadcom of
        None \<Rightarrow> Some (DC_FAILURE, None, e)
      | Some d \<Rightarrow>
          if message = None \<or> message_len = 0 \<or> message_len > DEADCOM_PAYLOAD_MAX_LEN
          then Some (DC_FAILURE, Some d, e)
          else
            let (l, e) = mutexLock env (mutex_p d) e in
            if \<not> l then Some (DC_FAILURE, Some d, e)
            else if state d = DC_TRANSMITTING then leave env DC_FAILURE d e
            else if state d \<noteq> DC_CONNECTED then leave env DC_NOT_CONNECTED d e
            else do {
              let control = data_control d;
              let d = d\<lparr>send_number := (send_number d + 1) mod 8, failure_count := 0,
                        state := DC_TRANSMITTING\<rparr>;
              (r, frame_data) \<leftarrow> build_frame control message message_len;
              if r = Inl EINVAL then leave env DC_FAILURE d e
              else do {
                let d = d\<lparr>failure_count := 0\<rparr>;
                (x, d, e) \<leftarrow> send_loop env frame_data d e;
                (case x of
                   SendFailed \<Rightarrow> leave env DC_FAILURE d e
                 | SendAcked \<Rightarrow> leave env DC_OK (d\<lparr>state := DC_CONNECTED\<rparr>) e
                 | SendDropped \<Rightarrow> leave env DC_LINK_RESET (resetLink d) e)
              }
            })"

section \<open>Fetching a received message\<close>

text \<open>The conversions between \<open>size_t\<close> and the \<open>int16_t\<close> that holds the length.\<close>

definition int16_of_size :: "nat \<Rightarrow> 16 word" where
  "int16_of_size n = word_of_nat n"

definition size_of_int16 :: "16 word \<Rightarrow> nat" where
  "size_of_int16 w = unat (scast w :: 64 word)"

definition ack_control :: "DeadcomL2 \<Rightarrow> yahdlc_control_t" where
  "ack_control d =
     \<lparr>frame = YAHDLC_FRAME_ACK, send_seq_no = 0,
      recv_seq_no = ucast ((recv_number d + 7) mod 8)\<rparr>"

text \<open>
  The result carries the contents of the caller's \<open>buffer\<close> and of \<open>*msg_len\<close>.
\<close>

definition dcGetReceivedMsg ::
  "'e dcl2_env \<Rightarrow> DeadcomL2 option \<Rightarrow> byte list option \<Rightarrow> nat option \<Rightarrow> 'e
     \<Rightarrow> (DeadcomL2Result \<times> byte list option \<times> nat option \<times> DeadcomL2 option \<times> 'e) option" where
  "dcGetReceivedMsg env deadcom buffer msg_len e =
     (case (deadcom, msg_len) of
        (Some d, Some n) \<Rightarrow>
          let (l, e) = mutexLock env (mutex_p d) e in
          if \<not> l then Some (DC_FAILURE, buffer, Some n, Some d, e)
          else if state d = DC_DISCONNECTED \<or> state d = DC_CONNECTING then
            let (u, e) = mutexUnlock env (mutex_p d) e in
            if \<not> u then Some (DC_FAILURE, buffer, Some n, Some d, e)
            else Some (DC_NOT_CONNECTED, buffer, Some 0, Some d, e)
          else if \<not> extractionComplete d then
            let (u, e) = mutexUnlock env (mutex_p d) e in
            Some (if u then DC_OK else DC_FAILURE, buffer, Some 0, Some d, e)
          else
            let n = size_of_int16 (extractionBufferSize d) in
            (case buffer of
               None \<Rightarrow>
                 let (u, e) = mutexUnlock env (mutex_p d) e in
                 Some (if u then DC_OK else DC_FAILURE, None, Some n, Some d, e)
             | Some b \<Rightarrow> do {
                 b \<leftarrow> buf_copy b (extractionBuffer d) n;
                 (_, ack_frame) \<leftarrow> build_frame (ack_control d) None 0;
                 let (x, e) = transmitBytes env ack_frame (transmission_context_p d) e;
                 if \<not> x then
                   let (u, e) = mutexUnlock env (mutex_p d) e in
                   Some (DC_FAILURE, Some b, Some n, Some d, e)
                 else
                   let d = d\<lparr>extractionBufferSize := 0, extractionComplete := False\<rparr>;
                       (u, e) = mutexUnlock env (mutex_p d) e in
                   Some (if u then DC_OK else DC_FAILURE, Some b, Some n, Some d, e)
               })
      | _ \<Rightarrow> Some (DC_FAILURE, buffer, msg_len, deadcom, e))"

section \<open>A concrete environment\<close>

text \<open>
  An environment for examples: every callback succeeds, every wait times out, and the
  state is the list of the frames transmitted so far.
\<close>

definition log_env :: "byte list list dcl2_env" where
  "log_env =
     \<lparr>mutexInit = \<lambda>p e. (True, e), mutexLock = \<lambda>p e. (True, e), mutexUnlock = \<lambda>p e. (True, e),
      condvarInit = \<lambda>p e. (True, e), condvarWait = \<lambda>p ms t d e. (True, Some True, d, e),
      condvarSignal = \<lambda>p e. (True, e), transmitBytes = \<lambda>b p e. (True, e @ [b])\<rparr>"

end
