(* ===== verification/Dcl2_Receive.thy ===== *)
theory Dcl2_Receive
  imports Dcl2_Link
begin

text \<open>
  \<open>dcProcessData\<close> of \<open>dcl2/lib/src/dcl2.c\<close>: the handler of a received frame (the
  \<open>switch\<close> over the frame type), the loop that feeds a chunk of octets to the frame
  parser, its termination, and its equivalence to an octet-by-octet receiver, from
  which it follows that the division of the input into chunks does not matter.
\<close>

section \<open>The frame handler\<close>

text \<open>
  Lines 290 to 415.  The boolean is \<open>False\<close> where the code gives up the mutex and
  returns \<open>DC_FAILURE\<close>.
\<close>

definition signal_waiter :: "'e dcl2_env \<Rightarrow> DeadcomL2 \<Rightarrow> 'e \<Rightarrow> (bool \<times> DeadcomL2 \<times> 'e) option" where
  "signal_waiter env d e = (let (s, e) = condvarSignal env (condvar_p d) e in Some (s, d, e))"

definition handle_data ::
  "'e dcl2_env \<Rightarrow> yahdlc_control_t \<Rightarrow> nat \<Rightarrow> DeadcomL2 \<Rightarrow> 'e \<Rightarrow> (bool \<times> DeadcomL2 \<times> 'e) option" where
  "handle_data env c dest_len d e =
     (if state d = DC_CONNECTED \<or> state d = DC_TRANSMITTING then
        if ucast (send_seq_no c) = recv_number d then
          if extractionBufferSize d = 0 \<and> dest_len \<noteq> 0 then do {
            let d = d\<lparr>extractionBufferSize := int16_of_size dest_len, extractionComplete := True\<rparr>;
            b \<leftarrow> buf_copy (extractionBuffer d) (scratchpadBuffer d) dest_len;
            Some (True, d\<lparr>extractionBuffer := b, recv_number := (recv_number d + 1) mod 8\<rparr>, e)
          }
          else Some (True, d, e)
        else if \<not> extractionComplete d \<and> (ucast (send_seq_no c) + 1) mod 8 = recv_number d then do {
          (_, ack_frame) \<leftarrow> build_frame (ack_control d) None 0;
          let (x, e) = transmitBytes env ack_frame (transmission_context_p d) e;
          Some (x, d, e)
        }
        else Some (True, d, e)
      else Some (True, d, e))"

definition handle_ack ::
  "'e dcl2_env \<Rightarrow> yahdlc_control_t \<Rightarrow> DeadcomL2 \<Rightarrow> 'e \<Rightarrow> (bool \<times> DeadcomL2 \<times> 'e) option" where
  "handle_ack env c d e =
     (if state d = DC_TRANSMITTING \<and> ucast (recv_seq_no c) = next_expected_ack d then
        signal_waiter env
          (d\<lparr>next_expected_ack := (next_expected_ack d + 1) mod 8, last_response := DC_RESP_OK\<rparr>) e
      else Some (True, d, e))"

definition handle_nack ::
  "'e dcl2_env \<Rightarrow> DeadcomL2 \<Rightarrow> 'e \<Rightarrow> (bool \<times> DeadcomL2 \<times> 'e) option" where
  "handle_nack env d e =
     (if state d = DC_TRANSMITTING
      then signal_waiter env (d\<lparr>last_response := DC_RESP_REJECT\<rparr>) e
      else Some (True, d, e))"

definition conn_ack_control :: yahdlc_control_t where
  "conn_ack_control = \<lparr>frame = YAHDLC_FRAME_CONN_ACK, send_seq_no = 0, recv_seq_no = 0\<rparr>"

definition handle_conn ::
  "'e dcl2_env \<Rightarrow> DeadcomL2 \<Rightarrow> 'e \<Rightarrow> (bool \<times> DeadcomL2 \<times> 'e) option" where
  "handle_conn env d e = do {
     (r, resp_f) \<leftarrow> build_frame conn_ack_control None 0;
     if r = Inl EINVAL then Some (False, d, e)
     else
       let (x, e) = transmitBytes env resp_f (transmission_context_p d) e in
       if \<not> x then Some (False, d, e)
       else
         let original_state = state d;
             d = (resetLink d)\<lparr>state := DC_CONNECTED\<rparr>
         in if original_state = DC_TRANSMITTING
            then signal_waiter env (d\<lparr>last_response := DC_RESP_NOLINK\<rparr>) e
            else if original_state = DC_CONNECTING
            then signal_waiter env (d\<lparr>last_response := DC_RESP_OK, state := DC_CONNECTING\<rparr>) e
            else Some (True, d, e)
   }"

definition handle_conn_ack ::
  "'e dcl2_env \<Rightarrow> DeadcomL2 \<Rightarrow> 'e \<Rightarrow> (bool \<times> DeadcomL2 \<times> 'e) option" where
  "handle_conn_ack env d e =
     (if state d = DC_CONNECTING
      then signal_waiter env (d\<lparr>last_response := DC_RESP_OK\<rparr>) e
      else Some (True, d, e))"

definition handle_frame ::
  "'e dcl2_env \<Rightarrow> yahdlc_control_t \<Rightarrow> nat \<Rightarrow> DeadcomL2 \<Rightarrow> 'e \<Rightarrow> (bool \<times> DeadcomL2 \<times> 'e) option" where
  "handle_frame env c dest_len d e =
     (case frame c of
        YAHDLC_FRAME_DATA \<Rightarrow> handle_data env c dest_len d e
      | YAHDLC_FRAME_ACK \<Rightarrow> handle_ack env c d e
      | YAHDLC_FRAME_NACK \<Rightarrow> handle_nack env d e
      | YAHDLC_FRAME_CONN \<Rightarrow> handle_conn env d e
      | YAHDLC_FRAME_CONN_ACK \<Rightarrow> handle_conn_ack env d e)"

section \<open>The loop over a chunk\<close>

text \<open>
  One iteration of \<open>while (processed < len)\<close> on the octets \<open>data + processed\<close>: the
  number of octets to add to \<open>processed\<close>, or a way out of the loop (\<open>Inl True\<close> is the
  \<open>break\<close> of the \<open>-ENOMSG\<close> branch, \<open>Inl False\<close> a failed handler).  The control
  structure is passed uninitialised; the parser writes it before the handler reads it.
\<close>

definition process_once ::
  "'e dcl2_env \<Rightarrow> DeadcomL2 \<Rightarrow> 'e \<Rightarrow> byte list \<Rightarrow> ((bool + nat) \<times> DeadcomL2 \<times> 'e) option" where
  "process_once env d e data = do {
     r \<leftarrow> get_data (yahdlc_state d) control_zero data (scratchpadBuffer d);
     let d = d\<lparr>yahdlc_state := r_state r, scratchpadBuffer := r_dest r\<rparr>;
     (case ret r of
        Inl EINVAL \<Rightarrow> Some (Inl False, d, e)
      | Inl EIO \<Rightarrow> Some (Inr (r_dest_len r), d, e)
      | Inl ENOMSG \<Rightarrow> Some (Inl True, d, e)
      | Inr n \<Rightarrow> do {
          (ok, d, e) \<leftarrow> handle_frame env (r_control r) (r_dest_len r) d e;
          Some (if ok then Inr n else Inl False, d, e)
        })
   }"

lemmas handler_defs = handle_data_def handle_ack_def handle_nack_def handle_conn_def
  handle_conn_ack_def signal_waiter_def resetLink_def

lemma handle_frame_frame:
  assumes "handle_frame env c n d e = Some (ok, d', e')"
  shows "yahdlc_state d' = yahdlc_state d \<and> scratchpadBuffer d' = scratchpadBuffer d"
  using assms
  by (cases "frame c")
    (auto simp: handle_frame_def handler_defs Let_def bind_eq_Some_conv case_prod_beta
      split: if_splits)

lemma process_once_progress:
  assumes "process_once env d e data = Some (Inr n, d', e')" and "data \<noteq> []"
  shows "n \<le> length data \<and> start_index (yahdlc_state d') < 0 \<and>
    (start_index (yahdlc_state d) < 0 \<longrightarrow> 0 < n)"
proof -
  from assms(1) obtain r where
    r: "get_data (yahdlc_state d) control_zero data (scratchpadBuffer d) = Some r"
    by (auto simp: process_once_def bind_eq_Some_conv)
  have "consumed r = Some n \<and> yahdlc_state d' = r_state r"
  proof (cases "ret r")
    case (Inl x)
    then show ?thesis
      using assms(1) by (cases x) (auto simp: process_once_def r consumed_def)
  next
    case (Inr m)
    then obtain ok where
      "handle_frame env (r_control r) (r_dest_len r)
         (d\<lparr>yahdlc_state := r_state r, scratchpadBuffer := r_dest r\<rparr>) e = Some (ok, d', e')"
      and "(if ok then Inr m else Inl False) = (Inr n :: bool + nat)"
      using assms(1) by (auto simp: process_once_def r bind_eq_Some_conv)
    then show ?thesis
      using Inr by (auto simp: consumed_def dest: handle_frame_frame split: if_splits)
  qed
  then have n: "consumed r = Some n" and st: "yahdlc_state d' = r_state r" by simp_all
  show ?thesis
    using get_data_progress [OF r n] st assms(2) by simp
qed

text \<open>
  The loop.  A call that consumes nothing leaves the parser hunting for a start flag,
  and the next call then consumes something: twice the octets left, plus one while a
  start flag has been seen, decreases.
\<close>

function process_loop ::
  "'e dcl2_env \<Rightarrow> DeadcomL2 \<Rightarrow> 'e \<Rightarrow> byte list \<Rightarrow> (bool \<times> DeadcomL2 \<times> 'e) option" where
  "process_loop env d e data =
     (if data = [] then Some (True, d, e)
      else (case process_once env d e data of
              None \<Rightarrow> None
            | Some (Inl ok, d', e') \<Rightarrow> Some (ok, d', e')
            | Some (Inr n, d', e') \<Rightarrow> process_loop env d' e' (drop n data)))"
  by pat_completeness auto
termination
  by (relation "measure (\<lambda>(env, d, e, data).
        2 * length data + (if start_index (yahdlc_state d) < 0 then 0 else 1))")
    (auto dest!: process_once_progress)

declare process_loop.simps [simp del]

definition dcProcessData ::
  "'e dcl2_env \<Rightarrow> DeadcomL2 option \<Rightarrow> byte list option \<Rightarrow> nat \<Rightarrow> 'e \<Rightarrow> 'e dc_ret" where
  "dcProcessData env deadcom data len e =
     (if deadcom = None \<or> data = None \<or> len = 0 then Some (DC_FAILURE, deadcom, e)
      else
        let d = the deadcom;
            (l, e) = mutexLock env (mutex_p d) e in
        if \<not> l then Some (DC_FAILURE, Some d, e)
        else do {
          bytes \<leftarrow> buf_read len (the data);
          (ok, d, e) \<leftarrow> process_loop env d e bytes;
          leave env (if ok then DC_OK else DC_FAILURE) d e
        })"

section \<open>The octet-by-octet receiver\<close>

text \<open>
  The parser after a frame ended at a flag that has not been consumed, once that flag
  has been read as the start flag of the next frame; and after an over-long frame was
  given up at an octet that is then skipped.
\<close>

definition restarted :: "nat \<Rightarrow> yahdlc_state_t" where
  "restarted m = advance ((reset_state m)\<lparr>start_index := 0\<rparr>)"

definition discarding :: "nat \<Rightarrow> yahdlc_state_t" where
  "discarding m = advance (reset_state m)"

text \<open>The verdict at an end flag: the control information and \<open>dest_len\<close> of a good frame.\<close>

definition frame_verdict :: "yahdlc_state_t \<Rightarrow> (yahdlc_control_t \<times> nat) option" where
  "frame_verdict st =
     (if end_index st < start_index st + 4 \<or> fcs st \<noteq> FCS16_GOOD_VALUE then None
      else Some (yahdlc_get_control_type (frame_control st), size_sub (dest_index st) 2))"

fun rx_bytes ::
  "'e dcl2_env \<Rightarrow> DeadcomL2 \<Rightarrow> 'e \<Rightarrow> byte list \<Rightarrow> (bool \<times> DeadcomL2 \<times> 'e) option" where
  "rx_bytes env d e [] = Some (True, d, e)"
| "rx_bytes env d e (b # bs) =
     (case get_data_byte (yahdlc_state d) (scratchpadBuffer d) b False of
        None \<Rightarrow> None
      | Some (Continue st dest) \<Rightarrow>
          rx_bytes env (d\<lparr>yahdlc_state := st, scratchpadBuffer := dest\<rparr>) e bs
      | Some (TooLong st dest) \<Rightarrow>
          rx_bytes env (d\<lparr>yahdlc_state := discarding (max_frame_len st),
                         scratchpadBuffer := dest\<rparr>) e bs
      | Some (EndFlag st dest) \<Rightarrow>
          (let d = d\<lparr>yahdlc_state := reset_state (max_frame_len st), scratchpadBuffer := dest\<rparr> in
           case frame_verdict st of
             None \<Rightarrow> rx_bytes env (d\<lparr>yahdlc_state := restarted (max_frame_len st)\<rparr>) e bs
           | Some (c, n) \<Rightarrow>
               (case handle_frame env c n d e of
                  None \<Rightarrow> None
                | Some (False, d, e) \<Rightarrow> Some (False, d, e)
                | Some (True, d, e) \<Rightarrow>
                    rx_bytes env (d\<lparr>yahdlc_state := restarted (max_frame_len st)\<rparr>) e bs)))"

lemma rx_bytes_append:
  "rx_bytes env d e (xs @ ys) =
     (case rx_bytes env d e xs of
        None \<Rightarrow> None
      | Some (False, d, e) \<Rightarrow> Some (False, d, e)
      | Some (True, d, e) \<Rightarrow> rx_bytes env d e ys)"
  by (induction env d e xs rule: rx_bytes.induct)
    (simp_all add: Let_def split: option.split loop_step.split prod.split bool.split)

section \<open>The loop is the octet-by-octet receiver\<close>

text \<open>
  Between calls no end flag is pending and the running position is not negative.
\<close>

definition parser_ready :: "yahdlc_state_t \<Rightarrow> bool" where
  "parser_ready st \<longleftrightarrow> end_index st < 0 \<and> 0 \<le> src_index st"

abbreviation link_ready :: "DeadcomL2 \<Rightarrow> bool" where
  "link_ready d \<equiv> parser_ready (yahdlc_state d)"

lemma parser_ready_states [simp]:
  "parser_ready (reset_state m)" "parser_ready (restarted m)" "parser_ready (discarding m)"
  by (simp_all add: parser_ready_def reset_state_def restarted_def discarding_def advance_def)

lemma get_data_byte_ready:
  "get_data_byte st dest b nf = Some (Continue st' dest') \<Longrightarrow> parser_ready st \<Longrightarrow> parser_ready st'"
  by (auto simp: get_data_byte_def parser_ready_def advance_def Let_def bind_eq_Some_conv
      split: if_splits)

lemma get_data_byte_EndFlag:
  assumes "get_data_byte st dest b nf = Some (EndFlag st' dest')" and "parser_ready st"
  shows "b = YAHDLC_FLAG_SEQUENCE \<and> \<not> nf \<and> 0 \<le> start_index st' \<and> 0 \<le> end_index st'"
  using assms
  by (auto simp: get_data_byte_def parser_ready_def Let_def bind_eq_Some_conv split: if_splits)

lemma get_data_byte_TooLong:
  "get_data_byte st dest b nf = Some (TooLong st' dest') \<Longrightarrow> b \<noteq> YAHDLC_FLAG_SEQUENCE"
  by (auto simp: get_data_byte_def Let_def bind_eq_Some_conv split: if_splits)

lemma get_data_byte_reset:
  "get_data_byte (reset_state m) dest YAHDLC_FLAG_SEQUENCE False = Some (Continue (restarted m) dest)"
  "b \<noteq> YAHDLC_FLAG_SEQUENCE \<Longrightarrow>
     get_data_byte (reset_state m) dest b nf = Some (Continue (discarding m) dest)"
  by (simp_all add: get_data_byte_def restarted_def discarding_def reset_state_def advance_def)

text \<open>The look-ahead matters at a flag only, and makes the parser skip it.\<close>

lemma get_data_byte_next_flag:
  "get_data_byte st dest b True =
     (if b = YAHDLC_FLAG_SEQUENCE then Some (Continue st dest) else get_data_byte st dest b False)"
  by (simp add: get_data_byte_def Let_def)

text \<open>After a flag the parser has just seen a start flag, and another flag changes nothing.\<close>

lemma get_data_byte_second_flag:
  "0 \<le> start_index st \<Longrightarrow> start_index st + 1 = src_index st \<Longrightarrow>
     get_data_byte st dest YAHDLC_FLAG_SEQUENCE nf = Some (Continue st dest)"
  by (simp add: get_data_byte_def)

lemma get_data_byte_first_flag:
  assumes "get_data_byte st dest YAHDLC_FLAG_SEQUENCE False = Some (Continue st' dest')"
    and "parser_ready st"
  shows "0 \<le> start_index st' \<and> start_index st' + 1 = src_index st'"
  using assms by (auto simp: get_data_byte_def parser_ready_def advance_def split: if_splits)

lemma restarted_index: "0 \<le> start_index (restarted m) \<and> start_index (restarted m) + 1 = src_index (restarted m)"
  by (simp add: restarted_def advance_def reset_state_def)

lemma parser_fields_id [simp]:
  "d\<lparr>yahdlc_state := yahdlc_state d, scratchpadBuffer := scratchpadBuffer d\<rparr> = d"
  by (cases d) simp

lemma parser_fields_commute [simp]:
  "d\<lparr>scratchpadBuffer := b, yahdlc_state := st\<rparr> = d\<lparr>yahdlc_state := st, scratchpadBuffer := b\<rparr>"
  "d\<lparr>yahdlc_state := st, scratchpadBuffer := scratchpadBuffer d\<rparr> = d\<lparr>yahdlc_state := st\<rparr>"
  by (cases d, simp)+

lemma rx_bytes_double_flag:
  assumes "link_ready d"
  shows "rx_bytes env d e (YAHDLC_FLAG_SEQUENCE # YAHDLC_FLAG_SEQUENCE # bs) =
    rx_bytes env d e (YAHDLC_FLAG_SEQUENCE # bs)"
proof -
  let ?flag = "YAHDLC_FLAG_SEQUENCE"
  let ?st = "yahdlc_state d" and ?sc = "scratchpadBuffer d"
  show ?thesis
  proof (cases "get_data_byte ?st ?sc ?flag False")
    case (Some s)
    show ?thesis
    proof (cases s)
      case (Continue st' sc')
      then have "0 \<le> start_index st' \<and> start_index st' + 1 = src_index st'"
        using Some get_data_byte_first_flag assms by blast
      then show ?thesis
        using Some Continue by (simp add: get_data_byte_second_flag)
    next
      case (TooLong st' sc')
      then show ?thesis using Some get_data_byte_TooLong by blast
    next
      case (EndFlag st' sc')
      then show ?thesis
        using Some restarted_index
        by (simp add: get_data_byte_second_flag Let_def
            split: option.split prod.split bool.split)
    qed
  qed simp
qed

lemma get_data_finish_verdict:
  assumes "0 \<le> start_index st" "0 \<le> end_index st"
  shows "get_data_finish i st c dest =
    (case frame_verdict st of
       None \<Rightarrow> \<lparr>ret = Inl EIO, r_state = reset_state (max_frame_len st),
                 r_control = c, r_dest = dest, r_dest_len = i\<rparr>
     | Some (c', n) \<Rightarrow> \<lparr>ret = Inr i, r_state = reset_state (max_frame_len st),
                 r_control = c', r_dest = dest, r_dest_len = n\<rparr>)"
  using assms by (simp add: get_data_finish_def frame_verdict_def)

lemma process_once_Cons:
  assumes "link_ready d"
  shows "process_once env d e (b # bs) =
    (case get_data_byte (yahdlc_state d) (scratchpadBuffer d) b (next_is_flag bs) of
       None \<Rightarrow> None
     | Some (Continue st dest) \<Rightarrow>
         map_option (\<lambda>(x, d, e). (map_sum id Suc x, d, e))
           (process_once env (d\<lparr>yahdlc_state := st, scratchpadBuffer := dest\<rparr>) e bs)
     | Some (TooLong st dest) \<Rightarrow>
         Some (Inr 0, d\<lparr>yahdlc_state := reset_state (max_frame_len st), scratchpadBuffer := dest\<rparr>, e)
     | Some (EndFlag st dest) \<Rightarrow>
         (let d = d\<lparr>yahdlc_state := reset_state (max_frame_len st), scratchpadBuffer := dest\<rparr> in
          case frame_verdict st of
            None \<Rightarrow> Some (Inr 0, d, e)
          | Some (c, n) \<Rightarrow>
              map_option (\<lambda>(ok, d, e). (if ok then Inr 0 else Inl False, d, e))
                (handle_frame env c n d e)))"
proof (cases "get_data_byte (yahdlc_state d) (scratchpadBuffer d) b (next_is_flag bs)")
  case None
  then show ?thesis by (simp add: process_once_def get_data_Cons)
next
  case (Some s)
  show ?thesis
  proof (cases s)
    case (Continue st dest)
    show ?thesis
    proof (cases "get_data st control_zero bs dest")
      case None
      then show ?thesis using Some Continue by (simp add: process_once_def get_data_Cons)
    next
      case r: (Some r)
      show ?thesis
      proof (cases "ret r")
        case (Inl x)
        then show ?thesis
          using Some Continue r
          by (cases x) (simp_all add: process_once_def get_data_Cons shift_result_def)
      next
        case (Inr n)
        then show ?thesis
          using Some Continue r
          by (cases "handle_frame env (r_control r) (r_dest_len r)
                (d\<lparr>yahdlc_state := r_state r, scratchpadBuffer := r_dest r\<rparr>) e")
            (auto simp: process_once_def get_data_Cons shift_result_def)
      qed
    qed
  next
    case (TooLong st dest)
    then show ?thesis using Some by (simp add: process_once_def get_data_Cons)
  next
    case (EndFlag st dest)
    then have "0 \<le> start_index st \<and> 0 \<le> end_index st"
      using Some assms get_data_byte_EndFlag by blast
    then show ?thesis
      using Some EndFlag
      by (auto simp: process_once_def get_data_Cons get_data_finish_verdict Let_def
          map_option_case case_prod_beta split: option.split)
  qed
qed

lemma process_loop_Cons:
  assumes "link_ready d"
  shows "process_loop env d e (b # bs) =
    (case get_data_byte (yahdlc_state d) (scratchpadBuffer d) b (next_is_flag bs) of
       None \<Rightarrow> None
     | Some (Continue st dest) \<Rightarrow>
         process_loop env (d\<lparr>yahdlc_state := st, scratchpadBuffer := dest\<rparr>) e bs
     | Some (TooLong st dest) \<Rightarrow>
         process_loop env (d\<lparr>yahdlc_state := reset_state (max_frame_len st),
                            scratchpadBuffer := dest\<rparr>) e (b # bs)
     | Some (EndFlag st dest) \<Rightarrow>
         (let d = d\<lparr>yahdlc_state := reset_state (max_frame_len st), scratchpadBuffer := dest\<rparr> in
          case frame_verdict st of
            None \<Rightarrow> process_loop env d e (b # bs)
          | Some (c, n) \<Rightarrow>
              (case handle_frame env c n d e of
                 None \<Rightarrow> None
               | Some (False, d, e) \<Rightarrow> Some (False, d, e)
               | Some (True, d, e) \<Rightarrow> process_loop env d e (b # bs))))"
proof (cases "get_data_byte (yahdlc_state d) (scratchpadBuffer d) b (next_is_flag bs)")
  case None
  then show ?thesis
    by (simp add: process_loop.simps [of env d e "b # bs"] process_once_Cons [OF assms])
next
  case (Some s)
  show ?thesis
  proof (cases s)
    case (Continue st dest)
    let ?d = "d\<lparr>yahdlc_state := st, scratchpadBuffer := dest\<rparr>"
    have "end_index st < 0"
      using get_data_byte_ready Some Continue assms by (auto simp: parser_ready_def)
    then have nil: "process_once env ?d e [] = Some (Inl True, ?d, e)"
      by (simp add: process_once_def get_data_Nil)
    show ?thesis
    proof (cases "bs = []")
      case True
      then show ?thesis
        using Some Continue nil
        by (simp add: process_loop.simps [of env d e "[b]"] process_once_Cons [OF assms]
            process_loop.simps [of env _ e "[]"])
    next
      case False
      then show ?thesis
        using Some Continue
        by (simp add: process_loop.simps [of env d e "b # bs"] process_once_Cons [OF assms]
            process_loop.simps [of env ?d e bs] split: option.split sum.split)
    qed
  next
    case (TooLong st dest)
    then show ?thesis
      using Some by (simp add: process_loop.simps [of env d e "b # bs"] process_once_Cons [OF assms])
  next
    case (EndFlag st dest)
    then show ?thesis
      using Some
      by (simp add: process_loop.simps [of env d e "b # bs"] process_once_Cons [OF assms] Let_def
          split: option.split prod.split)
  qed
qed

theorem process_loop_is_rx_bytes:
  assumes "link_ready d"
  shows "process_loop env d e data = rx_bytes env d e data"
  using assms
proof (induction data arbitrary: d e)
  case Nil
  then show ?case by (simp add: process_loop.simps)
next
  case (Cons b bs)
  let ?st = "yahdlc_state d" and ?sc = "scratchpadBuffer d"
  note ready = Cons.prems
  show ?case
  proof (cases "b = YAHDLC_FLAG_SEQUENCE \<and> next_is_flag bs")
    case True
    then obtain bs' where bs: "b = YAHDLC_FLAG_SEQUENCE" "bs = YAHDLC_FLAG_SEQUENCE # bs'"
      by (auto simp: next_is_flag_def split: list.splits)
    then have "process_loop env d e (b # bs) = process_loop env d e bs"
      using True by (simp add: process_loop_Cons [OF ready] get_data_byte_next_flag)
    also have "\<dots> = rx_bytes env d e bs" by (rule Cons.IH [OF ready])
    finally show ?thesis by (simp only: bs rx_bytes_double_flag [OF ready])
  next
    case False
    then have nf: "get_data_byte ?st ?sc b (next_is_flag bs) = get_data_byte ?st ?sc b False"
      by (cases "next_is_flag bs") (auto simp: get_data_byte_next_flag)
    show ?thesis
    proof (cases "get_data_byte ?st ?sc b False")
      case None
      then show ?thesis by (simp add: process_loop_Cons [OF ready] nf)
    next
      case (Some s)
      show ?thesis
      proof (cases s)
        case (Continue st dest)
        then show ?thesis
          using Some ready get_data_byte_ready
          by (simp add: process_loop_Cons [OF ready] nf Cons.IH)
      next
        case (TooLong st dest)
        then have "b \<noteq> YAHDLC_FLAG_SEQUENCE"
          using Some get_data_byte_TooLong by blast
        then show ?thesis
          using Some TooLong
          by (simp add: process_loop_Cons [OF ready] nf process_loop_Cons get_data_byte_reset Cons.IH)
      next
        case (EndFlag st dest)
        then have b: "b = YAHDLC_FLAG_SEQUENCE" "\<not> next_is_flag bs"
          using Some ready get_data_byte_EndFlag False by blast+
        have again: "process_loop env d' e' (b # bs) =
            rx_bytes env (d'\<lparr>yahdlc_state := restarted m\<rparr>) e' bs"
          if "yahdlc_state d' = reset_state m" for d' e' m
        proof -
          have "d'\<lparr>yahdlc_state := restarted m, scratchpadBuffer := scratchpadBuffer d'\<rparr>
              = d'\<lparr>yahdlc_state := restarted m\<rparr>"
            by (cases d') simp
          then show ?thesis
            using b by (simp add: process_loop_Cons that get_data_byte_reset Cons.IH)
        qed
        show ?thesis
          using Some EndFlag
          by (auto simp: process_loop_Cons [OF ready] nf again Let_def handle_frame_frame
              split: option.split prod.split bool.split)
      qed
    qed
  qed
qed

end
