(* ===== verification/Yahdlc_Stream.thy ===== *)
theory Yahdlc_Stream
  imports Yahdlc_Decode
begin

text \<open>
  What \<open>yahdlc_get_data\<close> does with a delimited run of octets: the parser state inside
  a frame as a function of the octets since the start flag, the outcome at the end
  flag, the round trip with \<open>yahdlc_frame_data\<close>, the frames that are accepted and
  those that are refused, and the corruptions the check value exposes.
\<close>

section \<open>The state inside a frame\<close>

text \<open>An escape octet is pending after \<open>xs\<close> when it is the last one.\<close>

definition pending :: "bool \<Rightarrow> byte list \<Rightarrow> bool" where
  "pending esc xs = (if xs = [] then esc else last xs = YAHDLC_CONTROL_ESCAPE)"

lemma unstuff_snoc:
  "unstuff esc (xs @ [b]) = unstuff esc xs @
     (if b = YAHDLC_CONTROL_ESCAPE then []
      else [if pending esc xs then b XOR 0x20 else b])"
  by (induction xs arbitrary: esc) (auto simp: pending_def)

lemma unstuff_append:
  "unstuff esc (xs @ ys) = unstuff esc xs @ unstuff (pending esc xs) ys"
  by (induction xs arbitrary: esc) (auto simp: pending_def)

lemma unstuff_length: "length (unstuff esc xs) \<le> length xs"
  by (induction xs arbitrary: esc) (auto intro: le_SucI)

text \<open>
  The state after the start flag at position \<open>k\<close> and the octets \<open>raw\<close>, none of them a
  flag; \<open>ys\<close> below are the octets they decode to.
\<close>

definition parsed :: "int \<Rightarrow> nat \<Rightarrow> byte list \<Rightarrow> yahdlc_state_t" where
  "parsed k m raw =
     (let ys = unstuff False raw in
      \<lparr>control_escape = pending False raw, fcs = foldl fcs16 FCS16_INIT_VALUE ys,
       start_index = k, end_index = -1, src_index = k + 1 + int (length raw),
       frame_byte_index = length ys, dest_index = length ys - 2,
       frame_control = (if length ys < 2 then 0 else ys ! 1), max_frame_len = m\<rparr>)"

text \<open>The destination buffer: everything after the address and control octets.\<close>

definition filled :: "byte list \<Rightarrow> byte list \<Rightarrow> byte list" where
  "filled dest ys = drop 2 ys @ drop (length ys - 2) dest"

lemma nat_four: "Suc (Suc (Suc (Suc 0))) = 4"
  by simp

lemma filled_Nil [simp]: "filled dest [] = dest"
  by (simp add: filled_def)

lemma length_filled: "length ys - 2 \<le> length dest \<Longrightarrow> length (filled dest ys) = length dest"
  by (simp add: filled_def)

lemma parsed_max [simp]: "max_frame_len (parsed k m raw) = m"
  by (simp add: parsed_def Let_def)

lemma restarted_parsed: "advance ((reset_state m)\<lparr>start_index := 0\<rparr>) = parsed 0 m []"
  by (simp add: advance_def reset_state_def parsed_def pending_def)

lemma filled_write:
  assumes "2 \<le> length ys" "length ys - 2 < length dest"
  shows "buf_write (length ys - 2) v (filled dest ys) = Some (filled dest (ys @ [v]))"
proof -
  have "length (drop 2 ys) = length ys - 2" by simp
  moreover have "Suc (length ys - 2) = length ys - 1" using assms(1) by simp
  moreover obtain x where "drop (length ys - 2) dest = x # drop (Suc (length ys - 2)) dest"
    using Cons_nth_drop_Suc [OF assms(2)] by metis
  ultimately show ?thesis
    using assms buf_write_append [of "drop 2 ys" v "drop (length ys - 2) dest"]
    by (simp add: filled_def Suc_diff_le)
qed

text \<open>
  One octet inside a frame, other than a flag: it is given up at the maximum length,
  stored outside the buffer, or taken in.
\<close>

lemma parsed_step [step_simps]:
  assumes "0 \<le> k" and "b \<noteq> YAHDLC_FLAG_SEQUENCE"
    and "length (unstuff False (raw @ [b])) - 2 < m"
    and "length (unstuff False (raw @ [b])) - 2 \<le> length dest"
  shows "get_data_byte (parsed k m raw) (filled dest (unstuff False raw)) b nf =
    Some (Continue (parsed k m (raw @ [b])) (filled dest (unstuff False (raw @ [b]))))"
proof -
  let ?ys = "unstuff False raw"
  consider (esc) "b = YAHDLC_CONTROL_ESCAPE"
    | (head) "b \<noteq> YAHDLC_CONTROL_ESCAPE" "length ?ys < 2"
    | (data) "b \<noteq> YAHDLC_CONTROL_ESCAPE" "2 \<le> length ?ys"
    by linarith
  then show ?thesis
  proof cases
    case esc
    then show ?thesis
      using assms(1, 2)
      by (simp add: get_data_byte_def parsed_def unstuff_snoc pending_def advance_def Let_def)
  next
    case head
    then have "length ?ys = 0 \<or> length ?ys = 1" by linarith
    then show ?thesis
      using head assms(1, 2)
      by (auto simp: get_data_byte_def parsed_def unstuff_snoc pending_def advance_def Let_def
          filled_def nth_append)
  next
    case data
    then show ?thesis
      using assms
      by (auto simp: get_data_byte_def parsed_def unstuff_snoc pending_def advance_def Let_def
          filled_write Suc_diff_le nth_append)
  qed
qed

section \<open>Feeding octets that do not end the loop\<close>

fun feed :: "yahdlc_state_t \<Rightarrow> byte list \<Rightarrow> byte list \<Rightarrow> (yahdlc_state_t \<times> byte list) option" where
  "feed st dest [] = Some (st, dest)"
| "feed st dest (b # bs) =
     (case get_data_byte st dest b False of
        Some (Continue st dest) \<Rightarrow> feed st dest bs
      | _ \<Rightarrow> None)"

lemma get_data_byte_no_flag:
  "b \<noteq> YAHDLC_FLAG_SEQUENCE \<Longrightarrow> get_data_byte st dest b nf = get_data_byte st dest b False"
  by (simp add: get_data_byte_def)

lemma feed_loop:
  assumes "feed st dest bs = Some (st', dest')" and "YAHDLC_FLAG_SEQUENCE \<notin> set bs"
  shows "get_data_loop st dest (bs @ rest) i = get_data_loop st' dest' rest (i + length bs)"
  using assms
proof (induction bs arbitrary: st dest i)
  case (Cons b bs)
  then obtain st1 dest1 where b: "get_data_byte st dest b False = Some (Continue st1 dest1)"
    and bs: "feed st1 dest1 bs = Some (st', dest')"
    by (auto split: option.splits loop_step.splits)
  have "b \<noteq> YAHDLC_FLAG_SEQUENCE" using Cons.prems(2) by auto
  then have "get_data_byte st dest b (next_is_flag (bs @ rest)) = Some (Continue st1 dest1)"
    using get_data_byte_no_flag b by metis
  then show ?case
    using Cons.IH [OF bs, of "Suc i"] Cons.prems(2) by simp
qed simp

lemma feed_parsed:
  assumes "0 \<le> k" and "YAHDLC_FLAG_SEQUENCE \<notin> set mid"
    and "length (unstuff False (raw @ mid)) - 2 < m"
    and "length (unstuff False (raw @ mid)) - 2 \<le> length dest"
  shows "feed (parsed k m raw) (filled dest (unstuff False raw)) mid =
    Some (parsed k m (raw @ mid), filled dest (unstuff False (raw @ mid)))"
  using assms(2-)
proof (induction mid arbitrary: raw)
  case (Cons b mid)
  have "length (unstuff False (raw @ [b])) \<le> length (unstuff False (raw @ b # mid))"
    using unstuff_append [of False "raw @ [b]" mid] by simp
  then have "get_data_byte (parsed k m raw) (filled dest (unstuff False raw)) b False =
      Some (Continue (parsed k m (raw @ [b])) (filled dest (unstuff False (raw @ [b]))))"
    using Cons.prems assms(1) by (intro parsed_step) auto
  then show ?case using Cons.IH [of "raw @ [b]"] Cons.prems by simp
qed simp

lemma parsed_flag:
  assumes "0 \<le> k" "raw \<noteq> []"
  shows "get_data_byte (parsed k m raw) dest YAHDLC_FLAG_SEQUENCE False =
    Some (EndFlag ((parsed k m raw)\<lparr>end_index := k + 1 + int (length raw)\<rparr>) dest)"
  using assms by (simp add: get_data_byte_def parsed_def Let_def)

section \<open>The outcome at the end flag\<close>

text \<open>
  The code's test of a complete run: at least three octets between the flags and the
  right check value.
\<close>

definition run_accepted :: "byte list \<Rightarrow> bool" where
  "run_accepted mid \<longleftrightarrow>
     3 \<le> length mid \<and> foldl fcs16 FCS16_INIT_VALUE (unstuff False mid) = FCS16_GOOD_VALUE"

definition run_control :: "byte list \<Rightarrow> yahdlc_control_t" where
  "run_control mid = (let ys = unstuff False mid in
     yahdlc_get_control_type (if length ys < 2 then 0 else ys ! 1))"

definition run_length :: "byte list \<Rightarrow> nat" where
  "run_length mid = size_sub (length (unstuff False mid) - 2) 2"

text \<open>Octets before the first flag are skipped.\<close>

definition hunting :: "nat \<Rightarrow> nat \<Rightarrow> yahdlc_state_t" where
  "hunting k m = (reset_state m)\<lparr>src_index := int k\<rparr>"

lemma hunting_0: "hunting 0 m = reset_state m"
  by (simp add: hunting_def reset_state_def)

lemma feed_noise:
  "YAHDLC_FLAG_SEQUENCE \<notin> set g \<Longrightarrow> feed (hunting k m) dest g = Some (hunting (k + length g) m, dest)"
proof (induction g arbitrary: k)
  case (Cons b g)
  then have "get_data_byte (hunting k m) dest b False = Some (Continue (hunting (Suc k) m) dest)"
    by (auto simp: get_data_byte_def hunting_def reset_state_def advance_def)
  then show ?case using Cons.IH [of "Suc k"] Cons.prems by simp
qed simp

lemma hunting_flag:
  "get_data_byte (hunting k m) dest YAHDLC_FLAG_SEQUENCE False = Some (Continue (parsed (int k) m []) dest)"
  by (simp add: get_data_byte_def hunting_def reset_state_def advance_def parsed_def pending_def)

text \<open>
  A call on noise, a start flag, the octets \<open>mid\<close> and an end flag.
\<close>

lemma get_data_run:
  assumes "YAHDLC_FLAG_SEQUENCE \<notin> set g"
    and "YAHDLC_FLAG_SEQUENCE \<notin> set mid" "mid \<noteq> []"
    and "length (unstuff False mid) - 2 < m" "length (unstuff False mid) - 2 \<le> length dest"
  shows "get_data (reset_state m) c (g @ YAHDLC_FLAG_SEQUENCE # mid @ [YAHDLC_FLAG_SEQUENCE]) dest =
    Some \<lparr>ret = (if run_accepted mid then Inr (length g + length mid + 1) else Inl EIO),
          r_state = reset_state m,
          r_control = (if run_accepted mid then run_control mid else c),
          r_dest = filled dest (unstuff False mid),
          r_dest_len = (if run_accepted mid then run_length mid else length g + length mid + 1)\<rparr>"
proof -
  let ?flag = YAHDLC_FLAG_SEQUENCE
  let ?k = "int (length g)"
  have "\<not> next_is_flag (mid @ [?flag])"
    using assms(2, 3) by (cases mid) (auto simp: next_is_flag_def)
  then have flag: "get_data_byte (hunting (length g) m) dest ?flag (next_is_flag (mid @ [?flag]))
      = Some (Continue (parsed ?k m []) dest)"
    by (simp add: hunting_flag)
  have "feed (hunting 0 m) dest g = Some (hunting (length g) m, dest)"
    using feed_noise [OF assms(1), of 0] by simp
  then have "get_data_loop (hunting 0 m) dest (g @ ?flag # mid @ [?flag]) 0
      = get_data_loop (hunting (length g) m) dest (?flag # mid @ [?flag]) (0 + length g)"
    by (rule feed_loop) (rule assms(1))
  also have "\<dots> = get_data_loop (parsed ?k m []) dest (mid @ [?flag]) (Suc (length g))"
    using flag by simp
  also have "feed (parsed ?k m []) dest mid = Some (parsed ?k m mid, filled dest (unstuff False mid))"
    using feed_parsed [of ?k mid "[]" m dest] assms by simp
  then have "get_data_loop (parsed ?k m []) dest (mid @ [?flag]) (Suc (length g))
      = get_data_loop (parsed ?k m mid) (filled dest (unstuff False mid)) [?flag]
          (Suc (length g) + length mid)"
    by (rule feed_loop) (rule assms(2))
  finally have "get_data_loop (reset_state m) dest (g @ ?flag # mid @ [?flag]) 0 =
      Some (length g + length mid + 1,
            EndFlag ((parsed ?k m mid)\<lparr>end_index := ?k + 1 + int (length mid)\<rparr>)
              (filled dest (unstuff False mid)))"
    using parsed_flag [of ?k mid m] assms(3) by (simp add: next_is_flag_def hunting_0)
  then show ?thesis
    by (simp add: get_data_def get_data_finish_def run_accepted_def run_control_def run_length_def
        parsed_def Let_def)
qed

section \<open>Which runs are accepted\<close>

lemma fcs_one_not_good: "fcs16 FCS16_INIT_VALUE v \<noteq> FCS16_GOOD_VALUE"
proof
  assume good: "fcs16 FCS16_INIT_VALUE v = FCS16_GOOD_VALUE"
  let ?b = "ucast FCS16_INIT_VALUE XOR v"
  have "drop_bit 8 (fcs_entry ?b) = drop_bit 8 (fcs_entry 0x87)"
    using arg_cong [OF good, of "drop_bit 8"]
    by (simp add: fcs16_entry drop_bit_xor FCS16_INIT_VALUE_def FCS16_GOOD_VALUE_def
        fcs_entry_def [of "0x87"] fcstab_def)
  then have "fcs_entry ?b = 0xF0B7"
    using fcs_entry_high_inj by (fastforce simp: fcs_entry_def [of "0x87"] fcstab_def)
  then show False
    using good by (simp add: fcs16_entry FCS16_INIT_VALUE_def FCS16_GOOD_VALUE_def)
qed

lemma check_good_iff:
  "foldl fcs16 FCS16_INIT_VALUE ys = FCS16_GOOD_VALUE
     \<longleftrightarrow> (\<exists>xs. ys = xs @ fcs_trailer (foldl fcs16 FCS16_INIT_VALUE xs))"
proof
  assume good: "foldl fcs16 FCS16_INIT_VALUE ys = FCS16_GOOD_VALUE"
  have "ys \<noteq> []" and "\<And>a. ys \<noteq> [a]"
    using good fcs_one_not_good by (auto simp: FCS16_INIT_VALUE_def FCS16_GOOD_VALUE_def)
  then obtain xs a b where "ys = xs @ [a, b]"
    by (metis append_Cons append_Nil append_assoc rev_exhaust)
  then show "\<exists>xs. ys = xs @ fcs_trailer (foldl fcs16 FCS16_INIT_VALUE xs)"
    using good fcs_check.accepts_iff_trailer by metis
next
  assume "\<exists>xs. ys = xs @ fcs_trailer (foldl fcs16 FCS16_INIT_VALUE xs)"
  then show "foldl fcs16 FCS16_INIT_VALUE ys = FCS16_GOOD_VALUE"
    using fcs_check.accepts_own_trailer by metis
qed

lemma check_good_length:
  "foldl fcs16 FCS16_INIT_VALUE ys = FCS16_GOOD_VALUE \<Longrightarrow> 2 \<le> length ys"
  by (auto simp: check_good_iff fcs_check.trailer_length)

text \<open>The frames the framer builds.\<close>

lemma run_frame:
  "run_accepted (stuff (frame_body c m))"
  "run_control (stuff (frame_body c m)) = control_carried c"
  "length (frame_body c m) \<le> SIZE_MAX \<Longrightarrow>
     run_length (stuff (frame_body c m)) = length (frame_body c m) - 4"
proof -
  have len: "4 \<le> length (frame_body c m)" by (simp add: length_frame_body)
  show "run_accepted (stuff (frame_body c m))"
    using stuffing.enc_length [of "frame_body c m"] len
    by (simp add: run_accepted_def unstuff_stuff frame_body_accepted)
  show "run_control (stuff (frame_body c m)) = control_carried c"
    using len by (simp add: run_control_def unstuff_stuff Let_def)
      (simp add: frame_body_def frame_content_def decode_encode_control)
  show "run_length (stuff (frame_body c m)) = length (frame_body c m) - 4"
    if "length (frame_body c m) \<le> SIZE_MAX"
    using len that by (simp add: run_length_def unstuff_stuff size_sub_le)
qed

definition payload_sent :: "yahdlc_control_t \<Rightarrow> byte list \<Rightarrow> byte list" where
  "payload_sent c m = (if frame c = YAHDLC_FRAME_DATA then m else [])"

lemma drop_frame_body:
  "drop 2 (frame_body c m) =
     payload_sent c m @ fcs_trailer (foldl fcs16 FCS16_INIT_VALUE (frame_content c m))"
  by (simp add: frame_body_def frame_content_def payload_sent_def)

lemma length_frame_body_payload: "length (frame_body c m) = length (payload_sent c m) + 4"
  by (simp add: length_frame_body payload_sent_def)

lemma get_data_frame:
  assumes "YAHDLC_FLAG_SEQUENCE \<notin> set g"
    and "length (payload_sent c m) + 2 < mx" "length (payload_sent c m) + 2 \<le> length dest"
    and "length (payload_sent c m) + 4 \<le> SIZE_MAX"
  shows "get_data (reset_state mx) c0 (g @ frame_bytes c m) dest =
    Some \<lparr>ret = Inr (length g + length (frame_bytes c m) - 1), r_state = reset_state mx,
          r_control = control_carried c, r_dest = filled dest (frame_body c m),
          r_dest_len = length (payload_sent c m)\<rparr>"
proof -
  have "stuff (frame_body c m) \<noteq> []"
    using stuffing.enc_length [of "frame_body c m"] by (auto simp: length_frame_body)
  then show ?thesis
    using get_data_run [OF assms(1) stuffing.flag_free, of "frame_body c m" mx dest c0] assms
    by (simp add: frame_bytes_def unstuff_stuff run_frame length_frame_body_payload)
qed

section \<open>Bounds kept by the parser\<close>

text \<open>
  The counters while a frame is read: \<open>dest_index\<close> follows \<open>frame_byte_index\<close> and stays
  below the maximum frame length, so neither counter can wrap.
\<close>

definition ended :: "loop_step \<Rightarrow> bool" where
  "ended s = (case s of EndFlag st _ \<Rightarrow> 0 \<le> start_index st \<and> 0 \<le> end_index st | _ \<Rightarrow> True)"

definition parser_inv :: "yahdlc_state_t \<Rightarrow> bool" where
  "parser_inv st \<longleftrightarrow>
     end_index st < 0 \<and> start_index st < src_index st + (if start_index st < 0 then 1 else 0) \<and>
     0 \<le> src_index st \<and> dest_index st = frame_byte_index st - 2 \<and>
     (dest_index st = 0 \<or> dest_index st < max_frame_len st)"

lemma max_frame_len_reset: "max_frame_len (reset_state m) = m"
  by (simp add: reset_state_def)

lemma parser_inv_reset: "parser_inv (reset_state m)"
  by (simp add: parser_inv_def reset_state_def)

definition step_result :: "loop_step \<Rightarrow> yahdlc_state_t \<times> byte list" where
  "step_result s = (case s of Continue st dest \<Rightarrow> (st, dest) | EndFlag st dest \<Rightarrow> (st, dest)
     | TooLong st dest \<Rightarrow> (st, dest))"

lemma get_data_byte_inv:
  assumes "parser_inv st" and "max_frame_len st \<le> length dest + 1"
  shows "\<exists>s st' dest'. get_data_byte st dest b nf = Some s \<and> step_result s = (st', dest') \<and>
    length dest' = length dest \<and> max_frame_len st' = max_frame_len st \<and>
    (is_Continue s \<longrightarrow> parser_inv st') \<and> ended s"
proof -
  let ?v = "if control_escape st then b XOR 0x20 else b"
  consider (hunt) "start_index st < 0"
    | (flag) "0 \<le> start_index st" "b = YAHDLC_FLAG_SEQUENCE"
    | (esc) "0 \<le> start_index st" "b \<noteq> YAHDLC_FLAG_SEQUENCE" "b = YAHDLC_CONTROL_ESCAPE"
    | (head) "0 \<le> start_index st" "b \<noteq> YAHDLC_FLAG_SEQUENCE" "b \<noteq> YAHDLC_CONTROL_ESCAPE"
        "frame_byte_index st < 2"
    | (data) "0 \<le> start_index st" "b \<noteq> YAHDLC_FLAG_SEQUENCE" "b \<noteq> YAHDLC_CONTROL_ESCAPE"
        "2 \<le> frame_byte_index st"
    by linarith
  then show ?thesis
  proof cases
    case hunt
    then show ?thesis
      using assms(1) by (auto simp: get_data_byte_def parser_inv_def advance_def step_result_def ended_def)
  next
    case flag
    then show ?thesis
      using assms(1) by (auto simp: get_data_byte_def parser_inv_def step_result_def ended_def)
  next
    case esc
    then show ?thesis
      using assms(1) by (auto simp: get_data_byte_def parser_inv_def advance_def step_result_def ended_def)
  next
    case head
    then have "frame_byte_index st = 0 \<or> frame_byte_index st = 1" by linarith
    then show ?thesis
      using head assms(1)
      by (elim disjE)
        (simp_all add: get_data_byte_def parser_inv_def advance_def step_result_def ended_def Let_def)
  next
    case data
    show ?thesis
    proof (cases "max_frame_len st \<le> dest_index st + 1")
      case True
      then show ?thesis
        using data by (simp add: get_data_byte_def step_result_def ended_def Let_def)
    next
      case False
      then show ?thesis
        using data assms
        by (simp add: get_data_byte_def parser_inv_def advance_def step_result_def ended_def Let_def
            buf_write_def Suc_diff_le)
    qed
  qed
qed

lemma get_data_loop_inv:
  assumes "parser_inv st" and "max_frame_len st \<le> length dest + 1"
  shows "\<exists>j s st' dest'. get_data_loop st dest bs i = Some (j, s) \<and> step_result s = (st', dest') \<and>
    length dest' = length dest \<and> max_frame_len st' = max_frame_len st \<and>
    (is_Continue s \<longrightarrow> parser_inv st') \<and> ended s"
  using assms
proof (induction bs arbitrary: st dest i)
  case Nil
  then show ?case by (simp add: step_result_def ended_def)
next
  case (Cons b bs)
  obtain s st1 dest1 where s: "get_data_byte st dest b (next_is_flag bs) = Some s"
    "step_result s = (st1, dest1)" "length dest1 = length dest"
    "max_frame_len st1 = max_frame_len st" "is_Continue s \<longrightarrow> parser_inv st1" "ended s"
    using get_data_byte_inv [OF Cons.prems, of b "next_is_flag bs"] by blast
  show ?case
  proof (cases s)
    case (Continue st2 dest2)
    then show ?thesis
      using s Cons.IH [of st1 dest1 "Suc i"] Cons.prems by (auto simp: step_result_def)
  qed (use s in simp_all)
qed

section \<open>Properties\<close>

text \<open>
  C8. Round trip of a frame: whatever \<open>yahdlc_frame_data\<close> builds from a control
  structure and a message, \<open>yahdlc_get_data\<close> decodes, from a reset parser and after any
  noise without a flag octet, to the carried control information and the payload; it
  consumes everything up to the end flag and leaves a reset parser.  The destination
  must hold two octets more than the payload (the check value is stored, too), and the
  parser's maximum frame length must exceed that.
\<close>

theorem frame_data_get_data_roundtrip:
  assumes "yahdlc_frame_data (Some c) (Some m) (length m) (Some b) (Some l)
      = Some (Inr 0, Some out, Some n)"
    and "YAHDLC_FLAG_SEQUENCE \<notin> set g"
    and "length (payload_sent c m) + 2 < mx" "length (payload_sent c m) + 2 \<le> length dest"
    and "length dest < SIZE_MAX - 2"
  shows "\<exists>dest'. yahdlc_get_data (Some (reset_state mx)) (Some c0) (Some (g @ out)) (length g + n)
        (Some dest) (Some k)
      = Some (Inr (length g + n - 1), Some (reset_state mx), Some (control_carried c), Some dest',
              Some (length (payload_sent c m))) \<and>
    take (length (payload_sent c m)) dest' = payload_sent c m \<and> length dest' = length dest"
proof -
  obtain m' where m': "payload_of c (Some m) (length m) = Some m'" "frame_bytes c m' = frame_bytes c m"
    by (cases "frame c = YAHDLC_FRAME_DATA")
      (auto simp: payload_of_def buf_read_def frame_bytes_def frame_body_def frame_content_def)
  have "n = length (frame_bytes c m)" and "take n out = frame_bytes c m" and "n \<le> length out"
    using assms(1) frame_data_buffer [OF _ m'(1)] m'(2) by (auto split: if_splits)
  then have "buf_read (length g + n) (g @ out) = Some (g @ frame_bytes c m)"
    by (simp add: buf_read_def)
  moreover have "take (length (payload_sent c m)) (filled dest (frame_body c m)) = payload_sent c m"
    by (simp add: filled_def drop_frame_body)
  moreover have "length (filled dest (frame_body c m)) = length dest"
    using assms(4) by (simp add: length_filled length_frame_body_payload)
  ultimately show ?thesis
    using get_data_frame [OF assms(2-4), of c0] assms(4, 5) \<open>n = length (frame_bytes c m)\<close>
    by (simp add: yahdlc_get_data_def)
qed

text \<open>An empty DATA frame after two octets of noise, parsed into four octets.\<close>

theorem frame_data_get_data_roundtrip_witness:
  "\<exists>dest'. yahdlc_get_data (Some (reset_state 10)) (Some control_zero)
        (Some ([1, 2] @ [0x7E, 0xFF, 0x10, 0x06, 0xE0, 0x7E])) (2 + 6)
        (Some [0, 0, 0, 0]) (Some 0)
      = Some (Inr 7, Some (reset_state 10), Some (control_carried control_zero), Some dest', Some 0)"
proof -
  have "frame_bytes control_zero [] = [0x7E, 0xFF, 0x10, 0x06, 0xE0, 0x7E]"
    by (simp add: frame_bytes_def frame_body_def frame_content_def stuff_def stuff_byte_def
        octet_defs control_zero_def frame_control_type_eq fcs_trailer_def fcs_byte_def
        fcs16_def fcstab_def FCS16_INIT_VALUE_def)
  then have "yahdlc_frame_data (Some control_zero) (Some []) (length ([] :: byte list))
      (Some (replicate 6 0)) (Some 7) = Some (Inr 0, Some [0x7E, 0xFF, 0x10, 0x06, 0xE0, 0x7E], Some 6)"
    using frame_data_buffer [of "Some []" 0 control_zero "[]" "replicate 6 0" 7]
    by (simp add: payload_of_def buf_read_def control_zero_def)
  from frame_data_get_data_roundtrip [OF this, of "[1, 2]" 10 "[0, 0, 0, 0]" control_zero 0]
  show ?thesis
    by (auto simp: octet_defs payload_sent_def control_zero_def SIZE_MAX_def)
qed

text \<open>
  C22. Acceptance: between two flags, the parser accepts exactly the runs of at least
  three octets whose decoded content ends in the check value of what precedes it.  It
  reports the control octet found there and consumes up to the end flag; every other
  run is reported as \<open>-EIO\<close> with its length, and in both cases the parser is reset.
\<close>

theorem get_data_accepts_iff:
  assumes "YAHDLC_FLAG_SEQUENCE \<notin> set mid" "mid \<noteq> []"
    and "length (unstuff False mid) - 2 < m" "length (unstuff False mid) - 2 \<le> length dest"
  shows "\<exists>r. get_data (reset_state m) c (YAHDLC_FLAG_SEQUENCE # mid @ [YAHDLC_FLAG_SEQUENCE]) dest
      = Some r \<and> r_state r = reset_state m \<and>
    (if 3 \<le> length mid \<and>
        (\<exists>xs. unstuff False mid = xs @ fcs_trailer (foldl fcs16 FCS16_INIT_VALUE xs))
     then ret r = Inr (length mid + 1) \<and> r_control r = run_control mid
     else ret r = Inl EIO \<and> r_control r = c \<and> r_dest_len r = length mid + 1)"
proof -
  have "run_accepted mid \<longleftrightarrow> 3 \<le> length mid \<and>
      (\<exists>xs. unstuff False mid = xs @ fcs_trailer (foldl fcs16 FCS16_INIT_VALUE xs))"
    by (simp add: run_accepted_def check_good_iff)
  then show ?thesis
    using get_data_run [of "[]" mid m dest c] assms by (cases "run_accepted mid") simp_all
qed

theorem get_data_accepts_iff_witness:
  "\<exists>r. get_data (reset_state 9) control_zero [0x7E, 1, 2, 0x7E] [0, 0] = Some r \<and>
     ret r = Inl EIO \<and> r_dest_len r = 3"
  using get_data_accepts_iff [of "[1, 2]" 9 "[0, 0]" control_zero] by (auto simp: octet_defs)

text \<open>Two neighbouring octets of a frame replaced by two others: the run is refused.\<close>

lemma burst_not_accepted:
  assumes "frame_bytes c m = YAHDLC_FLAG_SEQUENCE # xs @ [a1, a2] @ ys @ [YAHDLC_FLAG_SEQUENCE]"
    and "[b1, b2] \<noteq> [a1, a2]"
    and "{a1, a2, b1, b2} \<inter> {YAHDLC_FLAG_SEQUENCE, YAHDLC_CONTROL_ESCAPE} = {}"
  shows "\<not> run_accepted (xs @ [b1, b2] @ ys)"
    and "YAHDLC_FLAG_SEQUENCE \<notin> set (xs @ [b1, b2] @ ys)"
    and "length (unstuff False (xs @ [b1, b2] @ ys)) = length (frame_body c m)"
proof -
  let ?p = "pending False xs"
  let ?x = "\<lambda>b. if ?p then b XOR 0x20 else b"
  let ?old = "xs @ [a1, a2] @ ys" and ?new = "xs @ [b1, b2] @ ys"
  have body: "stuff (frame_body c m) = ?old"
    using assms(1) by (simp add: frame_bytes_def)
  then show "YAHDLC_FLAG_SEQUENCE \<notin> set ?new"
    using stuffing.flag_free [of "frame_body c m"] assms(3) by auto
  have old: "frame_body c m = unstuff False xs @ [?x a1, a2] @ unstuff False ys"
    using unstuff_stuff [of "frame_body c m"] assms(3) unfolding body
    by (auto simp: unstuff_append)
  have "b1 \<noteq> YAHDLC_CONTROL_ESCAPE" "b2 \<noteq> YAHDLC_CONTROL_ESCAPE" using assms(3) by auto
  then have new: "unstuff False ?new = unstuff False xs @ [?x b1, b2] @ unstuff False ys"
    by (simp add: unstuff_append)
  have "foldl fcs16 FCS16_INIT_VALUE (unstuff False ?new)
      \<noteq> foldl fcs16 FCS16_INIT_VALUE (frame_body c m)"
  proof
    assume "foldl fcs16 FCS16_INIT_VALUE (unstuff False ?new)
      = foldl fcs16 FCS16_INIT_VALUE (frame_body c m)"
    then have "?x b1 = ?x a1 \<and> b2 = a2"
      unfolding old new by (rule fcs_check.burst_changes_check)
    then show False using assms(2) by (auto split: if_splits)
  qed
  then show "\<not> run_accepted ?new"
    by (simp add: run_accepted_def frame_body_accepted)
  show "length (unstuff False ?new) = length (frame_body c m)"
    unfolding old new by simp
qed

text \<open>
  C23. Error detection: two frames differ in the check value whenever two neighbouring
  octets of the frame are replaced.  If any two neighbouring octets of a frame between
  the flags are overwritten by two others (one of them may stay as it is), none of the
  four being a flag or an escape octet, then the parser refuses the result.
\<close>

theorem corrupted_frame_rejected:
  assumes "frame_bytes c m = YAHDLC_FLAG_SEQUENCE # xs @ [a1, a2] @ ys @ [YAHDLC_FLAG_SEQUENCE]"
    and "[b1, b2] \<noteq> [a1, a2]"
    and "{a1, a2, b1, b2} \<inter> {YAHDLC_FLAG_SEQUENCE, YAHDLC_CONTROL_ESCAPE} = {}"
    and "length (payload_sent c m) + 2 < mx" "length (payload_sent c m) + 2 \<le> length dest"
  shows "\<exists>r. get_data (reset_state mx) c0
      (YAHDLC_FLAG_SEQUENCE # xs @ [b1, b2] @ ys @ [YAHDLC_FLAG_SEQUENCE]) dest = Some r \<and>
    ret r = Inl EIO \<and> r_control r = c0"
  using burst_not_accepted [OF assms(1-3)] get_data_run [of "[]" "xs @ [b1, b2] @ ys" mx dest c0]
    assms(4, 5)
  by (simp add: length_frame_body_payload)

theorem corrupted_frame_rejected_witness:
  "\<exists>r. get_data (reset_state 9) control_zero [0x7E, 0xFF, 0x11, 0x06, 0xE0, 0x7E] [0, 0] = Some r \<and>
     ret r = Inl EIO \<and> r_control r = control_zero"
proof -
  have "frame_bytes control_zero [] = [0x7E, 0xFF, 0x10, 0x06, 0xE0, 0x7E]"
    by (simp add: frame_bytes_def frame_body_def frame_content_def stuff_def stuff_byte_def
        octet_defs control_zero_def frame_control_type_eq fcs_trailer_def fcs_byte_def
        fcs16_def fcstab_def FCS16_INIT_VALUE_def)
  then show ?thesis
    using corrupted_frame_rejected [of control_zero "[]" "[0xFF]" "0x10" "0x06" "[0xE0]" "0x11" "0x06"
        9 "[0, 0]" control_zero]
    by (simp add: octet_defs payload_sent_def control_zero_def)
qed

text \<open>
  With an escape octet among the new octets the result may be accepted: in the frame of a
  message of ten octets, \<open>6E F7\<close> replaced by \<open>7D 0D\<close> gives a valid frame of nine.
\<close>

lemma escape_may_be_accepted:
  "frame_bytes control_zero [0x9D, 0xE4, 0x43, 0x4F, 0x26, 0x48, 0x6E, 0xF7, 0xAB, 0xBA] =
     [0x7E, 0xFF, 0x10, 0x9D, 0xE4, 0x43, 0x4F, 0x26, 0x48, 0x6E, 0xF7, 0xAB, 0xBA, 0x23, 0x60, 0x7E]"
  "map_option (\<lambda>r. (ret r, r_dest_len r))
     (get_data (reset_state 508) control_zero
       [0x7E, 0xFF, 0x10, 0x9D, 0xE4, 0x43, 0x4F, 0x26, 0x48, 0x7D, 0x0D, 0xAB, 0xBA, 0x23, 0x60, 0x7E]
       (replicate 16 0)) = Some (Inr 15, 9)"
  by code_simp+

text \<open>
  Too short frames: the test for the minimum frame size lets runs of three octets
  through.  A run of at least three octets that decodes to fewer than the four octets
  of an empty frame and ends in a valid check value is accepted, and the subtraction of
  the size of the check value wraps: \<open>*dest_len\<close> is within one of the largest \<open>size_t\<close>.
\<close>

lemma short_frame_length_wraps:
  assumes "YAHDLC_FLAG_SEQUENCE \<notin> set mid" "3 \<le> length mid" "length (unstuff False mid) < 4"
    and "unstuff False mid = xs @ fcs_trailer (foldl fcs16 FCS16_INIT_VALUE xs)"
    and "1 < m" "dest \<noteq> []"
  shows "\<exists>r. get_data (reset_state m) c (YAHDLC_FLAG_SEQUENCE # mid @ [YAHDLC_FLAG_SEQUENCE]) dest
      = Some r \<and> ret r = Inr (length mid + 1) \<and> SIZE_MAX - 1 \<le> r_dest_len r"
proof -
  let ?n = "length (unstuff False mid)"
  have good: "foldl fcs16 FCS16_INIT_VALUE (unstuff False mid) = FCS16_GOOD_VALUE"
    using assms(4) check_good_iff by blast
  then have "2 \<le> ?n" by (rule check_good_length)
  then have "SIZE_MAX - 1 \<le> run_length mid"
    using assms(3) by (auto simp: run_length_def size_sub_wraps SIZE_MAX_def)
  moreover have "?n - 2 < m" "?n - 2 \<le> length dest"
    using assms(3, 5, 6) by (cases dest; simp)+
  ultimately show ?thesis
    using get_data_run [of "[]" mid m dest c] assms(1, 2) good
    by (cases "mid = []") (simp_all add: run_accepted_def)
qed

text \<open>The five octets \<open>7E 7D 20 00 7E\<close>: an escaped zero and a zero between flags.\<close>

lemma short_frame_length_wraps_witness:
  "\<exists>r. get_data (reset_state 508) control_zero [0x7E, 0x7D, 0x20, 0x00, 0x7E] [0] = Some r \<and>
     ret r = Inr 4 \<and> SIZE_MAX - 1 \<le> r_dest_len r"
  using short_frame_length_wraps [of "[0x7D, 0x20, 0x00]" "[]" 508 "[0]" control_zero]
  by (simp add: octet_defs fcs_trailer_def fcs_byte_def FCS16_INIT_VALUE_def nat_four)

text \<open>
  C27. Memory safety and bounds of the parser: with a destination of at least one octet
  less than the maximum frame length no input, well formed or not, makes it store
  outside the destination; every call returns, keeps the size of the destination and
  the bounds of the parser state (\<open>dest_index\<close> below the maximum frame length and tied
  to \<open>frame_byte_index\<close>, so the counters cannot wrap).
\<close>

theorem get_data_memory_safe:
  assumes "parser_inv st" and "max_frame_len st \<le> length dest + 1"
  shows "\<exists>r. get_data st c src dest = Some r \<and> length (r_dest r) = length dest \<and>
    parser_inv (r_state r) \<and> max_frame_len (r_state r) = max_frame_len st"
proof -
  obtain j s st' dest' where s: "get_data_loop st dest src 0 = Some (j, s)"
    "step_result s = (st', dest')" "length dest' = length dest"
    "max_frame_len st' = max_frame_len st" "is_Continue s \<longrightarrow> parser_inv st'" "ended s"
    using get_data_loop_inv [OF assms] by blast
  then show ?thesis
    by (cases s) (simp_all add: get_data_def step_result_def ended_def get_data_finish_def parser_inv_reset
        max_frame_len_reset)
qed

theorem get_data_memory_safe_witness:
  "\<exists>r. get_data (reset_state 3) control_zero [0x7E, 1, 2, 3, 4, 5, 6] [0, 0] = Some r \<and>
     length (r_dest r) = 2"
  using get_data_memory_safe [of "reset_state 3" "[0, 0]" control_zero "[0x7E, 1, 2, 3, 4, 5, 6]"]
    parser_inv_reset by (auto simp: reset_state_def)

end
