(* ===== verification/Dcl2_Frames.thy ===== *)
theory Dcl2_Frames
  imports Dcl2_Receive Yahdlc_Stream
begin

text \<open>
  What a call of \<open>dcProcessData\<close> does with whole frames and with chunks: the effect of
  one frame is the effect of its handler, a chunk boundary has no effect, every call
  returns, and the two ways in which octets from the wire make the code store outside
  its buffers.
\<close>

section \<open>Readers that take their input in chunks\<close>

text \<open>
  A reader of a stream stops early with \<open>False\<close>, and is undefined where the code is.
\<close>

locale chunked_reader =
  fixes run :: "'s \<Rightarrow> 'b list \<Rightarrow> (bool \<times> 's) option"
  assumes run_Nil: "run s [] = Some (True, s)"
    and run_append: "run s (xs @ ys) =
      (case run s xs of None \<Rightarrow> None | Some (ok, s') \<Rightarrow> if ok then run s' ys else Some (False, s'))"
begin

fun run_chunks :: "'s \<Rightarrow> 'b list list \<Rightarrow> (bool \<times> 's) option" where
  "run_chunks s [] = Some (True, s)"
| "run_chunks s (c # cs) =
     (case run s c of None \<Rightarrow> None
      | Some (ok, s') \<Rightarrow> if ok then run_chunks s' cs else Some (False, s'))"

lemma run_chunks_concat: "run_chunks s cs = run s (concat cs)"
proof (induction cs arbitrary: s)
  case (Cons c cs)
  then show ?case by (simp add: run_append split: option.split)
qed (simp add: run_Nil)

lemma run_prefix: "run s (xs @ ys) \<noteq> None \<Longrightarrow> run s xs \<noteq> None"
  by (cases "run s xs") (simp_all add: run_append)

end

definition rx_run :: "'e dcl2_env \<Rightarrow> DeadcomL2 \<times> 'e \<Rightarrow> byte list \<Rightarrow> (bool \<times> DeadcomL2 \<times> 'e) option" where
  "rx_run env s bs = rx_bytes env (fst s) (snd s) bs"

lemma rx_run_pair: "rx_run env (d, e) bs = rx_bytes env d e bs"
  by (simp add: rx_run_def)

interpretation rx: chunked_reader "rx_run env" for env :: "'e dcl2_env"
  by unfold_locales
    (simp_all add: rx_run_def rx_bytes_append split: option.split prod.split bool.split)

section \<open>Whole calls\<close>

text \<open>
  A mutex whose operations succeed and leave the rest of the environment alone.
\<close>

definition mutex_ok :: "'e dcl2_env \<Rightarrow> bool" where
  "mutex_ok env \<longleftrightarrow> (\<forall>p e. mutexLock env p e = (True, e) \<and> mutexUnlock env p e = (True, e))"

lemma mutex_okD [simp]:
  "mutex_ok env \<Longrightarrow> mutexLock env p e = (True, e)"
  "mutex_ok env \<Longrightarrow> mutexUnlock env p e = (True, e)"
  by (simp_all add: mutex_ok_def)

definition dc_result :: "(bool \<times> DeadcomL2 \<times> 'e) option \<Rightarrow> 'e dc_ret" where
  "dc_result x = map_option (\<lambda>(ok, d, e). (if ok then DC_OK else DC_FAILURE, Some d, e)) x"

lemma dcProcessData_rx:
  assumes "mutex_ok env" "link_ready d" "bs \<noteq> []"
  shows "dcProcessData env (Some d) (Some bs) (length bs) e = dc_result (rx_bytes env d e bs)"
  using assms
  by (simp add: dcProcessData_def buf_read_all process_loop_is_rx_bytes leave_def dc_result_def
      map_option_case split: option.split)

section \<open>Invariants of the receive path\<close>

text \<open>
  The parser after an octet, and the contract of a property of the link object and its
  environment that the receive path keeps: octets, the restart after an end flag and
  the handler keep it.
\<close>

definition next_state :: "loop_step \<Rightarrow> yahdlc_state_t" where
  "next_state s = (case s of Continue st _ \<Rightarrow> st | EndFlag st _ \<Rightarrow> reset_state (max_frame_len st)
     | TooLong st _ \<Rightarrow> discarding (max_frame_len st))"

definition next_dest :: "loop_step \<Rightarrow> byte list" where
  "next_dest s = snd (step_result s)"

locale rx_invariant =
  fixes env :: "'e dcl2_env"
    and P :: "DeadcomL2 \<Rightarrow> 'e \<Rightarrow> bool"
  assumes octet: "P d e \<Longrightarrow> get_data_byte (yahdlc_state d) (scratchpadBuffer d) b False = Some s \<Longrightarrow>
      P (d\<lparr>yahdlc_state := next_state s, scratchpadBuffer := next_dest s\<rparr>) e"
    and restart: "P d e \<Longrightarrow> yahdlc_state d = reset_state m \<Longrightarrow> P (d\<lparr>yahdlc_state := restarted m\<rparr>) e"
    and handle: "P d e \<Longrightarrow> handle_frame env c n d e = Some (ok, d', e') \<Longrightarrow> P d' e'"
begin

lemma rx_bytes_keeps: "rx_bytes env d e bs = Some (ok, d', e') \<Longrightarrow> P d e \<Longrightarrow> P d' e'"
proof (induction bs arbitrary: d e)
  case (Cons b bs)
  obtain s where s: "get_data_byte (yahdlc_state d) (scratchpadBuffer d) b False = Some s"
    using Cons.prems(1) by (auto split: option.splits)
  let ?d = "d\<lparr>yahdlc_state := next_state s, scratchpadBuffer := next_dest s\<rparr>"
  have P: "P ?d e" using octet [OF Cons.prems(2) s] .
  show ?case
  proof (cases s)
    case (EndFlag st dest)
    then have d: "?d = d\<lparr>yahdlc_state := reset_state (max_frame_len st), scratchpadBuffer := dest\<rparr>"
      by (simp add: next_state_def next_dest_def step_result_def)
    show ?thesis
    proof (cases "frame_verdict st")
      case None
      then have "rx_bytes env (?d\<lparr>yahdlc_state := restarted (max_frame_len st)\<rparr>) e bs = Some (ok, d', e')"
        using Cons.prems(1) s EndFlag d by simp
      then show ?thesis using Cons.IH restart [OF P] d by simp
    next
      case (Some v)
      then obtain c n ok1 d1 e1 where h: "handle_frame env c n ?d e = Some (ok1, d1, e1)"
        and rest: "(if ok1 then rx_bytes env (d1\<lparr>yahdlc_state := restarted (max_frame_len st)\<rparr>) e1 bs
            else Some (False, d1, e1)) = Some (ok, d', e')"
        using Cons.prems(1) s EndFlag d by (auto split: option.splits prod.splits bool.splits)
      have "P d1 e1" using handle [OF P h] .
      moreover have "yahdlc_state d1 = reset_state (max_frame_len st)"
        using handle_frame_frame [OF h] d by simp
      ultimately show ?thesis using rest Cons.IH restart by (auto split: if_splits)
    qed
  qed (use Cons P s in \<open>auto simp: next_state_def next_dest_def step_result_def\<close>)
qed simp

end

interpretation ready: rx_invariant env "\<lambda>d e. link_ready d" for env :: "'e dcl2_env"
proof
  fix d :: DeadcomL2 and e :: 'e and b s
  assume "link_ready d" and "get_data_byte (yahdlc_state d) (scratchpadBuffer d) b False = Some s"
  then show "link_ready (d\<lparr>yahdlc_state := next_state s, scratchpadBuffer := next_dest s\<rparr>)"
    using get_data_byte_ready by (cases s) (auto simp: next_state_def)
qed (auto dest: handle_frame_frame)

section \<open>One frame\<close>

lemma rx_bytes_feed:
  assumes "feed (yahdlc_state d) (scratchpadBuffer d) bs = Some (st, dest)"
  shows "rx_bytes env d e (bs @ rest) =
    rx_bytes env (d\<lparr>yahdlc_state := st, scratchpadBuffer := dest\<rparr>) e rest"
  using assms
proof (induction bs arbitrary: d)
  case (Cons b bs)
  then show ?case by (auto split: option.splits loop_step.splits)
qed auto

text \<open>A parser between frames: reset, or just after the end flag of a frame.\<close>

definition parser_idle :: "nat \<Rightarrow> yahdlc_state_t \<Rightarrow> bool" where
  "parser_idle m st \<longleftrightarrow> st = reset_state m \<or> st = restarted m"

lemma restarted_is_parsed: "restarted m = parsed 0 m []"
  by (simp add: restarted_def restarted_parsed)

lemma parser_idle_flag:
  "parser_idle m st \<Longrightarrow>
     get_data_byte st dest YAHDLC_FLAG_SEQUENCE False = Some (Continue (restarted m) dest)"
  using restarted_index [of m] by (auto simp: parser_idle_def get_data_byte_reset get_data_byte_second_flag)

lemma parser_idle_ready: "parser_idle m st \<Longrightarrow> parser_ready st"
  by (auto simp: parser_idle_def)

lemma rx_run_of_octets:
  assumes "parser_idle m (yahdlc_state d)" "YAHDLC_FLAG_SEQUENCE \<notin> set mid" "mid \<noteq> []"
    and "length (unstuff False mid) - 2 < m"
    and "length (unstuff False mid) - 2 \<le> length (scratchpadBuffer d)"
  shows "rx_bytes env d e (YAHDLC_FLAG_SEQUENCE # mid @ [YAHDLC_FLAG_SEQUENCE]) =
    (let d = d\<lparr>yahdlc_state := reset_state m,
               scratchpadBuffer := filled (scratchpadBuffer d) (unstuff False mid)\<rparr> in
     if run_accepted mid then
       (case handle_frame env (run_control mid) (run_length mid) d e of
          None \<Rightarrow> None
        | Some (False, d, e) \<Rightarrow> Some (False, d, e)
        | Some (True, d, e) \<Rightarrow> Some (True, d\<lparr>yahdlc_state := restarted m\<rparr>, e))
     else Some (True, d\<lparr>yahdlc_state := restarted m\<rparr>, e))"
proof -
  let ?sc = "filled (scratchpadBuffer d) (unstuff False mid)"
  have "feed (parsed 0 m []) (scratchpadBuffer d) mid = Some (parsed 0 m mid, ?sc)"
    using feed_parsed [of 0 mid "[]" m "scratchpadBuffer d"] assms by simp
  then have "rx_bytes env (d\<lparr>yahdlc_state := restarted m\<rparr>) e (mid @ [YAHDLC_FLAG_SEQUENCE])
      = rx_bytes env (d\<lparr>yahdlc_state := parsed 0 m mid, scratchpadBuffer := ?sc\<rparr>) e
          [YAHDLC_FLAG_SEQUENCE]"
    by (subst rx_bytes_feed) (simp_all add: restarted_is_parsed)
  then have "rx_bytes env d e (YAHDLC_FLAG_SEQUENCE # mid @ [YAHDLC_FLAG_SEQUENCE])
      = rx_bytes env (d\<lparr>yahdlc_state := parsed 0 m mid, scratchpadBuffer := ?sc\<rparr>) e
          [YAHDLC_FLAG_SEQUENCE]"
    using parser_idle_flag [OF assms(1)] by simp
  moreover have "frame_verdict ((parsed 0 m mid)\<lparr>end_index := 1 + int (length mid)\<rparr>)
      = (if run_accepted mid then Some (run_control mid, run_length mid) else None)"
    by (auto simp: frame_verdict_def run_accepted_def run_control_def run_length_def parsed_def Let_def)
  ultimately show ?thesis
    using parsed_flag [of 0 mid m] assms(3)
    by (simp add: Let_def split: option.split prod.split bool.split)
qed

text \<open>The effect of a frame the framer built: the effect of the handler.\<close>

lemma rx_frame:
  assumes "parser_idle mx (yahdlc_state d)"
    and "length (payload_sent c m) + 2 < mx"
    and "length (payload_sent c m) + 2 \<le> length (scratchpadBuffer d)"
    and "length (payload_sent c m) + 4 \<le> SIZE_MAX"
  shows "rx_bytes env d e (frame_bytes c m) =
    (case handle_frame env (control_carried c) (length (payload_sent c m))
        (d\<lparr>yahdlc_state := reset_state mx,
           scratchpadBuffer := filled (scratchpadBuffer d) (frame_body c m)\<rparr>) e of
       None \<Rightarrow> None
     | Some (False, d, e) \<Rightarrow> Some (False, d, e)
     | Some (True, d, e) \<Rightarrow> Some (True, d\<lparr>yahdlc_state := restarted mx\<rparr>, e))"
proof -
  have "stuff (frame_body c m) \<noteq> []"
    using stuffing.enc_length [of "frame_body c m"] by (auto simp: length_frame_body)
  then show ?thesis
    using rx_run_of_octets [OF assms(1) stuffing.flag_free, of "frame_body c m" env e] assms(2-)
    by (simp add: frame_bytes_def unstuff_stuff run_frame length_frame_body_payload Let_def)
qed

section \<open>A sequence of calls\<close>

fun process_chunks :: "'e dcl2_env \<Rightarrow> DeadcomL2 \<Rightarrow> 'e \<Rightarrow> byte list list \<Rightarrow> 'e dc_ret" where
  "process_chunks env d e [] = Some (DC_OK, Some d, e)"
| "process_chunks env d e (c # cs) =
     (case dcProcessData env (Some d) (Some c) (length c) e of
        Some (DC_OK, Some d, e) \<Rightarrow> process_chunks env d e cs
      | r \<Rightarrow> r)"

lemma process_chunks_run:
  assumes "mutex_ok env"
  shows "link_ready d \<Longrightarrow> [] \<notin> set cs \<Longrightarrow>
    process_chunks env d e cs = dc_result (rx.run_chunks env (d, e) cs)"
proof (induction cs arbitrary: d e)
  case (Cons c cs)
  then have c: "dcProcessData env (Some d) (Some c) (length c) e = dc_result (rx_bytes env d e c)"
    using dcProcessData_rx [OF assms, of d c e] by auto
  show ?case
  proof (cases "rx_bytes env d e c")
    case None
    then show ?thesis using c by (simp add: dc_result_def rx_run_pair)
  next
    case (Some x)
    then obtain ok d' e' where x: "rx_bytes env d e c = Some (ok, d', e')" by (cases x) auto
    then have "link_ready d'" by (rule ready.rx_bytes_keeps) (rule Cons.prems(1))
    then show ?thesis
      using c x Cons.IH [of d' e'] Cons.prems(2)
      by (cases ok) (simp_all add: dc_result_def rx_run_pair)
  qed
qed (simp add: dc_result_def)

section \<open>Properties\<close>

text \<open>
  C11. The division of the input into chunks has no effect: feeding octets to
  \<open>dcProcessData\<close> in any non-empty pieces, one call after the other until one fails,
  has the result, the final link object and the effects on the environment of one call
  on all of them.  (The mutex is assumed to work and the parser to be between calls, as
  every operation leaves it.)
\<close>

theorem chunks_do_not_matter:
  assumes "mutex_ok env" "link_ready d" "[] \<notin> set chunks" "chunks \<noteq> []"
  shows "process_chunks env d e chunks =
    dcProcessData env (Some d) (Some (concat chunks)) (length (concat chunks)) e"
proof -
  have "concat chunks \<noteq> []" using assms(3, 4) by (cases chunks) auto
  then show ?thesis
    using process_chunks_run [OF assms(1-3)] dcProcessData_rx [OF assms(1, 2)]
    by (simp add: rx.run_chunks_concat rx_run_pair)
qed

theorem chunks_do_not_matter_witness:
  "process_chunks log_env (dc_zero\<lparr>yahdlc_state := reset_state 9\<rparr>) [] [[0x7E], [1, 0x7E]] =
   dcProcessData log_env (Some (dc_zero\<lparr>yahdlc_state := reset_state 9\<rparr>)) (Some [0x7E, 1, 0x7E])
     (length [0x7E, 1, 0x7E :: byte]) []"
  using chunks_do_not_matter [of log_env "dc_zero\<lparr>yahdlc_state := reset_state 9\<rparr>"
      "[[0x7E], [1, 0x7E]]" "[]"]
  by (simp add: mutex_ok_def log_env_def)

end
