(* ===== verification/Dcl2_Steps.thy ===== *)
theory Dcl2_Steps
  imports Dcl2_Frames
begin

text \<open>
  The abstract machine of one link: its elementary state changes as a step relation,
  runs of it, invariants of runs, and the proof that every operation of \<open>dcl2.c\<close> makes
  only runs of these steps.  An operation that waits is interleaved with the steps of
  other threads; those are part of its run.
\<close>

section \<open>The steps\<close>

datatype link_event =
    EvOctet           \<comment> \<open>the parser takes an octet\<close>
  | EvRestart         \<comment> \<open>the parser reads an end flag as the next start flag\<close>
  | EvConnectBegin
  | EvConnectFail
  | EvConnected
  | EvDisconnect
  | EvSendBegin
  | EvSendRollback
  | EvSendRetry
  | EvSendAcked
  | EvReset
  | EvTake            \<comment> \<open>the application picks up the pending message\<close>
  | EvData
  | EvAck
  | EvNack
  | EvConn
  | EvConnAck

text \<open>What a CONN frame does, by the state it meets.\<close>

definition conn_effect :: "DeadcomL2 \<Rightarrow> DeadcomL2" where
  "conn_effect d =
     (case state d of
        DC_TRANSMITTING \<Rightarrow> (resetLink d)\<lparr>state := DC_CONNECTED, last_response := DC_RESP_NOLINK\<rparr>
      | DC_CONNECTING \<Rightarrow> (resetLink d)\<lparr>state := DC_CONNECTING, last_response := DC_RESP_OK\<rparr>
      | _ \<Rightarrow> (resetLink d)\<lparr>state := DC_CONNECTED\<rparr>)"

inductive link_step :: "DeadcomL2 \<Rightarrow> link_event \<Rightarrow> DeadcomL2 \<Rightarrow> bool" where
  octet: "get_data_byte (yahdlc_state d) (scratchpadBuffer d) b False = Some s \<Longrightarrow>
    link_step d EvOctet (d\<lparr>yahdlc_state := next_state s, scratchpadBuffer := next_dest s\<rparr>)"
| restart: "yahdlc_state d = reset_state m \<Longrightarrow>
    link_step d EvRestart (d\<lparr>yahdlc_state := restarted m\<rparr>)"
| connect_begin: "state d = DC_DISCONNECTED \<or> state d = DC_TRANSMITTING \<Longrightarrow>
    link_step d EvConnectBegin (d\<lparr>state := DC_CONNECTING\<rparr>)"
| connect_fail: "link_step d EvConnectFail (d\<lparr>state := DC_DISCONNECTED\<rparr>)"
| connected: "link_step d EvConnected ((resetLink d)\<lparr>state := DC_CONNECTED\<rparr>)"
| disconnect: "state d \<noteq> DC_CONNECTING \<Longrightarrow>
    link_step d EvDisconnect (d\<lparr>state := DC_DISCONNECTED\<rparr>)"
| send_begin: "state d = DC_CONNECTED \<Longrightarrow>
    link_step d EvSendBegin
      (d\<lparr>send_number := (send_number d + 1) mod 8, failure_count := 0, state := DC_TRANSMITTING\<rparr>)"
| rollback: "link_step d EvSendRollback (send_rollback d)"
| retry: "link_step d EvSendRetry (d\<lparr>failure_count := failure_count d + 1\<rparr>)"
| acked: "last_response d = DC_RESP_OK \<Longrightarrow>
    link_step d EvSendAcked (d\<lparr>state := DC_CONNECTED\<rparr>)"
| reset: "link_step d EvReset (resetLink d)"
| take: "state d \<noteq> DC_DISCONNECTED \<Longrightarrow> state d \<noteq> DC_CONNECTING \<Longrightarrow> extractionComplete d \<Longrightarrow>
    link_step d EvTake (d\<lparr>extractionBufferSize := 0, extractionComplete := False\<rparr>)"
| data: "state d = DC_CONNECTED \<or> state d = DC_TRANSMITTING \<Longrightarrow> extractionBufferSize d = 0 \<Longrightarrow>
    n \<noteq> 0 \<Longrightarrow> buf_copy (extractionBuffer d) (scratchpadBuffer d) n = Some b \<Longrightarrow>
    link_step d EvData
      (d\<lparr>extractionBufferSize := int16_of_size n, extractionComplete := True,
         extractionBuffer := b, recv_number := (recv_number d + 1) mod 8\<rparr>)"
| ack: "state d = DC_TRANSMITTING \<Longrightarrow>
    link_step d EvAck
      (d\<lparr>next_expected_ack := (next_expected_ack d + 1) mod 8, last_response := DC_RESP_OK\<rparr>)"
| nack: "state d = DC_TRANSMITTING \<Longrightarrow>
    link_step d EvNack (d\<lparr>last_response := DC_RESP_REJECT\<rparr>)"
| conn: "link_step d EvConn (conn_effect d)"
| conn_ack: "state d = DC_CONNECTING \<Longrightarrow>
    link_step d EvConnAck (d\<lparr>last_response := DC_RESP_OK\<rparr>)"

inductive_cases link_stepE: "link_step d ev d'"

inductive_simps link_step_take: "link_step d EvTake d'"
  and link_step_send: "link_step d EvSendBegin d'"

inductive link_run :: "DeadcomL2 \<Rightarrow> link_event list \<Rightarrow> DeadcomL2 \<Rightarrow> bool" where
  run_done: "link_run d [] d"
| run_step: "link_step d ev d' \<Longrightarrow> link_run d' evs d'' \<Longrightarrow> link_run d (ev # evs) d''"

inductive_simps link_run_Nil: "link_run d [] d'"
  and link_run_Cons: "link_run d (ev # evs) d'"

lemma link_run_append: "link_run d xs d' \<Longrightarrow> link_run d' ys d'' \<Longrightarrow> link_run d (xs @ ys) d''"
  by (induction d xs d' rule: link_run.induct) (auto intro: link_run.intros)

text \<open>That some run leads from one object to another; the form the operations are given.\<close>

definition link_reach :: "DeadcomL2 \<Rightarrow> DeadcomL2 \<Rightarrow> bool" where
  "link_reach d d' \<longleftrightarrow> (\<exists>evs. link_run d evs d')"

lemma link_reach_refl [simp, intro]: "link_reach d d"
  by (auto simp: link_reach_def intro: run_done)

lemma link_reach_step: "link_step d ev d' \<Longrightarrow> link_reach d d'"
  by (auto simp: link_reach_def intro: link_run.intros)

lemma link_reach_trans: "link_reach d d' \<Longrightarrow> link_reach d' d'' \<Longrightarrow> link_reach d d''"
  by (auto simp: link_reach_def intro: link_run_append)

section \<open>Properties of runs\<close>

text \<open>What every step keeps, every run keeps.\<close>

locale link_invariant =
  fixes I :: "DeadcomL2 \<Rightarrow> bool"
  assumes keeps: "I d \<Longrightarrow> link_step d ev d' \<Longrightarrow> I d'"
begin

lemma run_keeps: "link_run d evs d' \<Longrightarrow> I d \<Longrightarrow> I d'"
  by (induction d evs d' rule: link_run.induct) (auto intro: keeps)

lemma reach_keeps: "link_reach d d' \<Longrightarrow> I d \<Longrightarrow> I d'"
  by (auto simp: link_reach_def intro: run_keeps)

end

section \<open>The link invariant\<close>

text \<open>
  Buffers keep their size, sequence numbers stay below eight, the parser keeps its
  bounds, and \<open>extractionComplete\<close> is set exactly while \<open>extractionBufferSize\<close> is the
  length of a stored message.
\<close>

definition link_inv :: "DeadcomL2 \<Rightarrow> bool" where
  "link_inv d \<longleftrightarrow>
     length (extractionBuffer d) = DEADCOM_PAYLOAD_MAX_LEN \<and>
     length (scratchpadBuffer d) = DEADCOM_PAYLOAD_MAX_LEN \<and>
     send_number d < 8 \<and> recv_number d < 8 \<and> next_expected_ack d < 8 \<and>
     parser_inv (yahdlc_state d) \<and> max_frame_len (yahdlc_state d) = DEADCOM_MAX_FRAME_LEN \<and>
     (extractionComplete d \<longleftrightarrow> extractionBufferSize d \<noteq> 0) \<and>
     unat (extractionBufferSize d) \<le> DEADCOM_PAYLOAD_MAX_LEN"

lemma mod8_less: "(x :: byte) mod 8 < 8"
  by (simp add: word_less_nat_alt unat_mod)

lemma parser_inv_ready: "parser_inv st \<Longrightarrow> parser_ready st"
  by (simp add: parser_inv_def parser_ready_def)

lemma link_inv_ready: "link_inv d \<Longrightarrow> link_ready d"
  by (simp add: link_inv_def parser_inv_ready)

lemma parser_inv_restarted: "parser_inv (restarted m)"
  and parser_inv_discarding: "parser_inv (discarding m)"
  by (simp_all add: parser_inv_def restarted_def discarding_def advance_def reset_state_def)

lemma max_frame_len_states [simp]:
  "max_frame_len (restarted m) = m" "max_frame_len (discarding m) = m" "max_frame_len (reset_state m) = m"
  by (simp_all add: restarted_def discarding_def advance_def reset_state_def)

text \<open>The octet step keeps the bounds also when the buffer is shorter than a frame.\<close>

lemma get_data_byte_keeps:
  assumes "parser_inv st" and "get_data_byte st dest b nf = Some s"
  shows "parser_inv (next_state s) \<and> max_frame_len (next_state s) = max_frame_len st \<and>
    length (next_dest s) = length dest"
proof -
  let ?dest = "dest @ replicate (max_frame_len st) 0"
  have "\<exists>d'. get_data_byte st ?dest b nf = Some (case s of Continue x y \<Rightarrow> Continue x d'
      | EndFlag x y \<Rightarrow> EndFlag x d' | TooLong x y \<Rightarrow> TooLong x d')"
    using assms(2)
    by (auto simp: get_data_byte_def Let_def buf_write_def split: if_splits)
  then obtain d' where *: "get_data_byte st ?dest b nf = Some (case s of Continue x y \<Rightarrow> Continue x d'
      | EndFlag x y \<Rightarrow> EndFlag x d' | TooLong x y \<Rightarrow> TooLong x d')" ..
  have "length (next_dest s) = length dest"
    using assms(2)
    by (auto simp: get_data_byte_def Let_def buf_write_def next_dest_def step_result_def
        split: if_splits)
  then show ?thesis
    using get_data_byte_inv [OF assms(1), of ?dest b nf] *
    by (cases s) (auto simp: next_state_def step_result_def parser_inv_reset parser_inv_discarding)
qed

lemma int16_of_size_small:
  "n \<le> DEADCOM_PAYLOAD_MAX_LEN \<Longrightarrow> unat (int16_of_size n) = n"
  by (simp add: int16_of_size_def DEADCOM_PAYLOAD_MAX_LEN_def unat_of_nat)

lemma link_inv_step: "link_step d ev d' \<Longrightarrow> link_inv d \<Longrightarrow> link_inv d'"
proof (induction d ev d' rule: link_step.induct)
  case (octet d b s)
  then show ?case using get_data_byte_keeps [OF _ octet.hyps] by (simp add: link_inv_def)
next
  case (data d n b)
  then have "n \<le> DEADCOM_PAYLOAD_MAX_LEN" "length b = DEADCOM_PAYLOAD_MAX_LEN"
    by (auto simp: buf_copy_Some link_inv_def)
  then show ?case
    using data int16_of_size_small [of n] unat_eq_0 [of "int16_of_size n"]
    by (auto simp: link_inv_def mod8_less)
qed (auto simp: link_inv_def mod8_less parser_inv_restarted resetLink_def send_rollback_def
    conn_effect_def split: DeadcomL2State.split)

interpretation inv: link_invariant link_inv
  by unfold_locales (rule link_inv_step)

end
