(* ===== verification/Dcl2_Refine.thy ===== *)
theory Dcl2_Refine
  imports Dcl2_Steps
begin

text \<open>
  Every operation of \<open>dcl2.c\<close> makes only runs of the abstract machine of \<open>Dcl2_Steps\<close>,
  so the invariants of runs are invariants of the operations; and the guarantees this
  gives: the link invariant, the stability of a pending message, the progress of the
  sequence numbers.
\<close>

section \<open>The receive path\<close>

lemma conn_effect_simps:
  "state d = DC_TRANSMITTING \<Longrightarrow>
     conn_effect d = (resetLink d)\<lparr>state := DC_CONNECTED, last_response := DC_RESP_NOLINK\<rparr>"
  "state d = DC_CONNECTING \<Longrightarrow>
     conn_effect d = (resetLink d)\<lparr>state := DC_CONNECTING, last_response := DC_RESP_OK\<rparr>"
  "state d \<noteq> DC_TRANSMITTING \<Longrightarrow> state d \<noteq> DC_CONNECTING \<Longrightarrow>
     conn_effect d = (resetLink d)\<lparr>state := DC_CONNECTED\<rparr>"
  by (cases "state d"; simp add: conn_effect_def)+

lemma handle_conn_effect:
  assumes "handle_conn env d e = Some (ok, d', e')"
  shows "d' = d \<and> \<not> ok \<or> d' = conn_effect d"
  using assms
  by (auto simp: handle_conn_def signal_waiter_def Let_def bind_eq_Some_conv conn_effect_simps
      split: if_splits prod.splits)

lemma handle_data_reach:
  assumes "handle_data env c n d e = Some (ok, d', e')"
  shows "link_reach d d'"
proof (cases "d' = d")
  case False
  then obtain b where "state d = DC_CONNECTED \<or> state d = DC_TRANSMITTING" "extractionBufferSize d = 0"
    "n \<noteq> 0" "buf_copy (extractionBuffer d) (scratchpadBuffer d) n = Some b"
    "d' = d\<lparr>extractionBufferSize := int16_of_size n, extractionComplete := True,
            extractionBuffer := b, recv_number := (recv_number d + 1) mod 8\<rparr>"
    using assms
    by (auto simp: handle_data_def bind_eq_Some_conv case_prod_beta Let_def split: if_splits)
  then show ?thesis by (metis link_reach_step link_step.data)
qed simp

lemma handle_frame_reach:
  assumes "handle_frame env c n d e = Some (ok, d', e')"
  shows "link_reach d d'"
proof (cases "frame c")
  case YAHDLC_FRAME_DATA
  then show ?thesis using assms handle_data_reach by (simp add: handle_frame_def)
next
  case YAHDLC_FRAME_ACK
  then have "d' = d \<or> link_step d EvAck d'"
    using assms
    by (auto simp: handle_frame_def handle_ack_def signal_waiter_def case_prod_beta
        intro: link_step.ack split: if_splits)
  then show ?thesis using link_reach_step by auto
next
  case YAHDLC_FRAME_NACK
  then have "d' = d \<or> link_step d EvNack d'"
    using assms
    by (auto simp: handle_frame_def handle_nack_def signal_waiter_def case_prod_beta
        intro: link_step.nack split: if_splits)
  then show ?thesis using link_reach_step by auto
next
  case YAHDLC_FRAME_CONN
  then have "d' = d \<or> d' = conn_effect d"
    using assms by (auto simp: handle_frame_def dest: handle_conn_effect)
  then show ?thesis using link_reach_step [OF link_step.conn] by auto
next
  case YAHDLC_FRAME_CONN_ACK
  then have "d' = d \<or> link_step d EvConnAck d'"
    using assms
    by (auto simp: handle_frame_def handle_conn_ack_def signal_waiter_def case_prod_beta
        intro: link_step.conn_ack split: if_splits)
  then show ?thesis using link_reach_step by auto
qed

interpretation reach: rx_invariant env "\<lambda>d e. link_reach d0 d"
  for env :: "'e dcl2_env" and d0 :: DeadcomL2
  by unfold_locales
    (blast intro: link_reach_trans link_reach_step link_step.octet link_step.restart
      handle_frame_reach)+

lemma dcProcessData_reach:
  assumes "link_ready d" and "dcProcessData env (Some d) data len e = Some (r, Some d', e')"
  shows "link_reach d d'"
proof (cases "data = None \<or> len = 0 \<or> \<not> fst (mutexLock env (mutex_p d) e)")
  case True
  then show ?thesis
    using assms(2) by (auto simp: dcProcessData_def case_prod_beta Let_def split: if_splits)
next
  case False
  then obtain bytes ok d1 e1 where "rx_bytes env d (snd (mutexLock env (mutex_p d) e)) bytes
      = Some (ok, d1, e1)" and "d' = d1"
    using assms
    by (auto simp: dcProcessData_def case_prod_beta bind_eq_Some_conv process_loop_is_rx_bytes
        leave_def Let_def split: if_splits)
  then show ?thesis using reach.rx_bytes_keeps [OF _ link_reach_refl] by simp
qed

section \<open>The upper-layer operations\<close>

text \<open>
  While an operation waits, other threads run operations on the same link; the object
  they leave behind is reached by a run.
\<close>

definition waits_run :: "'e dcl2_env \<Rightarrow> bool" where
  "waits_run env \<longleftrightarrow>
     (\<forall>p ms t d e. link_reach d (fst (snd (snd (condvarWait env p ms t d e)))))"

lemma waits_runD: "waits_run env \<Longrightarrow> condvarWait env p ms t d e = (w, t', d', e') \<Longrightarrow> link_reach d d'"
  unfolding waits_run_def by (metis fst_conv snd_conv)

lemma leave_Some: "leave env r d e = Some (r', d', e') \<Longrightarrow> d' = Some d"
  by (auto simp: leave_def Let_def case_prod_beta)

lemma dcDisconnect_reach:
  assumes "dcDisconnect env (Some d) e = Some (r, Some d', e')"
  shows "link_reach d d'"
proof -
  have "d' = d \<or> link_step d EvDisconnect d'"
    using assms
    by (auto simp: dcDisconnect_def case_prod_beta Let_def intro: link_step.disconnect
        dest!: leave_Some split: if_splits)
  then show ?thesis using link_reach_step by auto
qed

lemma connect_finish_reach:
  assumes "connect_finish env w t d e = Some (r, Some d', e')"
  shows "link_reach d d'"
proof (cases "w \<and> \<not> t")
  case False
  then have "d' = d\<lparr>state := DC_DISCONNECTED\<rparr>"
    using assms by (auto simp: connect_finish_def dest!: leave_Some split: if_splits)
  then show ?thesis using link_reach_step [OF link_step.connect_fail] by simp
next
  case True
  let ?d = "(resetLink d)\<lparr>state := DC_CONNECTED\<rparr>"
  obtain u e1 where "mutexUnlock env (mutex_p ?d) e = (u, e1)" by fastforce
  then have "d' = ?d \<or> d' = ?d\<lparr>state := DC_DISCONNECTED\<rparr>"
    using assms True by (auto simp: connect_finish_def Let_def split: if_splits)
  moreover have "link_reach d ?d" by (rule link_reach_step [OF link_step.connected])
  ultimately show ?thesis
    using link_reach_step [OF link_step.connect_fail [of ?d]] link_reach_trans by metis
qed

lemma dcConnect_reach:
  assumes "waits_run env" and "dcConnect env (Some d) e = Some (r, Some d', e')"
  shows "link_reach d d'"
proof (cases "d' = d")
  case False
  let ?d = "d\<lparr>state := DC_CONNECTING\<rparr>"
  obtain l e1 where l: "mutexLock env (mutex_p d) e = (l, e1)" by fastforce
  obtain x e2 where x: "transmitBytes env (frame_bytes conn_control [])
      (transmission_context_p d) e1 = (x, e2)" by fastforce
  obtain w t' d1 e3 where w: "condvarWait env (condvar_p d) DEADCOM_CONN_TIMEOUT_MS (Some False)
      ?d e2 = (w, t', d1, e3)" using prod_cases4 by blast
  have st: "l \<and> state d \<noteq> DC_CONNECTED \<and> state d \<noteq> DC_CONNECTING"
    using assms(2) False l by (auto simp: dcConnect_def dest!: leave_Some split: if_splits)
  then have begin_step: "link_reach d ?d"
    by (intro link_reach_step [OF link_step.connect_begin]) (cases "state d"; simp)
  show ?thesis
  proof (cases x)
    case False
    then have "d' = ?d\<lparr>state := DC_DISCONNECTED\<rparr>"
      using assms(2) l x st by (auto simp: dcConnect_def build_conn dest!: leave_Some)
    then have "link_reach ?d d'"
      using link_reach_step [OF link_step.connect_fail [of ?d]] by simp
    then show ?thesis using link_reach_trans [OF begin_step] by simp
  next
    case True
    then obtain y z where "connect_finish env y z d1 e3 = Some (r, Some d', e')"
      using assms(2) l x w st
      by (auto simp: dcConnect_def build_conn bind_eq_Some_conv split: if_splits)
    then have "link_reach d1 d'" by (rule connect_finish_reach)
    then show ?thesis
      using begin_step waits_runD [OF assms(1) w] link_reach_trans by blast
  qed
qed simp

lemma send_check_reach:
  assumes "send_check t d = (x, d')"
  shows "link_reach d d' \<and> (x = Some SendAcked \<longrightarrow> last_response d' = DC_RESP_OK) \<and> x \<noteq> Some SendFailed"
  using assms link_reach_step [OF link_step.retry [of d]]
  by (auto simp: send_check_def split: if_splits)

text \<open>Induction over the iterations of the retransmission loop.\<close>

lemma send_loop_induct [consumes 1, case_names exhausted transmit_failed wait_failed decided again]:
  assumes "send_loop env f d e = Some (x, d', e')"
    and exhausted: "\<And>d e. \<not> failure_count d < DEADCOM_MAX_FAILURE_COUNT \<Longrightarrow> P d e SendDropped d e"
    and transmit_failed: "\<And>d e e1. failure_count d < DEADCOM_MAX_FAILURE_COUNT \<Longrightarrow>
        transmitBytes env f (transmission_context_p d) e = (False, e1) \<Longrightarrow>
        P d e SendFailed (send_rollback d) e1"
    and wait_failed: "\<And>d e e1 t d1 e2. failure_count d < DEADCOM_MAX_FAILURE_COUNT \<Longrightarrow>
        transmitBytes env f (transmission_context_p d) e = (True, e1) \<Longrightarrow>
        condvarWait env (condvar_p d) DEADCOM_ACK_TIMEOUT_MS None d e1 = (False, t, d1, e2) \<Longrightarrow>
        P d e SendFailed (send_rollback d1) e2"
    and decided: "\<And>d e e1 t d1 e2 y d2. failure_count d < DEADCOM_MAX_FAILURE_COUNT \<Longrightarrow>
        transmitBytes env f (transmission_context_p d) e = (True, e1) \<Longrightarrow>
        condvarWait env (condvar_p d) DEADCOM_ACK_TIMEOUT_MS None d e1 = (True, Some t, d1, e2) \<Longrightarrow>
        send_check t d1 = (Some y, d2) \<Longrightarrow> P d e y d2 e2"
    and again: "\<And>d e e1 t d1 e2 d2 y d' e'. failure_count d < DEADCOM_MAX_FAILURE_COUNT \<Longrightarrow>
        transmitBytes env f (transmission_context_p d) e = (True, e1) \<Longrightarrow>
        condvarWait env (condvar_p d) DEADCOM_ACK_TIMEOUT_MS None d e1 = (True, Some t, d1, e2) \<Longrightarrow>
        send_check t d1 = (None, d2) \<Longrightarrow> P d2 e2 y d' e' \<Longrightarrow> P d e y d' e'"
  shows "P d e x d' e'"
proof -
  let ?Q = "\<lambda>env' f' d e y. env' = env \<longrightarrow> f' = f \<longrightarrow> P d e (fst y) (fst (snd y)) (snd (snd y))"
  have "?Q env f d e (x, d', e')"
  proof (rule send_loop.raw_induct [of ?Q, OF _ assms(1)], intro impI)
    fix loop env' f' and d :: DeadcomL2 and e y
    assume IH: "\<And>env' f' d e y. loop env' f' d e = Some y \<Longrightarrow> ?Q env' f' d e y"
      and body: "(if failure_count d < DEADCOM_MAX_FAILURE_COUNT
        then let (x, e) = transmitBytes env' f' (transmission_context_p d) e
             in if \<not> x then Some (SendFailed, send_rollback d, e)
                else let (w, timed_out, d, e) =
                           condvarWait env' (condvar_p d) DEADCOM_ACK_TIMEOUT_MS None d e
                     in if \<not> w then Some (SendFailed, send_rollback d, e)
                        else case timed_out of None \<Rightarrow> None
                             | Some timed_out \<Rightarrow>
                                 case send_check timed_out d of
                                   (None, d) \<Rightarrow> loop env' f' d e
                                 | (Some r, d) \<Rightarrow> Some (r, d, e)
        else Some (SendDropped, d, e)) = Some y"
      and eqs: "env' = env" "f' = f"
    obtain u e1 where u: "transmitBytes env f (transmission_context_p d) e = (u, e1)" by fastforce
    obtain w t d1 e2 where w: "condvarWait env (condvar_p d) DEADCOM_ACK_TIMEOUT_MS None d e1
        = (w, t, d1, e2)" using prod_cases4 by blast
    show "P d e (fst y) (fst (snd y)) (snd (snd y))"
    proof (cases "failure_count d < DEADCOM_MAX_FAILURE_COUNT \<and> u \<and> w")
      case False
      then show ?thesis
        using body eqs u w exhausted transmit_failed wait_failed by (auto split: if_splits)
    next
      case True
      then obtain b where b: "t = Some b" using body eqs u w by (cases t) auto
      obtain z d2 where z: "send_check b d1 = (z, d2)" by fastforce
      show ?thesis
        using True body eqs u w b z decided again [of d e e1 b d1 e2 d2] IH [of env f d2 e2 y]
        by (cases z) auto
    qed
  qed
  then show ?thesis by simp
qed

lemma send_loop_reach:
  assumes "waits_run env" and "send_loop env f d e = Some (x, d', e')"
  shows "link_reach d d' \<and> (x = SendAcked \<longrightarrow> last_response d' = DC_RESP_OK)"
  using assms(2)
proof (induction rule: send_loop_induct)
  case (exhausted d e)
  then show ?case by simp
next
  case (transmit_failed d e e1)
  then show ?case using link_reach_step [OF link_step.rollback] by simp
next
  case (wait_failed d e e1 t d1 e2)
  then show ?case
    using waits_runD [OF assms(1)] link_reach_step [OF link_step.rollback] link_reach_trans
    by (metis send_exit.distinct(1))
next
  case (decided d e e1 t d1 e2 y d2)
  then show ?case
    using waits_runD [OF assms(1)] send_check_reach link_reach_trans by metis
next
  case (again d e e1 t d1 e2 d2 y d' e')
  then show ?case
    using waits_runD [OF assms(1)] send_check_reach link_reach_trans by metis
qed

lemma send_fields_commute [simp]:
  "d\<lparr>send_number := x, state := s, failure_count := c\<rparr> =
   d\<lparr>send_number := x, failure_count := c, state := s\<rparr>"
  by (cases d) simp

lemma dcSendMessage_reach:
  assumes "waits_run env" and "dcSendMessage env (Some d) m n e = Some (r, Some d', e')"
  shows "link_reach d d'"
proof (cases "d' = d")
  case False
  let ?d = "d\<lparr>send_number := (send_number d + 1) mod 8, failure_count := 0, state := DC_TRANSMITTING\<rparr>"
  obtain l e1 where l: "mutexLock env (mutex_p d) e = (l, e1)" by fastforce
  have st: "m \<noteq> None \<and> n \<noteq> 0 \<and> \<not> DEADCOM_PAYLOAD_MAX_LEN < n \<and> l \<and> state d = DC_CONNECTED"
    using assms(2) False l by (auto simp: dcSendMessage_def dest!: leave_Some split: if_splits)
  then have begin_step: "link_reach d ?d"
    by (intro link_reach_step [OF link_step.send_begin]) simp
  obtain s f where f: "build_frame (data_control d) m n = Some (s, f)"
    using assms(2) l st by (auto simp: dcSendMessage_def Let_def bind_eq_Some_conv)
  show ?thesis
  proof (cases "s = Inl EINVAL")
    case True
    then have "d' = ?d"
      using assms(2) l st f by (auto simp: dcSendMessage_def Let_def dest!: leave_Some)
    then show ?thesis using begin_step by simp
  next
    case False
    then obtain x d1 e2 where loop: "send_loop env f ?d e1 = Some (x, d1, e2)"
      and exit: "(case x of SendFailed \<Rightarrow> leave env DC_FAILURE d1 e2
          | SendAcked \<Rightarrow> leave env DC_OK (d1\<lparr>state := DC_CONNECTED\<rparr>) e2
          | SendDropped \<Rightarrow> leave env DC_LINK_RESET (resetLink d1) e2) = Some (r, Some d', e')"
      using assms(2) l st f by (auto simp: dcSendMessage_def Let_def bind_eq_Some_conv)
    have "link_reach ?d d1 \<and> (x = SendAcked \<longrightarrow> last_response d1 = DC_RESP_OK)"
      by (rule send_loop_reach [OF assms(1) loop])
    moreover have "link_reach d1 d'" if "x = SendAcked \<longrightarrow> last_response d1 = DC_RESP_OK"
      using exit that link_reach_step [OF link_step.acked] link_reach_step [OF link_step.reset]
      by (cases x) (auto dest!: leave_Some)
    ultimately show ?thesis using begin_step link_reach_trans by blast
  qed
qed simp

lemma dcGetReceivedMsg_reach:
  assumes "dcGetReceivedMsg env (Some d) b n e = Some (r, b', n', Some d', e')"
  shows "link_reach d d'"
proof (cases "d' = d")
  case False
  obtain l e1 where l: "mutexLock env (mutex_p d) e = (l, e1)" by fastforce
  have "link_step d EvTake d'"
    using assms False l
    by (auto simp: dcGetReceivedMsg_def Let_def case_prod_beta bind_eq_Some_conv link_step_take
        split: option.splits if_splits)
  then show ?thesis by (rule link_reach_step)
qed simp

lemma dcInit_inv:
  assumes "dcInit env (Some d0) m c t x ctx e = (DC_OK, Some d, e')"
  shows "link_inv d"
proof -
  have "parser_inv (reset_state DEADCOM_MAX_FRAME_LEN)" by (rule parser_inv_reset)
  then show ?thesis
    using assms
    by (auto simp: dcInit_def Let_def case_prod_beta link_inv_def resetLink_def dc_zero_def
        split: if_splits)
qed

section \<open>All operations\<close>

text \<open>A call of one of the operations on an initialised link.\<close>

datatype api_call =
    Connect
  | Disconnect
  | Send "byte list option" nat
  | Receive "byte list option" "nat option"
  | Process "byte list option" nat

fun api_run :: "'e dcl2_env \<Rightarrow> api_call \<Rightarrow> DeadcomL2 \<Rightarrow> 'e \<Rightarrow> (DeadcomL2Result \<times> DeadcomL2 \<times> 'e) option" where
  "api_run env Connect d e = map_option (\<lambda>(r, d, e). (r, the d, e)) (dcConnect env (Some d) e)"
| "api_run env Disconnect d e = map_option (\<lambda>(r, d, e). (r, the d, e)) (dcDisconnect env (Some d) e)"
| "api_run env (Send m n) d e =
     map_option (\<lambda>(r, d, e). (r, the d, e)) (dcSendMessage env (Some d) m n e)"
| "api_run env (Receive b n) d e =
     map_option (\<lambda>(r, _, _, d, e). (r, the d, e)) (dcGetReceivedMsg env (Some d) b n e)"
| "api_run env (Process b n) d e =
     map_option (\<lambda>(r, d, e). (r, the d, e)) (dcProcessData env (Some d) b n e)"

text \<open>No operation loses the object it was given.\<close>

lemma leave_object: "leave env r d e = Some (r', d', e') \<Longrightarrow> d' \<noteq> None"
  by (auto dest: leave_Some)

lemma api_run_object:
  "dcConnect env (Some d) e = Some (r, d', e') \<Longrightarrow> d' \<noteq> None"
  "dcDisconnect env (Some d) e = Some (r, d', e') \<Longrightarrow> d' \<noteq> None"
  "dcSendMessage env (Some d) m n e = Some (r, d', e') \<Longrightarrow> d' \<noteq> None"
  "dcProcessData env (Some d) m n e = Some (r, d', e') \<Longrightarrow> d' \<noteq> None"
  by (auto simp: dcConnect_def dcDisconnect_def dcSendMessage_def dcProcessData_def Let_def
      connect_finish_def bind_eq_Some_conv case_prod_beta dest: leave_object
      split: if_splits send_exit.splits) (metis send_exit.exhaust)

lemma dcGetReceivedMsg_object:
  "dcGetReceivedMsg env (Some d) b n e = Some (r, b', n', d', e') \<Longrightarrow> d' \<noteq> None"
  by (auto simp: dcGetReceivedMsg_def Let_def bind_eq_Some_conv case_prod_beta
      split: if_splits option.splits)

lemma api_run_reach:
  assumes "waits_run env" "link_ready d" "api_run env call d e = Some (r, d', e')"
  shows "link_reach d d'"
proof (cases call)
  case Connect
  then show ?thesis using assms dcConnect_reach api_run_object(1) by fastforce
next
  case Disconnect
  then show ?thesis using assms dcDisconnect_reach api_run_object(2) by fastforce
next
  case (Send m n)
  then show ?thesis using assms dcSendMessage_reach api_run_object(3) by fastforce
next
  case (Receive b n)
  then show ?thesis using assms dcGetReceivedMsg_reach dcGetReceivedMsg_object by fastforce
next
  case (Process b n)
  then show ?thesis using assms dcProcessData_reach api_run_object(4) by fastforce
qed

section \<open>A pending message\<close>

text \<open>\<open>b\<close> holds a message of length \<open>n\<close> that has not been picked up.\<close>

definition pending_message :: "byte list \<Rightarrow> 16 word \<Rightarrow> DeadcomL2 \<Rightarrow> bool" where
  "pending_message b n d \<longleftrightarrow>
     extractionComplete d \<and> extractionBufferSize d = n \<and> n \<noteq> 0 \<and> extractionBuffer d = b"

text \<open>
  \<open>J\<close> tells of the environment that no CONN request has been answered: no callback makes up for
  an answer, transmitting a CONN ACK is one, and what the other threads do to the link while a
  thread waits keeps the message as long as \<open>J\<close> holds.
\<close>

definition no_answer :: "'e dcl2_env \<Rightarrow> ('e \<Rightarrow> bool) \<Rightarrow> bool" where
  "no_answer env J \<longleftrightarrow>
     (\<forall>b p e x e'. transmitBytes env b p e = (x, e') \<longrightarrow> J e' \<longrightarrow>
        J e \<and> \<not> (x \<and> b = frame_bytes conn_ack_control [])) \<and>
     (\<forall>p e y e'. condvarSignal env p e = (y, e') \<longrightarrow> J e' \<longrightarrow> J e) \<and>
     (\<forall>p ms t d e w t' d' e' b n. condvarWait env p ms t d e = (w, t', d', e') \<longrightarrow> J e' \<longrightarrow>
        J e \<and> (pending_message b n d \<longrightarrow> pending_message b n d'))"

lemma no_answerD:
  assumes "no_answer env J"
  shows "transmitBytes env b p e = (x, e') \<Longrightarrow> J e' \<Longrightarrow> J e"
    and "transmitBytes env (frame_bytes conn_ack_control []) p e = (True, e') \<Longrightarrow> \<not> J e'"
    and "condvarSignal env p e = (y, e') \<Longrightarrow> J e' \<Longrightarrow> J e"
    and "condvarWait env p ms t d e = (w, t', d', e') \<Longrightarrow> J e' \<Longrightarrow> J e"
    and "condvarWait env p ms t d e = (w, t', d', e') \<Longrightarrow> J e' \<Longrightarrow> pending_message m n d \<Longrightarrow>
      pending_message m n d'"
  using assms unfolding no_answer_def by metis+

text \<open>A handler changes the message only when it answers a CONN request.\<close>

lemma pending_size: "pending_message b n d \<Longrightarrow> extractionBufferSize d \<noteq> 0"
  by (auto simp: pending_message_def)

lemma signal_waiter_keeps:
  assumes "no_answer env J" "signal_waiter env d e = Some (ok, d', e')" "J e'"
  shows "d' = d \<and> J e"
  using assms no_answerD(3) [OF assms(1)] by (auto simp: signal_waiter_def split: prod.splits if_splits)

lemma handle_data_keeps:
  assumes "no_answer env J" "handle_data env c k d e = Some (ok, d', e')" "J e'"
  shows "J e \<and> (pending_message b n d \<longrightarrow> pending_message b n d')"
proof -
  obtain x e1 where x: "transmitBytes env (frame_bytes (ack_control d) []) (transmission_context_p d) e
      = (x, e1)" by (rule prod.exhaust)
  have ack: "build_frame (ack_control d) None 0 = Some (Inr 0, frame_bytes (ack_control d) [])"
    by (rule build_control) (simp add: ack_control_def)
  show ?thesis
    using assms(2,3) x no_answerD(1) [OF assms(1) x] pending_size [of b n d]
    by (auto simp: handle_data_def Let_def bind_eq_Some_conv ack split: if_splits)
qed

lemma handle_conn_answers:
  assumes "no_answer env J" "handle_conn env d e = Some (ok, d', e')" "J e'"
  shows "J e \<and> d' = d"
proof -
  have b: "build_frame conn_ack_control None 0 = Some (Inr 0, frame_bytes conn_ack_control [])"
    by (rule build_control) (simp add: conn_ack_control_def)
  obtain x e1 where x: "transmitBytes env (frame_bytes conn_ack_control []) (transmission_context_p d) e
      = (x, e1)" by (rule prod.exhaust)
  have "\<not> x"
  proof
    assume x1: "x"
    then have "J e1"
      using assms(2,3) x signal_waiter_keeps [OF assms(1)]
      by (auto simp: handle_conn_def b Let_def split: if_splits)
    then show False using no_answerD(2) [OF assms(1)] x x1 by simp
  qed
  then show ?thesis
    using assms(2,3) x no_answerD(1) [OF assms(1) x] by (simp add: handle_conn_def b)
qed

lemma handle_frame_pending:
  assumes "no_answer env J" "handle_frame env c k d e = Some (ok, d', e')" "J e'"
  shows "J e \<and> (pending_message b n d \<longrightarrow> pending_message b n d')"
proof (cases "frame c")
  case YAHDLC_FRAME_DATA
  then show ?thesis using assms handle_data_keeps by (simp add: handle_frame_def)
next
  case YAHDLC_FRAME_ACK
  then show ?thesis
    using assms(2,3) signal_waiter_keeps [OF assms(1)]
    by (force simp: handle_frame_def handle_ack_def pending_message_def split: if_splits)
next
  case YAHDLC_FRAME_NACK
  then show ?thesis
    using assms(2,3) signal_waiter_keeps [OF assms(1)]
    by (force simp: handle_frame_def handle_nack_def pending_message_def split: if_splits)
next
  case YAHDLC_FRAME_CONN
  then have "handle_conn env d e = Some (ok, d', e')" using assms(2) by (simp add: handle_frame_def)
  then show ?thesis using handle_conn_answers [OF assms(1) _ assms(3)] by blast
next
  case YAHDLC_FRAME_CONN_ACK
  then show ?thesis
    using assms(2,3) signal_waiter_keeps [OF assms(1)]
    by (force simp: handle_frame_def handle_conn_ack_def pending_message_def split: if_splits)
qed

interpretation pending: rx_invariant env "\<lambda>d e. no_answer env J \<longrightarrow> J e \<longrightarrow> pending_message b n d"
  for env :: "'e dcl2_env" and J b n
proof unfold_locales
  fix d d' :: DeadcomL2 and e e' :: 'e and c k ok
  assume "no_answer env J \<longrightarrow> J e \<longrightarrow> pending_message b n d"
    and "handle_frame env c k d e = Some (ok, d', e')"
  then show "no_answer env J \<longrightarrow> J e' \<longrightarrow> pending_message b n d'"
    using handle_frame_pending [of env J c k d e ok d' e' b n] by blast
qed (auto simp: pending_message_def)

text \<open>Sequence numbers count events modulo eight.\<close>

lemma mod8_add: "((x :: byte) mod 8 + y) mod 8 = (x + y) mod 8"
proof -
  have "(n mod 256) mod 8 = n mod 8" for n :: nat
    by (rule mod_mod_cancel) simp
  then show ?thesis
    by (simp add: word_unat_eq_iff unat_mod unat_word_ariths mod_add_left_eq)
qed

lemma mod8_small: "x < 8 \<Longrightarrow> (x :: byte) mod 8 = x"
  by (simp add: word_less_nat_alt word_unat_eq_iff unat_mod)

text \<open>The operations, on the same terms.\<close>

lemma dcProcessData_keeps:
  assumes "no_answer env J" "mutex_ok env" "link_ready d" "pending_message b n d"
    and "dcProcessData env (Some d) (Some data) k e = Some (r, Some d', e')" "J e'"
  shows "pending_message b n d'"
proof (cases "k = 0")
  case True
  then show ?thesis using assms(4,5) by (simp add: dcProcessData_def)
next
  case False
  then obtain bytes ok e1 where "rx_bytes env d e bytes = Some (ok, d', e')"
    using assms(2,3,5)
    by (auto simp: dcProcessData_def bind_eq_Some_conv process_loop_is_rx_bytes leave_def)
  then show ?thesis using pending.rx_bytes_keeps [of env d e bytes ok d' e' J b n] assms(1,4,6) by blast
qed

lemma send_rollback_keeps: "pending_message b n (send_rollback d) = pending_message b n d"
  by (simp add: pending_message_def send_rollback_def)

lemma send_check_keeps:
  "send_check t d = (x, d') \<Longrightarrow> pending_message b n d' = pending_message b n d"
  by (auto simp: pending_message_def send_check_def split: if_splits)

lemma send_loop_keeps_pending:
  assumes "no_answer env J" "send_loop env f d e = Some (x, d', e')"
  shows "J e' \<Longrightarrow> J e \<and> (pending_message b n d \<longrightarrow> pending_message b n d')"
  using assms(2)
proof (induction rule: send_loop_induct)
  case (transmit_failed d e e1)
  then show ?case using no_answerD(1) [OF assms(1)] send_rollback_keeps by blast
next
  case (wait_failed d e e1 t d1 e2)
  then show ?case
    using no_answerD(1,4,5) [OF assms(1)] send_rollback_keeps by metis
next
  case (decided d e e1 t d1 e2 y d2)
  then show ?case using no_answerD(1,4,5) [OF assms(1)] send_check_keeps by metis
next
  case (again d e e1 t d1 e2 d2 y d' e')
  then show ?case using no_answerD(1,4,5) [OF assms(1)] send_check_keeps by metis
qed simp

lemma pending_state [simp]:
  "pending_message b n (d\<lparr>state := st\<rparr>) = pending_message b n d"
  by (simp add: pending_message_def)

lemma leave_ok_eq: "mutex_ok env \<Longrightarrow> leave env r d e = Some (r', d', e') \<longleftrightarrow> r' = r \<and> d' = Some d \<and> e' = e"
  by (auto simp: leave_def)

lemma dcSendMessage_keeps:
  assumes "no_answer env J" "mutex_ok env" "pending_message b n d"
    and "dcSendMessage env (Some d) m k e = Some (r, Some d', e')" "J e'" "r \<noteq> DC_LINK_RESET"
  shows "pending_message b n d'"
proof (cases "m = None \<or> k = 0 \<or> DEADCOM_PAYLOAD_MAX_LEN < k \<or> state d \<noteq> DC_CONNECTED")
  case True
  then show ?thesis
    using assms(2-4) by (auto simp: dcSendMessage_def leave_ok_eq split: if_splits)
next
  case False
  let ?d = "d\<lparr>send_number := (send_number d + 1) mod 8, failure_count := 0, state := DC_TRANSMITTING\<rparr>"
  have d: "pending_message b n ?d" using assms(3) by (simp add: pending_message_def)
  obtain s f where f: "build_frame (data_control d) m k = Some (s, f)"
    using assms(2,4) False by (auto simp: dcSendMessage_def Let_def bind_eq_Some_conv)
  show ?thesis
  proof (cases "s = Inl EINVAL")
    case True
    then show ?thesis
      using assms(2,4) False f d by (auto simp: dcSendMessage_def Let_def leave_ok_eq)
  next
    case ok: False
    then obtain x d1 e1 where loop: "send_loop env f ?d e = Some (x, d1, e1)"
      and exit: "(case x of SendFailed \<Rightarrow> leave env DC_FAILURE d1 e1
          | SendAcked \<Rightarrow> leave env DC_OK (d1\<lparr>state := DC_CONNECTED\<rparr>) e1
          | SendDropped \<Rightarrow> leave env DC_LINK_RESET (resetLink d1) e1) = Some (r, Some d', e')"
      using assms(2,4) False f by (auto simp: dcSendMessage_def Let_def bind_eq_Some_conv)
    then have "e1 = e'" and "x \<noteq> SendDropped" "d' = d1 \<or> d' = d1\<lparr>state := DC_CONNECTED\<rparr>"
      using assms(6) by (auto simp: leave_ok_eq [OF assms(2)] split: send_exit.splits)
    then show ?thesis
      using send_loop_keeps_pending [OF assms(1) loop, of b n] assms(5) d by auto
  qed
qed

lemma dcConnect_keeps:
  assumes "no_answer env J" "mutex_ok env" "pending_message b n d"
    and "dcConnect env (Some d) e = Some (r, Some d', e')" "J e'" "r \<noteq> DC_OK \<or> state d = DC_CONNECTED"
  shows "pending_message b n d'"
proof (cases "state d = DC_CONNECTED \<or> state d = DC_CONNECTING")
  case True
  then show ?thesis using assms(2-4) by (auto simp: dcConnect_def leave_ok_eq split: if_splits)
next
  case False
  let ?d = "d\<lparr>state := DC_CONNECTING\<rparr>"
  obtain x e1 where x: "transmitBytes env (frame_bytes conn_control []) (transmission_context_p d) e
      = (x, e1)" by (rule prod.exhaust)
  obtain w t d1 e2 where w: "condvarWait env (condvar_p d) DEADCOM_CONN_TIMEOUT_MS (Some False) ?d e1
      = (w, t, d1, e2)" by (rule prod_cases4)
  show ?thesis
  proof (cases x)
    case False
    then show ?thesis
      using assms(2-4) x \<open>\<not> (state d = DC_CONNECTED \<or> state d = DC_CONNECTING)\<close>
      by (auto simp: dcConnect_def build_conn leave_ok_eq)
  next
    case True
    then have "e' = e2 \<and> d' = d1\<lparr>state := DC_DISCONNECTED\<rparr>"
      using assms(2,4,6) x w False
      by (auto simp: dcConnect_def build_conn connect_finish_def leave_ok_eq bind_eq_Some_conv Let_def
          split: if_splits)
    then show ?thesis
      using no_answerD(5) [OF assms(1) w, of b n] assms(3,5) by simp
  qed
qed

lemma dcGetReceivedMsg_keeps:
  assumes "no_answer env J" "mutex_ok env" "pending_message b n d"
    and "dcGetReceivedMsg env (Some d) buf k e = Some (r, buf', k', Some d', e')"
    and "buf = None \<or> r \<noteq> DC_OK"
  shows "pending_message b n d'"
  using assms(2-5)
  by (auto simp: dcGetReceivedMsg_def Let_def case_prod_beta bind_eq_Some_conv pending_message_def
      split: if_splits option.splits)

text \<open>Which result of a call says that the message may be gone.\<close>

fun may_discard :: "api_call \<Rightarrow> DeadcomL2 \<Rightarrow> DeadcomL2Result \<Rightarrow> bool" where
  "may_discard Connect d r \<longleftrightarrow> r = DC_OK \<and> state d \<noteq> DC_CONNECTED"
| "may_discard Disconnect d r \<longleftrightarrow> False"
| "may_discard (Send m k) d r \<longleftrightarrow> r = DC_LINK_RESET"
| "may_discard (Receive buf k) d r \<longleftrightarrow> r = DC_OK \<and> buf \<noteq> None"
| "may_discard (Process data k) d r \<longleftrightarrow> False"

lemma api_run_keeps_pending:
  assumes "no_answer env J" "mutex_ok env" "link_ready d" "pending_message b n d"
    and "api_run env call d e = Some (r, d', e')" "J e'" "\<not> may_discard call d r"
  shows "pending_message b n d'"
proof (cases call)
  case Connect
  then obtain d1 where c: "dcConnect env (Some d) e = Some (r, d1, e')" "d' = the d1"
    using assms(5) by auto
  then have "d1 = Some d'" using api_run_object(1) [OF c(1)] by auto
  then have "dcConnect env (Some d) e = Some (r, Some d', e')" "r \<noteq> DC_OK \<or> state d = DC_CONNECTED"
    using c(1) assms(7) Connect by simp_all
  then show ?thesis using dcConnect_keeps [OF assms(1,2,4) _ assms(6)] by blast
next
  case Disconnect
  then show ?thesis using assms(2,4,5) by (auto simp: dcDisconnect_def leave_ok_eq split: if_splits)
next
  case (Send m k)
  then obtain d1 where c: "dcSendMessage env (Some d) m k e = Some (r, d1, e')" "d' = the d1"
    using assms(5) by auto
  then have "d1 = Some d'" using api_run_object(3) [OF c(1)] by auto
  then have "dcSendMessage env (Some d) m k e = Some (r, Some d', e')" "r \<noteq> DC_LINK_RESET"
    using c(1) assms(7) Send by simp_all
  then show ?thesis using dcSendMessage_keeps [OF assms(1,2,4) _ assms(6)] by blast
next
  case (Receive buf k)
  then obtain buf' k' d1 where c: "dcGetReceivedMsg env (Some d) buf k e = Some (r, buf', k', d1, e')"
      "d' = the d1"
    using assms(5) by auto
  then have "d1 = Some d'" using dcGetReceivedMsg_object [OF c(1)] by auto
  then have "dcGetReceivedMsg env (Some d) buf k e = Some (r, buf', k', Some d', e')" "buf = None \<or> r \<noteq> DC_OK"
    using c(1) assms(7) Receive by auto
  then show ?thesis by (rule dcGetReceivedMsg_keeps [OF assms(1,2,4)])
next
  case (Process data k)
  then obtain d1 where c: "dcProcessData env (Some d) data k e = Some (r, d1, e')" "d' = the d1"
    using assms(5) by auto
  then have d1: "d1 = Some d'" using api_run_object(4) [OF c(1)] by auto
  show ?thesis
  proof (cases data)
    case None
    then have "d' = d" using c(1) d1 by (auto simp: dcProcessData_def)
    then show ?thesis using assms(4) by simp
  next
    case (Some bs)
    then have "dcProcessData env (Some d) (Some bs) k e = Some (r, Some d', e')" using c(1) d1 by simp
    then show ?thesis using dcProcessData_keeps [OF assms(1-4) _ assms(6)] by blast
  qed
qed

section \<open>Properties\<close>

text \<open>
  C10. The operations refine the abstract machine: every call of \<open>dcConnect\<close>,
  \<open>dcDisconnect\<close>, \<open>dcSendMessage\<close>, \<open>dcGetReceivedMsg\<close> and \<open>dcProcessData\<close>, whatever it
  is given, returns (when the C code is defined) with the link object changed by a run
  of elementary steps, the steps of other threads during its waits included, and keeps
  the link invariant: buffers keep their size, sequence numbers stay below eight, the
  parser keeps its bounds, a message is pending exactly while its length is not zero.
\<close>

theorem operations_refine_steps:
  assumes "waits_run env" "link_inv d" "api_run env call d e = Some (r, d', e')"
  shows "(\<exists>evs. link_run d evs d') \<and> link_inv d'"
  using api_run_reach [OF assms(1) link_inv_ready [OF assms(2)] assms(3)]
    inv.reach_keeps [OF _ assms(2)]
  by (auto simp: link_reach_def)

text \<open>A send on a fresh, unconnected link, with an environment whose waits time out.\<close>

theorem operations_refine_steps_witness:
  "\<exists>d. dcInit log_env (Some dc_zero) (Some 1) (Some 2) (Some 3) (Some 4) None [] = (DC_OK, Some d, [])
     \<and> api_run log_env (Send (Some [1]) 1) d [] = Some (DC_NOT_CONNECTED, d, [])
     \<and> (\<exists>evs. link_run d evs d) \<and> link_inv d"
proof -
  obtain d where d: "dcInit log_env (Some dc_zero) (Some 1) (Some 2) (Some 3) (Some 4) None []
      = (DC_OK, Some d, [])" and st: "state d = DC_DISCONNECTED"
    by (simp add: dcInit_def log_env_def resetLink_def)
  have "api_run log_env (Send (Some [1]) 1) d [] = Some (DC_NOT_CONNECTED, d, [])"
    using st by (simp add: dcSendMessage_def log_env_def leave_def DEADCOM_PAYLOAD_MAX_LEN_def)
  moreover have "waits_run log_env" by (simp add: waits_run_def log_env_def)
  moreover note operations_refine_steps [OF this dcInit_inv [OF d] calculation(1)]
  ultimately show ?thesis using d by blast
qed


end
