(* ===== verification/Dcl2_Delivery.thy ===== *)
theory Dcl2_Delivery
  imports Dcl2_Refine
begin

text \<open>
  What \<open>dcProcessData\<close> does with each kind of frame in each state of the link, the
  effect of the operations an application calls, and the inputs for which the code
  stores outside its buffers.
\<close>

section \<open>A link between frames\<close>

definition link_idle :: "DeadcomL2 \<Rightarrow> bool" where
  "link_idle d \<longleftrightarrow> link_inv d \<and> parser_idle DEADCOM_MAX_FRAME_LEN (yahdlc_state d)"

text \<open>The object with the parser's buffers after the frame of \<open>c\<close> and \<open>m\<close>.\<close>

definition after_frame :: "yahdlc_control_t \<Rightarrow> byte list \<Rightarrow> DeadcomL2 \<Rightarrow> DeadcomL2" where
  "after_frame c m d =
     d\<lparr>yahdlc_state := restarted DEADCOM_MAX_FRAME_LEN,
       scratchpadBuffer := filled (scratchpadBuffer d) (frame_body c m)\<rparr>"

lemma after_frame_fields [simp]:
  "state (after_frame c m d) = state d"
  "extractionBuffer (after_frame c m d) = extractionBuffer d"
  "extractionBufferSize (after_frame c m d) = extractionBufferSize d"
  "extractionComplete (after_frame c m d) = extractionComplete d"
  "yahdlc_state (after_frame c m d) = restarted DEADCOM_MAX_FRAME_LEN"
  "scratchpadBuffer (after_frame c m d) = filled (scratchpadBuffer d) (frame_body c m)"
  "send_number (after_frame c m d) = send_number d"
  "next_expected_ack (after_frame c m d) = next_expected_ack d"
  "recv_number (after_frame c m d) = recv_number d"
  "failure_count (after_frame c m d) = failure_count d"
  "last_response (after_frame c m d) = last_response d"
  "mutex_p (after_frame c m d) = mutex_p d"
  "condvar_p (after_frame c m d) = condvar_p d"
  "transmission_context_p (after_frame c m d) = transmission_context_p d"
  by (simp_all add: after_frame_def)

definition fits :: "yahdlc_control_t \<Rightarrow> byte list \<Rightarrow> bool" where
  "fits c m \<longleftrightarrow> length (payload_sent c m) + 2 \<le> DEADCOM_PAYLOAD_MAX_LEN"

lemma fits_control: "frame c \<noteq> YAHDLC_FRAME_DATA \<Longrightarrow> fits c m"
  by (simp add: fits_def payload_sent_def DEADCOM_PAYLOAD_MAX_LEN_def)

lemma link_idle_after_frame:
  assumes "link_idle d" "fits c m"
  shows "link_idle (after_frame c m d)"
  using assms length_filled [of "frame_body c m" "scratchpadBuffer d"]
  by (simp add: link_idle_def link_inv_def parser_idle_def parser_inv_restarted fits_def
      length_frame_body_payload)

text \<open>
  The handler does not look at the parser, so it can be run on the object with the
  parser already restarted.
\<close>

lemma handle_frame_parser:
  "handle_frame env c n (d\<lparr>yahdlc_state := st\<rparr>) e =
     map_option (\<lambda>(ok, d, e). (ok, d\<lparr>yahdlc_state := st\<rparr>, e)) (handle_frame env c n d e)"
  by (cases "frame c")
    (auto simp: handle_frame_def handler_defs Let_def ack_control_def case_prod_beta
      option_bind_simps option_bind_map intro!: arg_cong [where f = "Option.bind x" for x])

lemma handle_frame_after:
  "handle_frame env k n (d\<lparr>yahdlc_state := reset_state mx, scratchpadBuffer := b\<rparr>) e =
     map_option (\<lambda>(ok, d, e). (ok, d\<lparr>yahdlc_state := reset_state mx\<rparr>, e))
       (handle_frame env k n (d\<lparr>yahdlc_state := restarted mx, scratchpadBuffer := b\<rparr>) e)"
proof -
  have "d\<lparr>yahdlc_state := reset_state mx, scratchpadBuffer := b\<rparr> =
      (d\<lparr>yahdlc_state := restarted mx, scratchpadBuffer := b\<rparr>)\<lparr>yahdlc_state := reset_state mx\<rparr>"
    by (cases d) simp
  then show ?thesis by (simp only: handle_frame_parser)
qed

lemma parser_fields_same: "yahdlc_state d = st \<Longrightarrow> d\<lparr>yahdlc_state := st\<rparr> = d"
  by (cases d) simp

lemma process_frame:
  assumes "mutex_ok env" "link_idle d" "fits c m"
  shows "dcProcessData env (Some d) (Some (frame_bytes c m)) (length (frame_bytes c m)) e =
    (case handle_frame env (control_carried c) (length (payload_sent c m)) (after_frame c m d) e of
       None \<Rightarrow> None
     | Some (ok, d', e') \<Rightarrow>
         if ok then Some (DC_OK, Some d', e')
         else Some (DC_FAILURE, Some (d'\<lparr>yahdlc_state := reset_state DEADCOM_MAX_FRAME_LEN\<rparr>), e'))"
proof -
  let ?h = "handle_frame env (control_carried c) (length (payload_sent c m)) (after_frame c m d) e"
  let ?M = DEADCOM_MAX_FRAME_LEN
  have idle: "parser_idle ?M (yahdlc_state d)" and "link_ready d"
    and len: "length (payload_sent c m) + 2 < ?M" "length (payload_sent c m) + 2 \<le> length (scratchpadBuffer d)"
      "length (payload_sent c m) + 4 \<le> SIZE_MAX"
    using assms(2, 3)
    by (auto simp: link_idle_def link_inv_def parser_inv_ready fits_def DEADCOM_MAX_FRAME_LEN_def
        DEADCOM_PAYLOAD_MAX_LEN_def SIZE_MAX_def)
  have "dcProcessData env (Some d) (Some (frame_bytes c m)) (length (frame_bytes c m)) e =
      dc_result (rx_bytes env d e (frame_bytes c m))"
    by (rule dcProcessData_rx [OF assms(1) \<open>link_ready d\<close> frame_bytes_not_Nil])
  also have "\<dots> = (case ?h of None \<Rightarrow> None | Some (ok, d', e') \<Rightarrow>
      if ok then Some (DC_OK, Some d', e')
      else Some (DC_FAILURE, Some (d'\<lparr>yahdlc_state := reset_state ?M\<rparr>), e'))"
  proof (cases ?h)
    case None
    then show ?thesis
      by (simp add: rx_frame [OF idle len] handle_frame_after after_frame_def dc_result_def)
  next
    case (Some x)
    then obtain ok d1 e1 where h: "?h = Some (ok, d1, e1)" by (cases x) auto
    then have "yahdlc_state d1 = restarted ?M"
      using handle_frame_frame by fastforce
    then have "d1\<lparr>yahdlc_state := restarted ?M\<rparr> = d1" by (rule parser_fields_same)
    then show ?thesis
      using h by (cases ok)
        (simp_all add: rx_frame [OF idle len] handle_frame_after after_frame_def dc_result_def)
  qed
  finally show ?thesis .
qed

section \<open>Octets that overflow the buffers\<close>

text \<open>
  The parser's maximum frame length is that of a fully escaped frame on the wire, but it
  is compared with the number of decoded octets, and the scratchpad is smaller.
\<close>

lemma parsed_overflow:
  assumes "0 \<le> k" "b \<noteq> YAHDLC_FLAG_SEQUENCE" "b \<noteq> YAHDLC_CONTROL_ESCAPE"
    and "2 \<le> length (unstuff False raw)" "length (unstuff False raw) - 2 = length dest"
    and "length dest + 1 < m"
  shows "get_data_byte (parsed k m raw) (filled dest (unstuff False raw)) b nf = None"
proof -
  have "length (filled dest (unstuff False raw)) = length dest"
    using assms(5) by (simp add: length_filled)
  then show ?thesis
    using assms
    by (simp add: get_data_byte_def parsed_def Let_def buf_write_def)
qed

lemma rx_overflow:
  assumes "0 \<le> k" "length dest + 1 < m"
  shows "YAHDLC_FLAG_SEQUENCE \<notin> set mid \<Longrightarrow> length (unstuff False raw) - 2 \<le> length dest \<Longrightarrow>
    length dest < length (unstuff False (raw @ mid)) - 2 \<Longrightarrow>
    yahdlc_state d = parsed k m raw \<Longrightarrow> scratchpadBuffer d = filled dest (unstuff False raw) \<Longrightarrow>
    rx_bytes env d e (mid @ rest) = None"
proof (induction mid arbitrary: raw d)
  case (Cons b mid)
  have b: "b \<noteq> YAHDLC_FLAG_SEQUENCE" using Cons.prems(1) by auto
  show ?case
  proof (cases "length (unstuff False (raw @ [b])) - 2 \<le> length dest")
    case True
    then have "get_data_byte (parsed k m raw) (filled dest (unstuff False raw)) b False =
        Some (Continue (parsed k m (raw @ [b])) (filled dest (unstuff False (raw @ [b]))))"
      using assms b by (intro parsed_step) auto
    then show ?thesis
      using Cons.IH [of "raw @ [b]"] Cons.prems True by simp
  next
    case False
    then have "b \<noteq> YAHDLC_CONTROL_ESCAPE" "2 \<le> length (unstuff False raw)"
      "length (unstuff False raw) - 2 = length dest"
      using Cons.prems(2) by (auto simp: unstuff_snoc split: if_splits)
    then show ?thesis
      using parsed_overflow [OF assms(1) b] assms(2) Cons.prems(4, 5) by simp
  qed
qed simp

lemma process_frame_overflow:
  assumes "mutex_ok env" "link_idle d" "\<not> fits c m" "frame c = YAHDLC_FRAME_DATA"
  shows "dcProcessData env (Some d) (Some (frame_bytes c m)) (length (frame_bytes c m)) e = None"
proof -
  let ?M = DEADCOM_MAX_FRAME_LEN
  have idle: "parser_idle ?M (yahdlc_state d)" and "link_ready d"
    and len: "length (scratchpadBuffer d) = DEADCOM_PAYLOAD_MAX_LEN"
    using assms(2) by (auto simp: link_idle_def link_inv_def parser_inv_ready)
  have "rx_bytes env (d\<lparr>yahdlc_state := restarted ?M\<rparr>) e
      (stuff (frame_body c m) @ [YAHDLC_FLAG_SEQUENCE]) = None"
    by (rule rx_overflow [of 0 "scratchpadBuffer d" ?M _ "[]"])
      (use assms(3, 4) stuffing.flag_free [of "frame_body c m"] len in
        \<open>simp_all add: restarted_is_parsed unstuff_stuff fits_def length_frame_body_payload
           DEADCOM_MAX_FRAME_LEN_def\<close>)
  then have "rx_bytes env d e (frame_bytes c m) = None"
    using parser_idle_flag [OF idle] by (simp add: frame_bytes_def)
  then show ?thesis
    using dcProcessData_rx [OF assms(1) \<open>link_ready d\<close> frame_bytes_not_Nil]
    by (simp add: dc_result_def)
qed

section \<open>Notifying the waiting thread\<close>

definition notify :: "'e dcl2_env \<Rightarrow> DeadcomL2 \<Rightarrow> 'e \<Rightarrow> 'e dc_ret" where
  "notify env d e =
     (case condvarSignal env (condvar_p d) e of
        (True, e') \<Rightarrow> Some (DC_OK, Some d, e')
      | (False, e') \<Rightarrow>
          Some (DC_FAILURE, Some (d\<lparr>yahdlc_state := reset_state DEADCOM_MAX_FRAME_LEN\<rparr>), e'))"

section \<open>The effect of a frame\<close>

lemma process_data_frame:
  assumes "mutex_ok env" "link_idle d" "frame c = YAHDLC_FRAME_DATA"
    and "length m + 2 \<le> DEADCOM_PAYLOAD_MAX_LEN"
  shows "dcProcessData env (Some d) (Some (frame_bytes c m)) (length (frame_bytes c m)) e =
    (if state d \<notin> {DC_CONNECTED, DC_TRANSMITTING} then Some (DC_OK, Some (after_frame c m d), e)
     else if ucast (send_seq_no c) = recv_number d then
       (if extractionBufferSize d = 0 \<and> m \<noteq> [] then
          Some (DC_OK,
            Some ((after_frame c m d)
              \<lparr>extractionBufferSize := int16_of_size (length m),
               extractionComplete := True,
               extractionBuffer := m @ drop (length m) (extractionBuffer d),
               recv_number := (recv_number d + 1) mod 8\<rparr>), e)
        else Some (DC_OK, Some (after_frame c m d), e))
     else if \<not> extractionComplete d \<and> (ucast (send_seq_no c) + 1) mod 8 = recv_number d then
       (case transmitBytes env (frame_bytes (ack_control d) []) (transmission_context_p d) e of
          (True, e') \<Rightarrow> Some (DC_OK, Some (after_frame c m d), e')
        | (False, e') \<Rightarrow> Some (DC_FAILURE,
            Some ((after_frame c m d)\<lparr>yahdlc_state := reset_state DEADCOM_MAX_FRAME_LEN\<rparr>), e'))
     else Some (DC_OK, Some (after_frame c m d), e))"
proof -
  have pay: "payload_sent c m = m" and cc: "control_carried c = c"
    using assms(3) by (simp_all add: payload_sent_def control_carried_def)
  have "fits c m" using assms(4) by (simp add: fits_def pay)
  have ack: "build_frame (ack_control (after_frame c m d)) None 0
      = Some (Inr 0, frame_bytes (ack_control d) [])"
    using build_control [of "ack_control d"] by (simp add: ack_control_def)
  have copy: "buf_copy (extractionBuffer d) (filled (scratchpadBuffer d) (frame_body c m)) (length m)
      = Some (m @ drop (length m) (extractionBuffer d))"
    using assms(2, 4) length_filled [of "frame_body c m" "scratchpadBuffer d"]
    by (simp add: buf_copy_Some filled_def drop_frame_body pay link_idle_def link_inv_def
        length_frame_body_payload)
  show ?thesis
    using assms(3) copy
    by (simp add: process_frame [OF assms(1, 2) \<open>fits c m\<close>] handle_frame_def handle_data_def cc pay
        ack Let_def case_prod_beta split: bool.split)
qed

lemma process_control_frame:
  assumes "mutex_ok env" "link_idle d" "frame c \<noteq> YAHDLC_FRAME_DATA"
  defines "d1 \<equiv> after_frame c [] d"
  shows "dcProcessData env (Some d) (Some (frame_bytes c [])) (length (frame_bytes c [])) e =
    (case frame c of
       YAHDLC_FRAME_ACK \<Rightarrow>
         if state d = DC_TRANSMITTING \<and> ucast (recv_seq_no c) = next_expected_ack d
         then notify env (d1\<lparr>next_expected_ack := (next_expected_ack d + 1) mod 8,
                             last_response := DC_RESP_OK\<rparr>) e
         else Some (DC_OK, Some d1, e)
     | YAHDLC_FRAME_NACK \<Rightarrow>
         if state d = DC_TRANSMITTING
         then notify env (d1\<lparr>last_response := DC_RESP_REJECT\<rparr>) e
         else Some (DC_OK, Some d1, e)
     | YAHDLC_FRAME_CONN_ACK \<Rightarrow>
         if state d = DC_CONNECTING
         then notify env (d1\<lparr>last_response := DC_RESP_OK\<rparr>) e
         else Some (DC_OK, Some d1, e)
     | _ \<Rightarrow>
         (case transmitBytes env (frame_bytes conn_ack_control []) (transmission_context_p d) e of
            (False, e1) \<Rightarrow>
              Some (DC_FAILURE, Some (d1\<lparr>yahdlc_state := reset_state DEADCOM_MAX_FRAME_LEN\<rparr>), e1)
          | (True, e1) \<Rightarrow>
              if state d = DC_TRANSMITTING \<or> state d = DC_CONNECTING
              then notify env (conn_effect d1) e1
              else Some (DC_OK, Some (conn_effect d1), e1)))"
proof -
  have pay: "payload_sent c [] = []" by (simp add: payload_sent_def)
  have fit: "fits c []" using assms(3) by (rule fits_control)
  have conn_ack: "build_frame conn_ack_control None 0 = Some (Inr 0, frame_bytes conn_ack_control [])"
    by (rule build_control) (simp add: conn_ack_control_def)
  have run: "dcProcessData env (Some d) (Some (frame_bytes c [])) (length (frame_bytes c [])) e =
    (case handle_frame env (control_carried c) 0 d1 e of
       None \<Rightarrow> None
     | Some (ok, d', e') \<Rightarrow>
         if ok then Some (DC_OK, Some d', e')
         else Some (DC_FAILURE, Some (d'\<lparr>yahdlc_state := reset_state DEADCOM_MAX_FRAME_LEN\<rparr>), e'))"
    using process_frame [OF assms(1, 2) fit] by (simp add: pay d1_def)
  have fields: "state d1 = state d" "next_expected_ack d1 = next_expected_ack d"
    "condvar_p d1 = condvar_p d" "transmission_context_p d1 = transmission_context_p d"
    by (simp_all add: d1_def)
  have seq: "frame c = YAHDLC_FRAME_ACK \<Longrightarrow> recv_seq_no (control_carried c) = recv_seq_no c"
    by (simp add: control_carried_def)
  show ?thesis
  proof (cases "frame c")
    case YAHDLC_FRAME_CONN
    then show ?thesis
      by (cases "state d"; simp add: run fields handle_frame_def handle_conn_def conn_ack
          signal_waiter_def notify_def conn_effect_simps case_prod_beta Let_def resetLink_def
          split: bool.split)
  qed (use assms(3) in \<open>auto simp: run fields seq handle_frame_def handle_ack_def handle_nack_def
      handle_conn_ack_def signal_waiter_def notify_def case_prod_beta Let_def split: bool.split\<close>)
qed

section \<open>A connected link for examples\<close>

definition sample_link :: DeadcomL2 where
  "sample_link =
     (resetLink dc_zero)\<lparr>state := DC_CONNECTED, mutex_p := Some 1, condvar_p := Some 2,
        yahdlc_state := reset_state DEADCOM_MAX_FRAME_LEN\<rparr>"

lemma sample_link_idle: "link_idle sample_link"
  by (simp add: link_idle_def link_inv_def sample_link_def resetLink_def dc_zero_def parser_idle_def
      parser_inv_reset)

lemma log_env_mutex: "mutex_ok log_env"
  by (simp add: mutex_ok_def log_env_def)

section \<open>Properties\<close>

text \<open>
  C9. A DATA frame in each state of the link: connected (or transmitting), with the
  expected sequence number, a non-empty payload and no message pending, the payload
  becomes the pending message and \<open>recv_number\<close> advances; with the number before the
  expected one and no message pending, it is acknowledged again and otherwise ignored;
  any other DATA frame changes nothing but the parser's buffers.  Nothing is transmitted
  except that acknowledgment.
\<close>

theorem data_frame_effect:
  assumes "mutex_ok env" "link_idle d" "frame c = YAHDLC_FRAME_DATA"
    and "length m + 2 \<le> DEADCOM_PAYLOAD_MAX_LEN"
  shows "dcProcessData env (Some d) (Some (frame_bytes c m)) (length (frame_bytes c m)) e =
    (if state d \<notin> {DC_CONNECTED, DC_TRANSMITTING} then Some (DC_OK, Some (after_frame c m d), e)
     else if ucast (send_seq_no c) = recv_number d then
       (if extractionBufferSize d = 0 \<and> m \<noteq> [] then
          Some (DC_OK,
            Some ((after_frame c m d)
              \<lparr>extractionBufferSize := int16_of_size (length m),
               extractionComplete := True,
               extractionBuffer := m @ drop (length m) (extractionBuffer d),
               recv_number := (recv_number d + 1) mod 8\<rparr>), e)
        else Some (DC_OK, Some (after_frame c m d), e))
     else if \<not> extractionComplete d \<and> (ucast (send_seq_no c) + 1) mod 8 = recv_number d then
       (case transmitBytes env (frame_bytes (ack_control d) []) (transmission_context_p d) e of
          (True, e') \<Rightarrow> Some (DC_OK, Some (after_frame c m d), e')
        | (False, e') \<Rightarrow> Some (DC_FAILURE,
            Some ((after_frame c m d)\<lparr>yahdlc_state := reset_state DEADCOM_MAX_FRAME_LEN\<rparr>), e'))
     else Some (DC_OK, Some (after_frame c m d), e))"
  by (rule process_data_frame [OF assms])

text \<open>
  The empty DATA frame with sequence number zero, on a fresh connected link: it carries
  no message and is ignored.
\<close>

theorem data_frame_effect_witness:
  "dcProcessData log_env (Some sample_link) (Some (frame_bytes control_zero []))
      (length (frame_bytes control_zero [])) [] =
    Some (DC_OK, Some (after_frame control_zero [] sample_link), [])"
  using data_frame_effect [OF log_env_mutex sample_link_idle, of control_zero "[]" "[]"]
  by (simp add: control_zero_def sample_link_def resetLink_def dc_zero_def DEADCOM_PAYLOAD_MAX_LEN_def)

text \<open>
  C13. The other frames in each state of the link.  An ACK counts only while transmitting
  and only with the expected number: it advances \<open>next_expected_ack\<close> and wakes the
  sender.  A NACK while transmitting wakes the sender with a rejection.  A CONN\_ACK
  while connecting wakes the connecting thread.  A CONN is answered with a CONN\_ACK in
  every state, resets the link, and connects it (a connecting link stays connecting and
  its thread is woken; a transmitting one is connected, its thread woken with "no link").
  Everything else is ignored, and nothing else is transmitted.
\<close>

theorem control_frame_effect:
  assumes "mutex_ok env" "link_idle d" "frame c \<noteq> YAHDLC_FRAME_DATA"
  defines "d1 \<equiv> after_frame c [] d"
  shows "dcProcessData env (Some d) (Some (frame_bytes c [])) (length (frame_bytes c [])) e =
    (case frame c of
       YAHDLC_FRAME_ACK \<Rightarrow>
         if state d = DC_TRANSMITTING \<and> ucast (recv_seq_no c) = next_expected_ack d
         then notify env (d1\<lparr>next_expected_ack := (next_expected_ack d + 1) mod 8,
                             last_response := DC_RESP_OK\<rparr>) e
         else Some (DC_OK, Some d1, e)
     | YAHDLC_FRAME_NACK \<Rightarrow>
         if state d = DC_TRANSMITTING
         then notify env (d1\<lparr>last_response := DC_RESP_REJECT\<rparr>) e
         else Some (DC_OK, Some d1, e)
     | YAHDLC_FRAME_CONN_ACK \<Rightarrow>
         if state d = DC_CONNECTING
         then notify env (d1\<lparr>last_response := DC_RESP_OK\<rparr>) e
         else Some (DC_OK, Some d1, e)
     | _ \<Rightarrow>
         (case transmitBytes env (frame_bytes conn_ack_control []) (transmission_context_p d) e of
            (False, e1) \<Rightarrow>
              Some (DC_FAILURE, Some (d1\<lparr>yahdlc_state := reset_state DEADCOM_MAX_FRAME_LEN\<rparr>), e1)
          | (True, e1) \<Rightarrow>
              if state d = DC_TRANSMITTING \<or> state d = DC_CONNECTING
              then notify env (conn_effect d1) e1
              else Some (DC_OK, Some (conn_effect d1), e1)))"
  unfolding d1_def by (rule process_control_frame [OF assms(1-3)])

text \<open>A connection request on the sample link: answered, and the link reset.\<close>

theorem control_frame_effect_witness:
  "dcProcessData log_env (Some sample_link) (Some (frame_bytes conn_control []))
      (length (frame_bytes conn_control [])) [] =
    Some (DC_OK, Some (conn_effect (after_frame conn_control [] sample_link)),
          [frame_bytes conn_ack_control []])"
  using control_frame_effect [OF log_env_mutex sample_link_idle, of conn_control "[]"]
  by (simp add: conn_control_def sample_link_def log_env_def resetLink_def)

text \<open>
  C36. Messages of 248 and 249 octets, which \<open>dcSendMessage\<close> accepts, overflow the
  receiver: the scratchpad of \<open>DEADCOM_PAYLOAD_MAX_LEN\<close> octets has no room for the two
  octets of the check value that the parser stores behind the payload, and the maximum
  frame length it is given does not stop it.  Whatever the state of the receiving link,
  a correct frame with a longer payload than 247 octets makes \<open>dcProcessData\<close> store
  outside \<open>scratchpadBuffer\<close>.
\<close>

theorem long_message_overflows:
  assumes "mutex_ok env" "link_idle d" "frame c = YAHDLC_FRAME_DATA"
    and "DEADCOM_PAYLOAD_MAX_LEN < length m + 2"
  shows "dcProcessData env (Some d) (Some (frame_bytes c m)) (length (frame_bytes c m)) e = None"
  by (rule process_frame_overflow [OF assms(1, 2) _ assms(3)])
    (use assms(3, 4) in \<open>simp add: fits_def payload_sent_def\<close>)

text \<open>The longest message \<open>dcSendMessage\<close> accepts.\<close>

theorem long_message_overflows_witness:
  "dcProcessData log_env (Some sample_link)
      (Some (frame_bytes control_zero (replicate DEADCOM_PAYLOAD_MAX_LEN 0)))
      (length (frame_bytes control_zero (replicate DEADCOM_PAYLOAD_MAX_LEN 0))) [] = None"
  by (rule long_message_overflows [OF log_env_mutex sample_link_idle])
    (simp_all add: control_zero_def)

text \<open>
  C37. Five octets from the wire crash a connected receiver: \<open>7E 7D 20 00 7E\<close> is taken
  for a DATA frame with sequence number zero whose length has wrapped below zero, and
  when that is the expected number and no message is pending, the code copies almost
  \<open>SIZE_MAX\<close> octets.
\<close>

theorem short_frame_crashes:
  assumes "mutex_ok env" "link_idle d" "state d = DC_CONNECTED \<or> state d = DC_TRANSMITTING"
    and "recv_number d = 0" "extractionBufferSize d = 0"
  shows "dcProcessData env (Some d) (Some [0x7E, 0x7D, 0x20, 0x00, 0x7E]) 5 e = None"
proof -
  let ?M = DEADCOM_MAX_FRAME_LEN
  let ?mid = "[0x7D, 0x20, 0x00] :: byte list"
  let ?bs = "[0x7E, 0x7D, 0x20, 0x00, 0x7E] :: byte list"
  have idle: "parser_idle ?M (yahdlc_state d)" and "link_ready d"
    using assms(2) by (auto simp: link_idle_def link_inv_def parser_inv_ready)
  have un: "unstuff False ?mid = [0, 0]" by (simp add: octet_defs)
  have "fcs_trailer (foldl fcs16 FCS16_INIT_VALUE []) = [0, 0]"
    by (simp add: fcs_trailer_def fcs_byte_def FCS16_INIT_VALUE_def)
  then have "foldl fcs16 FCS16_INIT_VALUE [0, 0] = FCS16_GOOD_VALUE"
    using fcs_check.accepts_own_trailer [of "[]"] by (simp only: append_Nil)
  then have "run_accepted ?mid"
    unfolding run_accepted_def un by simp
  moreover have "run_length ?mid = SIZE_MAX - 1"
    by (simp only: run_length_def un) (simp add: size_sub_wraps SIZE_MAX_def)
  moreover have "run_control ?mid = control_zero"
    by (simp only: run_control_def un) (simp add: get_control_type_eq control_zero_def)
  moreover have "buf_copy (extractionBuffer d) b (SIZE_MAX - 1) = None" for b
    using assms(2) by (simp add: buf_copy_def link_idle_def link_inv_def SIZE_MAX_def
        DEADCOM_PAYLOAD_MAX_LEN_def)
  ultimately have "rx_bytes env d e (YAHDLC_FLAG_SEQUENCE # ?mid @ [YAHDLC_FLAG_SEQUENCE]) = None"
    using assms(3-) un rx_run_of_octets [OF idle, of ?mid env e]
    by (auto simp: handle_frame_def handle_data_def control_zero_def Let_def SIZE_MAX_def octet_defs
        DEADCOM_MAX_FRAME_LEN_def)
  moreover have "YAHDLC_FLAG_SEQUENCE # ?mid @ [YAHDLC_FLAG_SEQUENCE] = [0x7E, 0x7D, 0x20, 0x00, 0x7E]"
    by (simp add: octet_defs)
  ultimately have none: "rx_bytes env d e ?bs = None" by (simp only:)
  have "dcProcessData env (Some d) (Some ?bs) (length ?bs) e = dc_result (rx_bytes env d e ?bs)"
    by (rule dcProcessData_rx [OF assms(1) \<open>link_ready d\<close>]) simp
  moreover have "length ?bs = 5" by simp
  ultimately show ?thesis by (simp only: none dc_result_def option.map)
qed

theorem short_frame_crashes_witness:
  "dcProcessData log_env (Some sample_link) (Some [0x7E, 0x7D, 0x20, 0x00, 0x7E]) 5 [] = None"
  by (rule short_frame_crashes [OF log_env_mutex sample_link_idle])
    (simp_all add: sample_link_def resetLink_def)

text \<open>
  C25. A pending message is safe.  From the moment a message is stored until it is picked up,
  no call of an operation changes its octets, its length or the fact that it is pending,
  whatever octets are received (among them further messages and copies of this one), as long
  as no CONN request is answered, neither by the call nor by another thread while it waits,
  and the call does not establish or reset the link: a \<open>dcConnect\<close> that succeeds, a
  \<open>dcSendMessage\<close> that returns \<open>DC_LINK_RESET\<close>, and a \<open>dcGetReceivedMsg\<close> with a buffer that
  succeeds are the only results after which it may be gone (\<open>may_discard\<close>).
\<close>

theorem pending_message_stable:
  assumes "no_answer env J" "mutex_ok env" "link_inv d" "extractionComplete d"
    and "api_run env call d e = Some (r, d', e')" "J e'" "\<not> may_discard call d r"
  shows "extractionComplete d' \<and> extractionBuffer d' = extractionBuffer d \<and>
    extractionBufferSize d' = extractionBufferSize d"
proof -
  have "pending_message (extractionBuffer d) (extractionBufferSize d) d"
    using assms(3, 4) by (simp add: pending_message_def link_inv_def)
  then have "pending_message (extractionBuffer d) (extractionBufferSize d) d'"
    using api_run_keeps_pending [OF assms(1,2) link_inv_ready [OF assms(3)] _ assms(5-7)] by blast
  then show ?thesis by (simp add: pending_message_def)
qed

text \<open>
  A link that holds the one-octet message \<open>[7]\<close> receives another one with the expected number.
\<close>

theorem pending_message_stable_witness:
  "\<exists>d d'. extractionBuffer d = 7 # replicate 248 0 \<and> ucast (send_seq_no control_zero) = recv_number d \<and>
     api_run log_env (Process (Some (frame_bytes control_zero [9])) (length (frame_bytes control_zero [9]))) d []
       = Some (DC_OK, d', []) \<and>
     extractionComplete d' \<and> extractionBuffer d' = 7 # replicate 248 0"
proof -
  let ?d = "sample_link\<lparr>extractionBuffer := 7 # replicate 248 0, extractionBufferSize := 1,
    extractionComplete := True\<rparr>"
  let ?w = "frame_bytes control_zero [9]"
  have idle: "link_idle ?d"
    using sample_link_idle by (simp add: link_idle_def link_inv_def DEADCOM_PAYLOAD_MAX_LEN_def)
  have zero: "ucast (send_seq_no control_zero) = recv_number ?d" "frame control_zero = YAHDLC_FRAME_DATA"
    by (simp_all add: control_zero_def sample_link_def resetLink_def)
  have run: "api_run log_env (Process (Some ?w) (length ?w)) ?d [] =
      Some (DC_OK, after_frame control_zero [9] ?d, [])"
    using process_data_frame [OF log_env_mutex idle zero(2), of "[9]" "[]"] zero
    by (simp add: DEADCOM_PAYLOAD_MAX_LEN_def)
  have "no_answer log_env (\<lambda>e. frame_bytes conn_ack_control [] \<notin> set e)"
    by (auto simp: no_answer_def log_env_def)
  from pending_message_stable [OF this log_env_mutex _ _ run] idle
  have "extractionBuffer (after_frame control_zero [9] ?d) = 7 # replicate 248 0"
    "extractionComplete (after_frame control_zero [9] ?d)"
    by (simp_all add: link_idle_def)
  then show ?thesis
    using run zero(1) by (intro exI [of _ ?d] exI [of _ "after_frame control_zero [9] ?d"] conjI) simp_all
qed

end
