(* ===== verification/Dcl2_Api.thy ===== *)
theory Dcl2_Api
  imports Dcl2_Delivery
begin

text \<open>
  The functional behaviour of the operations an application calls: initialisation,
  connecting, picking up a message, and the retransmission loop of \<open>dcSendMessage\<close> with
  the bound on its transmissions.
\<close>

section \<open>Counting transmissions\<close>

text \<open>An environment that also counts the calls of \<open>transmitBytes\<close>.\<close>

definition counting :: "'e dcl2_env \<Rightarrow> ('e \<times> nat) dcl2_env" where
  "counting env =
     \<lparr>mutexInit = \<lambda>p (e, k). map_prod id (\<lambda>e. (e, k)) (mutexInit env p e),
      mutexLock = \<lambda>p (e, k). map_prod id (\<lambda>e. (e, k)) (mutexLock env p e),
      mutexUnlock = \<lambda>p (e, k). map_prod id (\<lambda>e. (e, k)) (mutexUnlock env p e),
      condvarInit = \<lambda>p (e, k). map_prod id (\<lambda>e. (e, k)) (condvarInit env p e),
      condvarWait = \<lambda>p ms t d (e, k).
        (case condvarWait env p ms t d e of (w, t, d, e) \<Rightarrow> (w, t, d, (e, k))),
      condvarSignal = \<lambda>p (e, k). map_prod id (\<lambda>e. (e, k)) (condvarSignal env p e),
      transmitBytes = \<lambda>b p (e, k). map_prod id (\<lambda>e. (e, Suc k)) (transmitBytes env b p e)\<rparr>"


lemma send_loop_step:
  "send_loop env f d e =
     (if failure_count d < DEADCOM_MAX_FAILURE_COUNT then
        (case transmitBytes env f (transmission_context_p d) e of
           (False, e) \<Rightarrow> Some (SendFailed, send_rollback d, e)
         | (True, e) \<Rightarrow>
             (case condvarWait env (condvar_p d) DEADCOM_ACK_TIMEOUT_MS None d e of
                (False, _, d, e) \<Rightarrow> Some (SendFailed, send_rollback d, e)
              | (True, None, d, e) \<Rightarrow> None
              | (True, Some t, d, e) \<Rightarrow>
                  (case send_check t d of
                     (Some r, d) \<Rightarrow> Some (r, d, e)
                   | (None, d) \<Rightarrow> send_loop env f d e)))
      else Some (SendDropped, d, e))"
  by (subst send_loop.simps) (auto split: prod.split bool.split option.split)


lemma counting_leave: "leave (counting env) r d (e, k) =
    map_option (\<lambda>(r, d, e). (r, d, (e, k))) (leave env r d e)"
  by (simp add: leave_def counting_def Let_def case_prod_beta map_prod_def)

lemma leave_ok: "mutex_ok env \<Longrightarrow> leave env r d e = Some (r, Some d, e)"
  by (simp add: leave_def)

text \<open>The frame of a CONN request, octet by octet.\<close>

lemma conn_frame: "frame_bytes conn_control [] = [0x7E, 0xFF, 0x3F, 0xF3, 0x39, 0x7E]"
  by (simp add: frame_bytes_def frame_body_def frame_content_def stuff_def stuff_byte_def
      octet_defs conn_control_def frame_control_type_eq fcs_trailer_def fcs_byte_def
      fcs16_def fcstab_def FCS16_INIT_VALUE_def)

text \<open>Lengths of stored messages survive the \<open>int16_t\<close> field.\<close>

lemma size_of_int16_small:
  assumes "unat w \<le> DEADCOM_PAYLOAD_MAX_LEN"
  shows "size_of_int16 w = unat w"
proof -
  have "w = word_of_nat (unat w)" by simp
  moreover have "size_of_int16 (word_of_nat n) = n" if "n \<le> 249" for n
  proof -
    have "sint (word_of_nat n :: 16 word) = int n"
      using that by (simp add: signed_of_nat signed_take_bit_int_eq_self)
    then show ?thesis using that by (simp add: size_of_int16_def scast_eq unat_of_nat)
  qed
  ultimately show ?thesis
    using assms by (metis DEADCOM_PAYLOAD_MAX_LEN_def)
qed

text \<open>An environment whose waits time out and whose transmissions fail from the second on.\<close>

definition flaky_env :: "nat dcl2_env" where
  "flaky_env =
     \<lparr>mutexInit = \<lambda>p e. (True, e), mutexLock = \<lambda>p e. (True, e), mutexUnlock = \<lambda>p e. (True, e),
      condvarInit = \<lambda>p e. (True, e), condvarWait = \<lambda>p ms t d e. (True, Some True, d, Suc e),
      condvarSignal = \<lambda>p e. (True, e), transmitBytes = \<lambda>b p e. (e = 0, e)\<rparr>"

section \<open>Properties\<close>



text \<open>
  A receiving thread that handles a CONN request at each of the next \<open>k\<close> waits, all of which
  time out: \<open>handle_conn\<close> signals the sender, but \<open>timed_out\<close> is set as the timeout comes first.
\<close>

definition conn_race_env :: "nat dcl2_env" where
  "conn_race_env =
     \<lparr>mutexInit = \<lambda>p k. (True, k), mutexLock = \<lambda>p k. (True, k), mutexUnlock = \<lambda>p k. (True, k),
      condvarInit = \<lambda>p k. (True, k),
      condvarWait = \<lambda>p ms t d k.
        (if k = 0 then (True, Some True, d, k)
         else (case dcProcessData log_env (Some d) (Some (frame_bytes conn_control []))
                      (length (frame_bytes conn_control [])) [] of
                 Some (r, Some d', e) \<Rightarrow> (True, Some True, d', k - 1)
               | _ \<Rightarrow> (False, None, d, k))),
      condvarSignal = \<lambda>p k. (True, k), transmitBytes = \<lambda>b p k. (True, k)\<rparr>"

lemma conn_race_wait:
  assumes "link_idle d" "state d = DC_TRANSMITTING \<or> state d = DC_CONNECTED"
  shows "\<exists>d1. condvarWait conn_race_env p ms t d (Suc k) = (True, Some True, d1, k) \<and> link_idle d1 \<and>
    state d1 = DC_CONNECTED \<and> failure_count d1 = 0"
proof -
  let ?d1 = "after_frame conn_control [] d"
  have c: "frame conn_control = YAHDLC_FRAME_CONN" by (simp add: conn_control_def)
  have idle: "link_idle ?d1" by (rule link_idle_after_frame [OF assms(1)]) (simp add: fits_control c)
  have "dcProcessData log_env (Some d) (Some (frame_bytes conn_control []))
      (length (frame_bytes conn_control [])) [] =
    Some (DC_OK, Some (conn_effect ?d1), [frame_bytes conn_ack_control []])"
    using process_control_frame [OF log_env_mutex assms(1), of conn_control "[]"] c assms(2)
    by (auto simp: log_env_def notify_def)
  moreover have "state (conn_effect ?d1) = DC_CONNECTED" "failure_count (conn_effect ?d1) = 0"
    using assms(2) by (auto simp: conn_effect_def resetLink_def)
  moreover have "link_idle (conn_effect ?d1)"
    using idle assms(2) by (auto simp: conn_effect_def resetLink_def link_idle_def link_inv_def)
  ultimately show ?thesis by (simp add: conn_race_env_def)
qed

lemma conn_race_timeouts:
  "unat (failure_count d) + i = 3 \<Longrightarrow>
    \<exists>d'. send_loop (counting conn_race_env) f d (0, n) = Some (SendDropped, d', (0, n + i))"
proof (induction i arbitrary: d n)
  case 0
  then have "\<not> failure_count d < DEADCOM_MAX_FAILURE_COUNT"
    by (simp add: word_less_nat_alt DEADCOM_MAX_FAILURE_COUNT_def)
  then show ?case by (simp add: send_loop_step)
next
  case (Suc i)
  let ?d = "d\<lparr>failure_count := failure_count d + 1\<rparr>"
  have less: "failure_count d < DEADCOM_MAX_FAILURE_COUNT"
    using Suc.prems by (simp add: word_less_nat_alt DEADCOM_MAX_FAILURE_COUNT_def)
  have "unat (failure_count ?d) + i = 3" using Suc.prems by (simp add: unat_word_ariths)
  from Suc.IH [OF this, of "Suc n"] show ?case
    using less by (subst send_loop_step) (simp add: counting_def conn_race_env_def send_check_def)
qed

lemma conn_race_loop:
  assumes "link_idle d" "state d = DC_TRANSMITTING \<or> state d = DC_CONNECTED" "failure_count d < 3"
  shows "\<exists>d'. send_loop (counting conn_race_env) f d (Suc k, n) = Some (SendDropped, d', (0, n + k + 3))"
  using assms
proof (induction k arbitrary: d n)
  case (0 d n)
  obtain d1 where d1: "condvarWait conn_race_env (condvar_p d) DEADCOM_ACK_TIMEOUT_MS None d (Suc 0)
      = (True, Some True, d1, 0)" "failure_count d1 = 0"
    using conn_race_wait [OF 0(1,2)] by blast
  have "\<exists>d'. send_loop (counting conn_race_env) f (d1\<lparr>failure_count := failure_count d1 + 1\<rparr>) (0, Suc n)
      = Some (SendDropped, d', (0, Suc n + 2))"
    by (rule conn_race_timeouts) (simp add: d1(2))
  then show ?case
    using 0(3) d1(1) by (subst send_loop_step)
      (auto simp: counting_def send_check_def DEADCOM_MAX_FAILURE_COUNT_def conn_race_env_def)
next
  case (Suc k d n)
  obtain d1 where d1: "condvarWait conn_race_env (condvar_p d) DEADCOM_ACK_TIMEOUT_MS None d (Suc (Suc k))
      = (True, Some True, d1, Suc k)" "link_idle d1" "state d1 = DC_CONNECTED" "failure_count d1 = 0"
    using conn_race_wait [OF Suc.prems(1,2)] by blast
  let ?d = "d1\<lparr>failure_count := failure_count d1 + 1\<rparr>"
  have "link_idle ?d" using d1(2) by (simp add: link_idle_def link_inv_def)
  then have "\<exists>d'. send_loop (counting conn_race_env) f ?d (Suc k, Suc n)
      = Some (SendDropped, d', (0, Suc n + k + 3))"
    by (rule Suc.IH) (simp_all add: d1(3,4))
  then show ?case
    using Suc.prems(3) d1(1) by (subst send_loop_step)
      (auto simp: counting_def send_check_def DEADCOM_MAX_FAILURE_COUNT_def conn_race_env_def)
qed

text \<open>
  C40. A CONN request that meets a timeout restarts the retransmissions.  When the receiving
  thread handles a CONN request at each of \<open>k\<close> waits that time out, \<open>resetLink\<close> clears the
  failure counter and the sender, which looks at \<open>timed_out\<close> before \<open>last_response\<close>, goes on:
  it transmits its frame \<open>k + 2\<close> times instead of three, over the connection that was granted
  meanwhile, and in the end drops that connection and returns \<open>DC_LINK_RESET\<close>.
\<close>

theorem conn_restarts_retransmissions:
  assumes "link_idle d" "state d = DC_CONNECTED" "0 < length m" "length m \<le> DEADCOM_PAYLOAD_MAX_LEN" "0 < k"
  shows "\<exists>d'. dcSendMessage (counting conn_race_env) (Some d) (Some m) (length m) (k, 0) =
    Some (DC_LINK_RESET, Some d', (0, k + 2)) \<and> state d' = DC_DISCONNECTED"
proof -
  let ?d = "d\<lparr>send_number := (send_number d + 1) mod 8, failure_count := 0, state := DC_TRANSMITTING\<rparr>"
  let ?f = "frame_bytes (data_control d) m"
  have f: "build_frame (data_control d) (Some m) (length m) = Some (Inr 0, ?f)"
    using build_data [of "data_control d" "length m" m] by (simp add: data_control_def)
  have "link_idle ?d" using assms(1) by (simp add: link_idle_def link_inv_def mod8_less)
  moreover obtain j where j: "k = Suc j" using assms(5) gr0_implies_Suc by blast
  ultimately obtain d1 where "send_loop (counting conn_race_env) ?f ?d (k, 0) = Some (SendDropped, d1, (0, k + 2))"
    using conn_race_loop [of ?d ?f j 0] by auto
  moreover have "mutexLock (counting conn_race_env) p x = (True, x)"
    "leave (counting conn_race_env) r0 d0 x = Some (r0, Some d0, x)" for p x r0 d0
    by (cases x; simp add: counting_def conn_race_env_def leave_def)+
  ultimately show ?thesis
    using assms(2-4) f by (auto simp: dcSendMessage_def Let_def resetLink_def)
qed

text \<open>Five requests in a row: seven transmissions.\<close>

theorem conn_restarts_retransmissions_witness:
  "\<exists>d'. dcSendMessage (counting conn_race_env) (Some sample_link) (Some [1]) (length [1 :: byte]) (5, 0) =
    Some (DC_LINK_RESET, Some d', (0, 7)) \<and> state d' = DC_DISCONNECTED"
  using conn_restarts_retransmissions [OF sample_link_idle, of "[1]" 5]
  by (simp add: sample_link_def DEADCOM_PAYLOAD_MAX_LEN_def)

text \<open>
  \<open>dcInit\<close> on valid pointers whose synchronisation objects can be initialised, and
  only then, returns \<open>DC_OK\<close>; the object is then a disconnected link between frames that
  satisfies the link invariant, with all sequence numbers zero and no message pending,
  whatever the memory held before.
\<close>

theorem init_establishes:
  "(\<exists>d e'. dcInit env (Some d0) m c t x ctx e = (DC_OK, Some d, e') \<and>
      link_idle d \<and> state d = DC_DISCONNECTED \<and> \<not> extractionComplete d \<and>
      send_number d = 0 \<and> recv_number d = 0 \<and> next_expected_ack d = 0 \<and>
      mutex_p d = m \<and> condvar_p d = c \<and> t_p d = t \<and> transmitBytes_p d = x \<and>
      transmission_context_p d = ctx)
   \<longleftrightarrow> m \<noteq> None \<and> c \<noteq> None \<and> t \<noteq> None \<and> x \<noteq> None \<and>
       fst (mutexInit env m e) \<and> fst (condvarInit env c (snd (mutexInit env m e)))"
proof -
  have "parser_inv (reset_state DEADCOM_MAX_FRAME_LEN)" by (rule parser_inv_reset)
  then show ?thesis
    by (auto simp: dcInit_def Let_def case_prod_beta link_idle_def link_inv_def resetLink_def
        dc_zero_def parser_idle_def split: if_splits)
qed

text \<open>
  \<open>dcConnect\<close> in each state: a connected link is left alone, a connecting one is
  refused; otherwise the CONN frame \<open>7E FF 3F F3 39 7E\<close> is transmitted and the thread
  waits.  The outcome of the wait alone decides: timed out gives a disconnected link and
  \<open>DC_NOT_CONNECTED\<close>; any other return of the wait, whether or not the other station has
  answered, resets the link and connects it; a failed callback disconnects it.
\<close>

theorem connect_outcome:
  assumes "mutex_ok env"
  shows "dcConnect env (Some d) e =
    (case state d of
       DC_CONNECTED \<Rightarrow> Some (DC_OK, Some d, e)
     | DC_CONNECTING \<Rightarrow> Some (DC_FAILURE, Some d, e)
     | _ \<Rightarrow>
        (case transmitBytes env [0x7E, 0xFF, 0x3F, 0xF3, 0x39, 0x7E] (transmission_context_p d) e of
           (False, e1) \<Rightarrow> Some (DC_FAILURE, Some (d\<lparr>state := DC_DISCONNECTED\<rparr>), e1)
         | (True, e1) \<Rightarrow>
            (case condvarWait env (condvar_p d) 100 (Some False) (d\<lparr>state := DC_CONNECTING\<rparr>) e1 of
               (False, _, d1, e2) \<Rightarrow> Some (DC_FAILURE, Some (d1\<lparr>state := DC_DISCONNECTED\<rparr>), e2)
             | (True, None, d1, e2) \<Rightarrow> None
             | (True, Some True, d1, e2) \<Rightarrow>
                 Some (DC_NOT_CONNECTED, Some (d1\<lparr>state := DC_DISCONNECTED\<rparr>), e2)
             | (True, Some False, d1, e2) \<Rightarrow>
                 Some (DC_OK, Some ((resetLink d1)\<lparr>state := DC_CONNECTED\<rparr>), e2))))"
  by (cases "state d")
    (simp_all add: dcConnect_def assms leave_ok build_conn conn_frame [symmetric]
      connect_finish_def DEADCOM_CONN_TIMEOUT_MS_def
      split: prod.split bool.split option.split)

text \<open>An unanswered connection attempt.\<close>

theorem connect_outcome_witness:
  "dcConnect log_env (Some (sample_link\<lparr>state := DC_DISCONNECTED\<rparr>)) [] =
     Some (DC_NOT_CONNECTED, Some (sample_link\<lparr>state := DC_DISCONNECTED\<rparr>),
           [[0x7E, 0xFF, 0x3F, 0xF3, 0x39, 0x7E]])"
  using connect_outcome [OF log_env_mutex, of "sample_link\<lparr>state := DC_DISCONNECTED\<rparr>" "[]"]
  by (simp add: log_env_def)

text \<open>
  \<open>dcGetReceivedMsg\<close> in each state: nothing on a link that is not connected or has no
  message; the length alone when asked without a buffer; with a buffer, the message is
  copied (the buffer must have room for it: the code has no other way to know its size),
  acknowledged with the number before \<open>recv_number\<close>, and removed; if the acknowledgment
  cannot be transmitted the message stays pending.
\<close>

theorem receive_outcome:
  assumes "mutex_ok env" "link_inv d"
  defines "n \<equiv> unat (extractionBufferSize d)"
  shows "dcGetReceivedMsg env (Some d) buffer (Some n0) e =
    (if state d = DC_DISCONNECTED \<or> state d = DC_CONNECTING
     then Some (DC_NOT_CONNECTED, buffer, Some 0, Some d, e)
     else if \<not> extractionComplete d then Some (DC_OK, buffer, Some 0, Some d, e)
     else (case buffer of
        None \<Rightarrow> Some (DC_OK, None, Some n, Some d, e)
      | Some b \<Rightarrow>
          if length b < n then None
          else (case transmitBytes env (frame_bytes (ack_control d) []) (transmission_context_p d) e of
             (False, e1) \<Rightarrow> Some (DC_FAILURE, Some (take n (extractionBuffer d) @ drop n b),
                Some n, Some d, e1)
           | (True, e1) \<Rightarrow> Some (DC_OK, Some (take n (extractionBuffer d) @ drop n b), Some n,
                Some (d\<lparr>extractionBufferSize := 0, extractionComplete := False\<rparr>), e1))))"
proof -
  have size: "size_of_int16 (extractionBufferSize d) = n" "n \<le> length (extractionBuffer d)"
    using assms(2) by (simp_all add: n_def link_inv_def size_of_int16_small)
  have ack: "build_frame (ack_control d) None 0 = Some (Inr 0, frame_bytes (ack_control d) [])"
    by (rule build_control) (simp add: ack_control_def)
  show ?thesis
    using size
    by (auto simp: dcGetReceivedMsg_def assms(1) ack buf_copy_def Let_def
        split: option.split prod.split)
qed

text \<open>Nothing is pending on the sample link.\<close>

theorem receive_outcome_witness:
  "dcGetReceivedMsg log_env (Some sample_link) (Some [9, 9]) (Some 5) [] =
     Some (DC_OK, Some [9, 9], Some 0, Some sample_link, [])"
  using receive_outcome [OF log_env_mutex, of sample_link "Some [9, 9]" 5 "[]"] sample_link_idle
  by (simp add: link_idle_def sample_link_def resetLink_def)

text \<open>
  An unanswered message: when every wait times out and no other thread intervenes,
  \<open>dcSendMessage\<close> on a connected link transmits exactly three copies of the DATA frame
  that carries the message, its own sequence number and its \<open>recv_number\<close>, then resets
  the link and returns \<open>DC_LINK_RESET\<close>.
\<close>

theorem unanswered_message:
  assumes "state d = DC_CONNECTED" "0 < n" "n \<le> DEADCOM_PAYLOAD_MAX_LEN" "n \<le> length m"
  defines "f \<equiv> frame_bytes (data_control d) (take n m)"
  shows "dcSendMessage log_env (Some d) (Some m) n sent =
    Some (DC_LINK_RESET, Some (resetLink d), sent @ [f, f, f])"
proof -
  let ?d = "d\<lparr>send_number := (send_number d + 1) mod 8, failure_count := 0, state := DC_TRANSMITTING\<rparr>"
  have f: "build_frame (data_control d) (Some m) n = Some (Inr 0, f)"
    unfolding f_def by (rule build_data) (simp_all add: data_control_def assms(4))
  have step: "send_loop log_env f d0 e = (if failure_count d0 < 3
      then send_loop log_env f (d0\<lparr>failure_count := failure_count d0 + 1\<rparr>) (e @ [f])
      else Some (SendDropped, d0, e))" for d0 e
    by (subst send_loop_step) (simp add: log_env_def send_check_def DEADCOM_MAX_FAILURE_COUNT_def)
  have "send_loop log_env f ?d sent =
      Some (SendDropped, ?d\<lparr>failure_count := 3\<rparr>, sent @ [f, f, f])"
    by (subst step, simp, subst step, simp, subst step, simp, subst step, simp)
  moreover have "leave log_env r d1 e = Some (r, Some d1, e)" for r d1 e
    by (rule leave_ok [OF log_env_mutex])
  ultimately show ?thesis
    using assms(1-3) f
    by (simp add: dcSendMessage_def log_env_mutex Let_def resetLink_def)
qed

theorem unanswered_message_witness:
  "\<exists>f. dcSendMessage log_env (Some sample_link) (Some [1, 2]) 2 [] =
     Some (DC_LINK_RESET, Some (resetLink sample_link), [f, f, f])"
  using unanswered_message [of sample_link 2 "[1, 2]" "[]"]
  by (auto simp: sample_link_def DEADCOM_PAYLOAD_MAX_LEN_def)

text \<open>
  A stale response is taken for an acknowledgment: \<open>last_response\<close> is not cleared
  before a message is sent, so if the first wait ends without a timeout and without any
  frame having arrived (a spurious wake-up) while \<open>last_response\<close> still holds the
  \<open>DC_RESP_OK\<close> of initialisation or of an earlier message, \<open>dcSendMessage\<close> returns
  \<open>DC_OK\<close> after one transmission, with \<open>next_expected_ack\<close> behind \<open>send_number\<close>.
\<close>

theorem stale_response_accepted:
  assumes "mutex_ok env" "state d = DC_CONNECTED" "last_response d = DC_RESP_OK"
    and "0 < n" "n \<le> DEADCOM_PAYLOAD_MAX_LEN" "n \<le> length m"
    and "transmitBytes env (frame_bytes (data_control d) (take n m)) (transmission_context_p d) e
      = (True, e1)"
    and "\<And>d1. condvarWait env (condvar_p d) DEADCOM_ACK_TIMEOUT_MS None d1 e1 = (True, Some False, d1, e2)"
  shows "dcSendMessage env (Some d) (Some m) n e =
    Some (DC_OK, Some (d\<lparr>send_number := (send_number d + 1) mod 8, failure_count := 0\<rparr>), e2)"
proof -
  let ?d = "d\<lparr>send_number := (send_number d + 1) mod 8, failure_count := 0, state := DC_TRANSMITTING\<rparr>"
  let ?f = "frame_bytes (data_control d) (take n m)"
  have f: "build_frame (data_control d) (Some m) n = Some (Inr 0, ?f)"
    by (rule build_data) (simp_all add: data_control_def assms(6))
  have "send_loop env ?f ?d e = Some (SendAcked, ?d, e2)"
    using assms(3, 7, 8)
    by (subst send_loop_step) (simp add: send_check_def DEADCOM_MAX_FAILURE_COUNT_def)
  moreover have "?d\<lparr>state := DC_CONNECTED\<rparr>
      = d\<lparr>send_number := (send_number d + 1) mod 8, failure_count := 0\<rparr>"
    using assms(2) by (cases d) simp
  ultimately show ?thesis
    using assms(2, 4, 5) f by (simp add: dcSendMessage_def assms(1) leave_ok Let_def)
qed

theorem stale_response_accepted_witness:
  "\<exists>e. dcSendMessage (log_env\<lparr>condvarWait := \<lambda>p ms t d e. (True, Some False, d, e)\<rparr>)
      (Some sample_link) (Some [1]) 1 [] =
    Some (DC_OK, Some (sample_link\<lparr>send_number := 1, failure_count := 0\<rparr>), e)"
  using stale_response_accepted
    [of "log_env\<lparr>condvarWait := \<lambda>p ms t d e. (True, Some False, d, e)\<rparr>" sample_link 1 "[1]" "[]"]
  by (simp add: mutex_ok_def log_env_def sample_link_def resetLink_def dc_zero_def
      DEADCOM_PAYLOAD_MAX_LEN_def)

text \<open>
  C39. A sequence number can be used twice: if a retransmission cannot be handed to
  \<open>transmitBytes\<close> after an earlier copy was sent and its wait timed out, \<open>dcSendMessage\<close>
  returns \<open>DC_FAILURE\<close> with the link connected and \<open>send_number\<close> taken back, although the
  other station may have accepted the earlier copy; the next message carries the same
  number.
\<close>

theorem failed_retransmission_reuses_number:
  assumes "mutex_ok env" "state d = DC_CONNECTED" "link_inv d"
    and "0 < n" "n \<le> DEADCOM_PAYLOAD_MAX_LEN" "n \<le> length m"
    and "transmitBytes env (frame_bytes (data_control d) (take n m)) (transmission_context_p d) e
      = (True, e1)"
    and "\<And>d1. condvarWait env (condvar_p d) DEADCOM_ACK_TIMEOUT_MS None d1 e1 = (True, Some True, d1, e2)"
    and "transmitBytes env (frame_bytes (data_control d) (take n m)) (transmission_context_p d) e2
      = (False, e3)"
  shows "\<exists>d'. dcSendMessage env (Some d) (Some m) n e = Some (DC_FAILURE, Some d', e3) \<and>
    state d' = DC_CONNECTED \<and> data_control d' = data_control d"
proof -
  let ?d = "d\<lparr>send_number := (send_number d + 1) mod 8, failure_count := 0, state := DC_TRANSMITTING\<rparr>"
  let ?d1 = "?d\<lparr>failure_count := 1\<rparr>"
  let ?f = "frame_bytes (data_control d) (take n m)"
  have f: "build_frame (data_control d) (Some m) n = Some (Inr 0, ?f)"
    by (rule build_data) (simp_all add: data_control_def assms(6))
  have "send_loop env ?f ?d1 e2 = Some (SendFailed, send_rollback ?d1, e3)"
    using assms(9) by (subst send_loop_step) (simp add: DEADCOM_MAX_FAILURE_COUNT_def)
  then have "send_loop env ?f ?d e = Some (SendFailed, send_rollback ?d1, e3)"
    using assms(7, 8)
    by (subst send_loop_step) (simp add: send_check_def DEADCOM_MAX_FAILURE_COUNT_def)
  moreover have "((send_number d + 1) mod 8 + 7) mod 8 = send_number d"
  proof -
    have "((send_number d + 1) mod 8 + 7) mod 8 = (8 + send_number d) mod 8"
      by (simp add: mod8_add)
    also have "\<dots> = (8 mod 8 + send_number d) mod 8" by (simp only: mod8_add)
    also have "\<dots> = send_number d"
      using assms(3) by (simp add: link_inv_def mod8_small)
    finally show ?thesis .
  qed
  ultimately show ?thesis
    using assms(2, 4, 5) f
    by (simp add: dcSendMessage_def assms(1) leave_ok Let_def send_rollback_def data_control_def)
qed

theorem failed_retransmission_reuses_number_witness:
  "\<exists>d'. dcSendMessage flaky_env (Some sample_link) (Some [1]) 1 0 = Some (DC_FAILURE, Some d', 1) \<and>
     data_control d' = data_control sample_link"
proof -
  have "link_inv sample_link" using sample_link_idle by (simp add: link_idle_def)
  then show ?thesis
    using failed_retransmission_reuses_number [of flaky_env sample_link 1 "[1]" 0 0 1 1]
    by (auto simp: mutex_ok_def flaky_env_def sample_link_def DEADCOM_PAYLOAD_MAX_LEN_def)
qed

end
