(* ===== verification/Dcl2_Exchange.thy ===== *)
theory Dcl2_Exchange
  imports Dcl2_Api
begin

text \<open>
  Two stations and the link between them: a sender that runs \<open>dcSendMessage\<close>, a peer that
  runs \<open>dcProcessData\<close> and \<open>dcGetReceivedMsg\<close> while the sender waits, and a medium that
  may lose each frame and each answer.  Everything the stations do is the code's model;
  only the medium is made up.  The result is that messages are delivered exactly once
  and in order for as long as \<open>dcSendMessage\<close> returns \<open>DC_OK\<close>, whatever is lost.
\<close>

section \<open>The peer's turn\<close>

text \<open>
  The peer processes the octets \<open>w\<close>, then its application polls with a buffer of the
  maximum message length; the result is the peer, the messages picked up and the octets
  it has transmitted.
\<close>

definition peer_turn :: "DeadcomL2 \<Rightarrow> byte list \<Rightarrow> (DeadcomL2 \<times> byte list list \<times> byte list) option" where
  "peer_turn p w = do {
     (_, p, out) \<leftarrow> dcProcessData log_env (Some p) (Some w) (length w) [];
     (_, b, n, p, out) \<leftarrow>
       dcGetReceivedMsg log_env p (Some (replicate DEADCOM_PAYLOAD_MAX_LEN 0)) (Some 0) out;
     Some (the p, if n = Some 0 then [] else [take (the n) (the b)], concat out)
   }"

section \<open>The sender's environment\<close>

text \<open>
  The octets on the wire to the peer, the messages its application has received, and for
  each coming wait whether the frame and whether the answer get through (when the list
  is used up, nothing does).
\<close>

record duplex =
  peer :: DeadcomL2
  wire :: "byte list"
  delivered :: "byte list list"
  fates :: "(bool \<times> bool) list"

text \<open>The receiving thread of the sender: its signal is remembered.\<close>

definition ack_env :: "bool dcl2_env" where
  "ack_env =
     \<lparr>mutexInit = \<lambda>p e. (True, e), mutexLock = \<lambda>p e. (True, e), mutexUnlock = \<lambda>p e. (True, e),
      condvarInit = \<lambda>p e. (True, e), condvarWait = \<lambda>p ms t d e. (True, Some True, d, e),
      condvarSignal = \<lambda>p e. (True, True), transmitBytes = \<lambda>b p e. (True, e)\<rparr>"

text \<open>
  A wait of the sender: the medium decides, the peer takes its turn, and the receiving
  thread processes the answer.  Undefined behaviour of either is passed on as an
  indeterminate \<open>timed_out\<close>.
\<close>

definition duplex_wait :: "DeadcomL2 \<Rightarrow> duplex \<Rightarrow> bool \<times> bool option \<times> DeadcomL2 \<times> duplex" where
  "duplex_wait d e =
     (case fates e of
        [] \<Rightarrow> (True, Some True, d, e)
      | (frame_ok, answer_ok) # fs \<Rightarrow>
          let e = e\<lparr>fates := fs\<rparr> in
          if \<not> frame_ok then (True, Some True, d, e)
          else (case peer_turn (peer e) (wire e) of
             None \<Rightarrow> (True, None, d, e)
           | Some (p, msgs, answer) \<Rightarrow>
               let e = e\<lparr>peer := p, delivered := delivered e @ msgs\<rparr> in
               if \<not> answer_ok \<or> answer = [] then (True, Some True, d, e)
               else (case dcProcessData ack_env (Some d) (Some answer) (length answer) False of
                       Some (_, Some d', signalled) \<Rightarrow> (True, Some (\<not> signalled), d', e)
                     | _ \<Rightarrow> (True, None, d, e))))"

definition duplex_env :: "duplex dcl2_env" where
  "duplex_env =
     \<lparr>mutexInit = \<lambda>p e. (True, e), mutexLock = \<lambda>p e. (True, e), mutexUnlock = \<lambda>p e. (True, e),
      condvarInit = \<lambda>p e. (True, e), condvarWait = \<lambda>p ms t d e. duplex_wait d e,
      condvarSignal = \<lambda>p e. (True, e), transmitBytes = \<lambda>b p e. (True, e\<lparr>wire := b\<rparr>)\<rparr>"

section \<open>Sequence numbers\<close>

lemma ucast_seq:
  assumes "s < 8"
  shows "ucast (ucast s :: 3 word) = (s :: byte)"
proof -
  have "ucast (ucast s :: 3 word) = take_bit 3 s"
    by (rule bit_word_eqI) (auto simp: bit_simps)
  also have "\<dots> = s" using mod8_small [OF assms] by (simp add: take_bit_eq_mod)
  finally show ?thesis .
qed

lemma ucast_seq3: "ucast (ucast q :: byte) = (q :: 3 word)"
  by (rule bit_word_eqI) (auto simp: bit_simps)

lemma seq_next:
  assumes "s < (8 :: byte)"
  shows "((s + 1) mod 8 + 7) mod 8 = s" "s \<noteq> (s + 1) mod 8"
proof -
  have "((s + 1) mod 8 + 7) mod 8 = (8 mod 8 + s) mod 8"
    by (simp only: mod8_add) (simp add: add.commute)
  also have "\<dots> = s" using mod8_small [OF assms] by simp
  finally show "((s + 1) mod 8 + 7) mod 8 = s" .
  have u: "unat s < 8" using assms by (simp add: word_less_nat_alt)
  then have "unat ((s + 1) mod 8) = (unat s + 1) mod 8"
    by (simp add: unat_mod unat_word_ariths)
  moreover have "unat s \<noteq> (unat s + 1) mod 8" using u by presburger
  ultimately show "s \<noteq> (s + 1) mod 8" by metis
qed

section \<open>One frame, one answer\<close>

lemma log_env_simps [simp]:
  "mutexLock log_env p e = (True, e)" "mutexUnlock log_env p e = (True, e)"
  "transmitBytes log_env b p e = (True, e @ [b])"
  by (simp_all add: log_env_def)

lemma ack_env_mutex: "mutex_ok ack_env"
  by (simp add: mutex_ok_def ack_env_def)

lemma build_ack: "build_frame (ack_control d) None 0 = Some (Inr 0, frame_bytes (ack_control d) [])"
  by (rule build_control) (simp add: ack_control_def)

lemma data_payload: "frame c = YAHDLC_FRAME_DATA \<Longrightarrow> payload_sent c m = m \<and> control_carried c = c"
  by (simp add: payload_sent_def control_carried_def)

text \<open>A peer that accepts: it is between frames, connected, and has no message pending.\<close>

definition peer_ready :: "DeadcomL2 \<Rightarrow> byte \<Rightarrow> bool" where
  "peer_ready p r \<longleftrightarrow> link_idle p \<and> (state p = DC_CONNECTED \<or> state p = DC_TRANSMITTING) \<and>
     \<not> extractionComplete p \<and> recv_number p = r"

lemma peer_ready_size: "peer_ready p r \<Longrightarrow> extractionBufferSize p = 0"
  by (auto simp: peer_ready_def link_idle_def link_inv_def)

lemma process_new_message:
  assumes "peer_ready p r" "frame c = YAHDLC_FRAME_DATA" "ucast (send_seq_no c) = r"
    and "m \<noteq> []" "length m + 2 \<le> DEADCOM_PAYLOAD_MAX_LEN"
  shows "\<exists>p'. dcProcessData log_env (Some p) (Some (frame_bytes c m)) (length (frame_bytes c m)) []
      = Some (DC_OK, Some p', []) \<and> link_idle p' \<and> state p' = state p \<and> extractionComplete p' \<and>
    recv_number p' = (r + 1) mod 8 \<and> unat (extractionBufferSize p') = length m \<and>
    take (length m) (extractionBuffer p') = m"
proof -
  have idle: "link_idle p" using assms(1) by (simp add: peer_ready_def)
  have fits: "fits c m" using assms(2, 5) by (simp add: fits_def data_payload)
  let ?p = "(after_frame c m p)\<lparr>extractionBufferSize := int16_of_size (length m),
    extractionComplete := True, extractionBuffer := m @ drop (length m) (extractionBuffer p),
    recv_number := (r + 1) mod 8\<rparr>"
  have "buf_copy (extractionBuffer p) (filled (scratchpadBuffer p) (frame_body c m)) (length m)
      = Some (m @ drop (length m) (extractionBuffer p))"
    using idle assms(2, 5) length_filled [of "frame_body c m" "scratchpadBuffer p"]
    by (simp add: buf_copy_Some filled_def drop_frame_body data_payload link_idle_def link_inv_def
        length_frame_body_payload)
  then have run: "dcProcessData log_env (Some p) (Some (frame_bytes c m)) (length (frame_bytes c m)) []
      = Some (DC_OK, Some ?p, [])"
    using assms(1-4) peer_ready_size [OF assms(1)]
    by (auto simp: process_frame [OF log_env_mutex idle fits] handle_frame_def handle_data_def
        data_payload peer_ready_def Let_def)
  have "link_inv ?p"
    using dcProcessData_reach [OF link_inv_ready run] inv.reach_keeps idle
    by (auto simp: link_idle_def)
  then have "link_idle ?p" by (simp add: link_idle_def parser_idle_def)
  then show ?thesis
    using run int16_of_size_small [of "length m"] assms(5) by (intro exI [of _ ?p]) simp
qed

lemma pick_up_message:
  assumes "link_inv p" "state p = DC_CONNECTED \<or> state p = DC_TRANSMITTING" "extractionComplete p"
  defines "n \<equiv> unat (extractionBufferSize p)"
  shows "dcGetReceivedMsg log_env (Some p) (Some (replicate DEADCOM_PAYLOAD_MAX_LEN 0)) (Some 0) out
    = Some (DC_OK,
        Some (take n (extractionBuffer p) @ drop n (replicate DEADCOM_PAYLOAD_MAX_LEN 0)), Some n,
        Some (p\<lparr>extractionBufferSize := 0, extractionComplete := False\<rparr>),
        out @ [frame_bytes (ack_control p) []])"
proof -
  have "size_of_int16 (extractionBufferSize p) = n" "n \<le> length (extractionBuffer p)"
    "n \<le> DEADCOM_PAYLOAD_MAX_LEN"
    using assms(1) by (simp_all add: n_def link_inv_def size_of_int16_small)
  then show ?thesis
    using assms(2, 3) by (auto simp: dcGetReceivedMsg_def build_ack buf_copy_def Let_def)
qed

lemma nothing_to_pick_up:
  assumes "state p = DC_CONNECTED \<or> state p = DC_TRANSMITTING" "\<not> extractionComplete p"
  shows "dcGetReceivedMsg log_env (Some p) b (Some 0) out = Some (DC_OK, b, Some 0, Some p, out)"
  using assms by (auto simp: dcGetReceivedMsg_def)

lemma link_inv_taken:
  "link_inv p \<Longrightarrow> link_inv (p\<lparr>extractionBufferSize := 0, extractionComplete := False\<rparr>)"
  by (simp add: link_inv_def)

lemma peer_turn_new:
  assumes "peer_ready p r" "frame c = YAHDLC_FRAME_DATA" "ucast (send_seq_no c) = r"
    and "m \<noteq> []" "length m + 2 \<le> DEADCOM_PAYLOAD_MAX_LEN"
  shows "\<exists>p'. peer_turn p (frame_bytes c m) = Some (p', [m], frame_bytes (ack_control p') []) \<and>
    peer_ready p' ((r + 1) mod 8)"
proof -
  obtain p1 where run: "dcProcessData log_env (Some p) (Some (frame_bytes c m))
      (length (frame_bytes c m)) [] = Some (DC_OK, Some p1, [])"
    and p1: "link_idle p1" "state p1 = state p" "extractionComplete p1"
      "recv_number p1 = (r + 1) mod 8" "unat (extractionBufferSize p1) = length m"
      "take (length m) (extractionBuffer p1) = m"
    using process_new_message [OF assms] by blast
  let ?p = "p1\<lparr>extractionBufferSize := 0, extractionComplete := False\<rparr>"
  have "ack_control ?p = ack_control p1" by (simp add: ack_control_def)
  moreover have "peer_ready ?p ((r + 1) mod 8)"
    using p1 assms(1) link_inv_taken by (simp add: peer_ready_def link_idle_def)
  moreover have "dcGetReceivedMsg log_env (Some p1) (Some (replicate DEADCOM_PAYLOAD_MAX_LEN 0))
      (Some 0) [] = Some (DC_OK, Some (m @ drop (length m) (replicate DEADCOM_PAYLOAD_MAX_LEN 0)),
        Some (length m), Some ?p, [frame_bytes (ack_control p1) []])"
    using pick_up_message [of p1 "[]"] p1 assms(1) by (simp add: peer_ready_def link_idle_def)
  ultimately show ?thesis
    using run assms(4) by (simp add: peer_turn_def)
qed

lemma peer_turn_duplicate:
  assumes "peer_ready p ((r + 1) mod 8)" "r < 8" "frame c = YAHDLC_FRAME_DATA"
    "ucast (send_seq_no c) = r" "length m + 2 \<le> DEADCOM_PAYLOAD_MAX_LEN"
  shows "\<exists>p'. peer_turn p (frame_bytes c m) = Some (p', [], frame_bytes (ack_control p') []) \<and>
    peer_ready p' ((r + 1) mod 8)"
proof -
  have idle: "link_idle p" using assms(1) by (simp add: peer_ready_def)
  have fits: "fits c m" using assms(3, 5) by (simp add: fits_def data_payload)
  let ?p = "after_frame c m p"
  have ack: "ack_control ?p = ack_control p" by (simp add: ack_control_def)
  have "dcProcessData log_env (Some p) (Some (frame_bytes c m)) (length (frame_bytes c m)) []
      = Some (DC_OK, Some ?p, [frame_bytes (ack_control p) []])"
    using assms seq_next(2) [OF assms(2)]
    by (auto simp: process_frame [OF log_env_mutex idle fits] handle_frame_def handle_data_def
        data_payload peer_ready_def Let_def build_ack ack)
  moreover have "peer_ready ?p ((r + 1) mod 8)"
    using assms(1) link_idle_after_frame [OF idle fits] by (simp add: peer_ready_def)
  moreover from this have "dcGetReceivedMsg log_env (Some ?p) b (Some 0) out
      = Some (DC_OK, b, Some 0, Some ?p, out)" for b out
    by (intro nothing_to_pick_up) (simp_all add: peer_ready_def)
  ultimately show ?thesis
    by (simp add: peer_turn_def ack)
qed

lemma ack_arrives:
  assumes "link_idle d" "state d = DC_TRANSMITTING" "next_expected_ack d = r" "r < 8"
    and "recv_number p = (r + 1) mod 8"
  defines "d' \<equiv> (after_frame (ack_control p) [] d)
    \<lparr>next_expected_ack := (r + 1) mod 8, last_response := DC_RESP_OK\<rparr>"
  shows "dcProcessData ack_env (Some d) (Some (frame_bytes (ack_control p) []))
      (length (frame_bytes (ack_control p) [])) False = Some (DC_OK, Some d', True) \<and> link_idle d'"
proof -
  have fits: "fits (ack_control p) []" by (rule fits_control) (simp add: ack_control_def)
  have seq: "ucast (recv_seq_no (control_carried (ack_control p))) = r"
    using seq_next(1) [OF assms(4)] ucast_seq [OF assms(4)]
    by (simp add: ack_control_def control_carried_def assms(5))
  have signal: "condvarSignal ack_env q e = (True, True)" for q e by (simp add: ack_env_def)
  have frame_ack: "frame (ack_control p) = YAHDLC_FRAME_ACK" by (simp add: ack_control_def)
  have run: "dcProcessData ack_env (Some d) (Some (frame_bytes (ack_control p) []))
      (length (frame_bytes (ack_control p) [])) False = Some (DC_OK, Some d', True)"
    using assms(2, 3) seq
    by (simp add: process_frame [OF ack_env_mutex assms(1) fits] handle_frame_def handle_ack_def
        signal_waiter_def frame_ack signal d'_def)
  have "link_inv d'"
    using dcProcessData_reach [OF link_inv_ready run] inv.reach_keeps assms(1)
    by (auto simp: link_idle_def)
  then show ?thesis using run by (simp add: link_idle_def parser_idle_def d'_def)
qed

section \<open>A wait of the sender\<close>

text \<open>
  The sender waits for the acknowledgment of message \<open>m\<close> with number \<open>r\<close>; the peer is
  before or behind it, and \<open>before\<close> are the messages delivered before.
\<close>

definition awaiting :: "byte \<Rightarrow> DeadcomL2 \<Rightarrow> bool" where
  "awaiting r d \<longleftrightarrow> link_idle d \<and> state d = DC_TRANSMITTING \<and> next_expected_ack d = r \<and>
     send_number d = (r + 1) mod 8"

definition medium_at :: "byte \<Rightarrow> byte list \<Rightarrow> byte list list \<Rightarrow> duplex \<Rightarrow> bool" where
  "medium_at r m before e \<longleftrightarrow>
     peer_ready (peer e) r \<and> delivered e = before \<or>
     peer_ready (peer e) ((r + 1) mod 8) \<and> delivered e = before @ [m]"

text \<open>The message is on the wire.\<close>

definition on_wire :: "byte \<Rightarrow> byte list \<Rightarrow> duplex \<Rightarrow> bool" where
  "on_wire r m e \<longleftrightarrow> (\<exists>c. frame c = YAHDLC_FRAME_DATA \<and> ucast (send_seq_no c) = r \<and>
     wire e = frame_bytes c m) \<and> m \<noteq> [] \<and> length m + 2 \<le> DEADCOM_PAYLOAD_MAX_LEN"

lemma peer_turn_awaited:
  assumes "medium_at r m before e" "on_wire r m e" "r < 8"
  shows "\<exists>p msgs. peer_turn (peer e) (wire e) = Some (p, msgs, frame_bytes (ack_control p) []) \<and>
    peer_ready p ((r + 1) mod 8) \<and> delivered e @ msgs = before @ [m]"
proof -
  obtain c where c: "frame c = YAHDLC_FRAME_DATA" "ucast (send_seq_no c) = r"
      "wire e = frame_bytes c m" and m: "m \<noteq> []" "length m + 2 \<le> DEADCOM_PAYLOAD_MAX_LEN"
    using assms(2) by (auto simp: on_wire_def)
  show ?thesis
  proof (cases "peer_ready (peer e) r \<and> delivered e = before")
    case True
    then show ?thesis using peer_turn_new [of "peer e" r c m] c m by auto
  next
    case False
    then have "peer_ready (peer e) ((r + 1) mod 8)" "delivered e = before @ [m]"
      using assms(1) by (auto simp: medium_at_def)
    then show ?thesis using peer_turn_duplicate [of "peer e" r c m] c m assms(3) by auto
  qed
qed

text \<open>
  The outcome of a wait: an acknowledgment when frame and answer get through, otherwise a
  timeout with the sender unchanged.
\<close>

lemma duplex_wait_outcome:
  assumes "awaiting r d" "medium_at r m before e" "on_wire r m e" "r < 8"
  shows "\<exists>d' e'. fates e' = tl (fates e) \<and>
    (if fates e \<noteq> [] \<and> hd (fates e) = (True, True)
     then duplex_wait d e = (True, Some False, d', e') \<and> link_idle d' \<and>
       last_response d' = DC_RESP_OK \<and> next_expected_ack d' = (r + 1) mod 8 \<and>
       send_number d' = (r + 1) mod 8 \<and>
       peer_ready (peer e') ((r + 1) mod 8) \<and> delivered e' = before @ [m]
     else duplex_wait d e = (True, Some True, d, e') \<and> medium_at r m before e')"
proof (cases "fates e")
  case Nil
  then show ?thesis using assms(2) by (auto simp: duplex_wait_def)
next
  case (Cons x fs)
  obtain f a where x: "x = (f, a)" by fastforce
  obtain p msgs where turn: "peer_turn (peer e) (wire e) = Some (p, msgs, frame_bytes (ack_control p) [])"
    and p: "peer_ready p ((r + 1) mod 8)" "delivered e @ msgs = before @ [m]"
    using peer_turn_awaited [OF assms(2-4)] by blast
  let ?e = "e\<lparr>fates := fs, peer := p, delivered := delivered e @ msgs\<rparr>"
  have after: "medium_at r m before ?e" using p by (simp add: medium_at_def)
  have earlier: "medium_at r m before (e\<lparr>fates := fs\<rparr>)" using assms(2) by (simp add: medium_at_def)
  show ?thesis
  proof (cases "f \<and> a")
    case True
    let ?d = "(after_frame (ack_control p) [] d)
      \<lparr>next_expected_ack := (r + 1) mod 8, last_response := DC_RESP_OK\<rparr>"
    have "dcProcessData ack_env (Some d) (Some (frame_bytes (ack_control p) []))
        (length (frame_bytes (ack_control p) [])) False = Some (DC_OK, Some ?d, True) \<and> link_idle ?d"
      using assms(1, 4) p(1) by (intro ack_arrives) (simp_all add: awaiting_def peer_ready_def)
    then show ?thesis
      using Cons x True turn p assms(1)
      by (intro exI [of _ ?d] exI [of _ ?e])
        (simp add: duplex_wait_def frame_bytes_not_Nil awaiting_def)
  next
    case False
    show ?thesis
    proof (cases f)
      case True
      then show ?thesis
        using Cons x False turn after
        by (intro exI [of _ d] exI [of _ ?e]) (simp add: duplex_wait_def)
    next
      case fr: False
      then show ?thesis
        using Cons x earlier
        by (intro exI [of _ d] exI [of _ "e\<lparr>fates := fs\<rparr>"]) (simp add: duplex_wait_def)
    qed
  qed
qed

section \<open>The retransmission loop over the medium\<close>

text \<open>Whether one of the next \<open>k\<close> waits sees both the frame and the answer get through.\<close>

definition gets_through :: "nat \<Rightarrow> duplex \<Rightarrow> bool" where
  "gets_through k e \<longleftrightarrow> (True, True) \<in> set (take k (fates e))"

lemma gets_through_Suc:
  "gets_through (Suc k) e \<longleftrightarrow> fates e \<noteq> [] \<and> hd (fates e) = (True, True) \<or>
     (True, True) \<in> set (take k (tl (fates e)))"
  by (cases "fates e") (auto simp: gets_through_def)

text \<open>Sender and peer agree on the next sequence number.\<close>

definition in_step :: "DeadcomL2 \<Rightarrow> duplex \<Rightarrow> bool" where
  "in_step d e \<longleftrightarrow> link_idle d \<and> state d = DC_CONNECTED \<and>
     next_expected_ack d = send_number d \<and> peer_ready (peer e) (send_number d)"

lemma duplex_env_simps [simp]:
  "mutexLock duplex_env p e = (True, e)" "mutexUnlock duplex_env p e = (True, e)"
  "transmitBytes duplex_env b p e = (True, e\<lparr>wire := b\<rparr>)"
  "condvarWait duplex_env p ms t d e = duplex_wait d e"
  by (simp_all add: duplex_env_def)

lemma duplex_env_mutex: "mutex_ok duplex_env"
  by (simp add: mutex_ok_def)

lemma send_loop_duplex:
  assumes "frame c = YAHDLC_FRAME_DATA" "ucast (send_seq_no c) = r" "r < 8"
    and "m \<noteq> []" "length m + 2 \<le> DEADCOM_PAYLOAD_MAX_LEN"
  shows "unat (failure_count d) + k = 3 \<Longrightarrow> awaiting r d \<Longrightarrow> medium_at r m before e \<Longrightarrow>
    \<exists>d' e'. send_loop duplex_env (frame_bytes c m) d e =
        Some (if gets_through k e then SendAcked else SendDropped, d', e') \<and>
      (if gets_through k e
       then link_idle d' \<and> next_expected_ack d' = (r + 1) mod 8 \<and> send_number d' = (r + 1) mod 8 \<and>
         peer_ready (peer e') ((r + 1) mod 8) \<and> delivered e' = before @ [m]
       else medium_at r m before e')"
proof (induction k arbitrary: d e)
  case 0
  then have "\<not> failure_count d < DEADCOM_MAX_FAILURE_COUNT"
    by (simp add: word_less_nat_alt DEADCOM_MAX_FAILURE_COUNT_def)
  then show ?case
    using 0 by (simp add: send_loop_step gets_through_def)
next
  case (Suc k)
  let ?e = "e\<lparr>wire := frame_bytes c m\<rparr>"
  have less: "failure_count d < DEADCOM_MAX_FAILURE_COUNT"
    using Suc.prems(1) by (simp add: word_less_nat_alt DEADCOM_MAX_FAILURE_COUNT_def)
  have "medium_at r m before ?e" "on_wire r m ?e"
    using Suc.prems(3) assms by (auto simp: medium_at_def on_wire_def)
  then obtain d1 e1 where fates: "fates e1 = tl (fates e)"
    and outcome: "if fates e \<noteq> [] \<and> hd (fates e) = (True, True)
     then duplex_wait d ?e = (True, Some False, d1, e1) \<and> link_idle d1 \<and>
       last_response d1 = DC_RESP_OK \<and> next_expected_ack d1 = (r + 1) mod 8 \<and>
       send_number d1 = (r + 1) mod 8 \<and>
       peer_ready (peer e1) ((r + 1) mod 8) \<and> delivered e1 = before @ [m]
     else duplex_wait d ?e = (True, Some True, d, e1) \<and> medium_at r m before e1"
    using duplex_wait_outcome [OF Suc.prems(2), of m before ?e] assms(3) by auto
  show ?case
  proof (cases "fates e \<noteq> [] \<and> hd (fates e) = (True, True)")
    case True
    then show ?thesis
      using outcome less by (simp add: send_loop_step [of _ _ d] send_check_def gets_through_Suc)
  next
    case False
    let ?d = "d\<lparr>failure_count := failure_count d + 1\<rparr>"
    have "unat (failure_count ?d) + k = 3"
      using Suc.prems(1) by (simp add: unat_word_ariths)
    moreover have "awaiting r ?d"
      using Suc.prems(2) by (auto simp: awaiting_def link_idle_def link_inv_def)
    moreover have "medium_at r m before e1" using False outcome by auto
    ultimately obtain d' e' where "send_loop duplex_env (frame_bytes c m) ?d e1 =
        Some (if gets_through k e1 then SendAcked else SendDropped, d', e') \<and>
      (if gets_through k e1
       then link_idle d' \<and> next_expected_ack d' = (r + 1) mod 8 \<and> send_number d' = (r + 1) mod 8 \<and>
         peer_ready (peer e') ((r + 1) mod 8) \<and> delivered e' = before @ [m]
       else medium_at r m before e')"
      using Suc.IH by blast
    moreover have "gets_through (Suc k) e \<longleftrightarrow> gets_through k e1"
      using False fates unfolding gets_through_Suc by (auto simp: gets_through_def)
    moreover have "send_loop duplex_env (frame_bytes c m) d e
        = send_loop duplex_env (frame_bytes c m) ?d e1"
      using False outcome less by (auto simp: send_loop_step [of _ _ d] send_check_def)
    ultimately show ?thesis by simp
  qed
qed

lemma in_step_less: "in_step d e \<Longrightarrow> send_number d < 8"
  by (simp add: in_step_def link_idle_def link_inv_def)

lemma send_over_medium:
  assumes "in_step d e" "m \<noteq> []" "length m + 2 \<le> DEADCOM_PAYLOAD_MAX_LEN"
  shows "\<exists>d' e'. dcSendMessage duplex_env (Some d) (Some m) (length m) e =
      Some (if gets_through 3 e then DC_OK else DC_LINK_RESET, Some d', e') \<and>
    (if gets_through 3 e
     then in_step d' e' \<and> send_number d' = (send_number d + 1) mod 8 \<and>
       delivered e' = delivered e @ [m]
     else state d' = DC_DISCONNECTED \<and> delivered e' \<in> {delivered e, delivered e @ [m]})"
proof -
  let ?r = "send_number d"
  let ?c = "data_control d"
  let ?d = "d\<lparr>send_number := (?r + 1) mod 8, failure_count := 0, state := DC_TRANSMITTING\<rparr>"
  have r: "?r < 8" using in_step_less [OF assms(1)] .
  have c: "frame ?c = YAHDLC_FRAME_DATA" "ucast (send_seq_no ?c) = ?r"
    by (simp_all add: data_control_def ucast_seq [OF r])
  have "awaiting ?r ?d"
    using assms(1) mod8_less by (simp add: awaiting_def in_step_def link_idle_def link_inv_def)
  moreover have "medium_at ?r m (delivered e) e"
    using assms(1) by (simp add: in_step_def medium_at_def)
  ultimately obtain d1 e1 where loop: "send_loop duplex_env (frame_bytes ?c m) ?d e =
        Some (if gets_through 3 e then SendAcked else SendDropped, d1, e1)"
    and after: "if gets_through 3 e
       then link_idle d1 \<and> next_expected_ack d1 = (?r + 1) mod 8 \<and> send_number d1 = (?r + 1) mod 8 \<and>
         peer_ready (peer e1) ((?r + 1) mod 8) \<and> delivered e1 = delivered e @ [m]
       else medium_at ?r m (delivered e) e1"
    using send_loop_duplex [OF c r assms(2, 3), of ?d 3 "delivered e" e] by auto
  have f: "build_frame ?c (Some m) (length m) = Some (Inr 0, frame_bytes ?c m)"
    using build_data [OF c(1), of "length m" m] by simp
  have st: "state d = DC_CONNECTED" using assms(1) by (simp add: in_step_def)
  show ?thesis
  proof (cases "gets_through 3 e")
    case True
    then have "dcSendMessage duplex_env (Some d) (Some m) (length m) e =
        Some (DC_OK, Some (d1\<lparr>state := DC_CONNECTED\<rparr>), e1)"
      using loop f assms(2, 3) st
      by (simp add: dcSendMessage_def leave_ok [OF duplex_env_mutex] Let_def)
    then show ?thesis
      using True after by (auto simp: in_step_def link_idle_def link_inv_def mod8_less)
  next
    case False
    then have "dcSendMessage duplex_env (Some d) (Some m) (length m) e =
        Some (DC_LINK_RESET, Some (resetLink d1), e1)"
      using loop f assms(2, 3) st
      by (simp add: dcSendMessage_def leave_ok [OF duplex_env_mutex] Let_def)
    then show ?thesis
      using False after by (auto simp: resetLink_def medium_at_def)
  qed
qed

section \<open>A sequence of messages\<close>

text \<open>
  Sending a list of messages one after the other until one is not acknowledged; the
  number says how many returned \<open>DC_OK\<close>.
\<close>

fun send_all ::
  "'e dcl2_env \<Rightarrow> byte list list \<Rightarrow> DeadcomL2 \<Rightarrow> 'e \<Rightarrow> (nat \<times> DeadcomL2 \<times> 'e) option" where
  "send_all env [] d e = Some (0, d, e)"
| "send_all env (m # ms) d e =
     (case dcSendMessage env (Some d) (Some m) (length m) e of
        Some (DC_OK, Some d, e) \<Rightarrow> map_option (\<lambda>(n, x). (Suc n, x)) (send_all env ms d e)
      | Some (_, Some d, e) \<Rightarrow> Some (0, d, e)
      | _ \<Rightarrow> None)"

definition sendable :: "byte list \<Rightarrow> bool" where
  "sendable m \<longleftrightarrow> m \<noteq> [] \<and> length m + 2 \<le> DEADCOM_PAYLOAD_MAX_LEN"

lemma send_all_delivers:
  assumes "in_step d e" "list_all sendable ms"
  shows "\<exists>n d' e'. send_all duplex_env ms d e = Some (n, d', e') \<and> n \<le> length ms \<and>
    (if n = length ms
     then in_step d' e' \<and> delivered e' = delivered e @ ms
     else delivered e' = delivered e @ take n ms \<or> delivered e' = delivered e @ take (Suc n) ms)"
  using assms
proof (induction ms arbitrary: d e)
  case (Cons m ms)
  then obtain d1 e1 where send: "dcSendMessage duplex_env (Some d) (Some m) (length m) e =
      Some (if gets_through 3 e then DC_OK else DC_LINK_RESET, Some d1, e1)"
    and after: "if gets_through 3 e
     then in_step d1 e1 \<and> send_number d1 = (send_number d + 1) mod 8 \<and>
       delivered e1 = delivered e @ [m]
     else state d1 = DC_DISCONNECTED \<and> delivered e1 \<in> {delivered e, delivered e @ [m]}"
    using send_over_medium [OF Cons.prems(1), of m] by (auto simp: sendable_def)
  show ?case
  proof (cases "gets_through 3 e")
    case True
    then obtain n d' e' where "send_all duplex_env ms d1 e1 = Some (n, d', e')" "n \<le> length ms"
      "if n = length ms then in_step d' e' \<and> delivered e' = delivered e1 @ ms
       else delivered e' = delivered e1 @ take n ms \<or> delivered e' = delivered e1 @ take (Suc n) ms"
      using Cons.IH [of d1 e1] Cons.prems(2) after by auto
    then show ?thesis using True send after by (auto split: if_splits)
  next
    case False
    then show ?thesis using send after by auto
  qed
qed auto

section \<open>The handshake\<close>

lemma conn_ack_frame: "build_frame conn_ack_control None 0 = Some (Inr 0, frame_bytes conn_ack_control [])"
  by (rule build_control) (simp add: conn_ack_control_def)

lemma control_payload: "frame c \<noteq> YAHDLC_FRAME_DATA \<Longrightarrow> payload_sent c m = []"
  by (simp add: payload_sent_def)

lemma peer_turn_conn:
  assumes "link_idle p" "state p \<noteq> DC_CONNECTING"
  shows "\<exists>p'. peer_turn p (frame_bytes conn_control []) =
      Some (p', [], frame_bytes conn_ack_control []) \<and> peer_ready p' 0"
proof -
  have conn: "frame conn_control = YAHDLC_FRAME_CONN" "control_carried conn_control = conn_control"
    by (simp_all add: conn_control_def control_carried_def)
  have fits: "fits conn_control []" by (rule fits_control) (simp add: conn)
  let ?p = "conn_effect (after_frame conn_control [] p)"
  have signal: "condvarSignal log_env q e = (True, e)" for q e by (simp add: log_env_def)
  have run: "dcProcessData log_env (Some p) (Some (frame_bytes conn_control []))
      (length (frame_bytes conn_control [])) [] = Some (DC_OK, Some ?p, [frame_bytes conn_ack_control []])"
    using assms(2)
    by (cases "state p"; simp add: process_frame [OF log_env_mutex assms(1) fits] conn
        handle_frame_def handle_conn_def conn_ack_frame conn_effect_simps signal_waiter_def signal)
  have st: "state ?p = DC_CONNECTED" "\<not> extractionComplete ?p" "recv_number ?p = 0"
    using assms(2) by (cases "state p"; simp add: conn_effect_simps resetLink_def)+
  have "link_inv ?p"
    using dcProcessData_reach [OF link_inv_ready run] inv.reach_keeps assms(1)
    by (auto simp: link_idle_def)
  moreover have "yahdlc_state ?p = restarted DEADCOM_MAX_FRAME_LEN"
    by (cases "state p"; simp add: conn_effect_simps resetLink_def)
  ultimately have "peer_ready ?p 0"
    using st by (simp add: peer_ready_def link_idle_def parser_idle_def)
  then show ?thesis
    using run nothing_to_pick_up [of ?p] st by (simp add: peer_turn_def)
qed

lemma conn_ack_arrives:
  assumes "link_idle d" "state d = DC_CONNECTING"
  defines "d' \<equiv> (after_frame conn_ack_control [] d)\<lparr>last_response := DC_RESP_OK\<rparr>"
  shows "dcProcessData ack_env (Some d) (Some (frame_bytes conn_ack_control []))
      (length (frame_bytes conn_ack_control [])) False = Some (DC_OK, Some d', True) \<and> link_idle d'"
proof -
  have c: "frame conn_ack_control = YAHDLC_FRAME_CONN_ACK" by (simp add: conn_ack_control_def)
  have fits: "fits conn_ack_control []" by (rule fits_control) (simp add: c)
  have signal: "condvarSignal ack_env q e = (True, True)" for q e by (simp add: ack_env_def)
  have run: "dcProcessData ack_env (Some d) (Some (frame_bytes conn_ack_control []))
      (length (frame_bytes conn_ack_control [])) False = Some (DC_OK, Some d', True)"
    using assms(2)
    by (simp add: process_frame [OF ack_env_mutex assms(1) fits] c handle_frame_def
        handle_conn_ack_def signal_waiter_def signal d'_def)
  have "link_inv d'"
    using dcProcessData_reach [OF link_inv_ready run] inv.reach_keeps assms(1)
    by (auto simp: link_idle_def)
  then show ?thesis using run by (simp add: link_idle_def parser_idle_def d'_def)
qed

lemma link_inv_reset: "link_inv d \<Longrightarrow> link_inv ((resetLink d)\<lparr>state := s\<rparr>)"
  by (simp add: link_inv_def resetLink_def)

lemma connect_over_medium:
  assumes "link_idle d" "state d = DC_DISCONNECTED" "link_idle (peer e)" "state (peer e) \<noteq> DC_CONNECTING"
  shows "\<exists>d' e'. dcConnect duplex_env (Some d) e =
      Some (if gets_through 1 e then DC_OK else DC_NOT_CONNECTED, Some d', e') \<and>
    delivered e' = delivered e \<and>
    (if gets_through 1 e then in_step d' e' \<and> send_number d' = 0 else state d' = DC_DISCONNECTED)"
proof -
  let ?F = "frame_bytes conn_control []"
  let ?d = "d\<lparr>state := DC_CONNECTING\<rparr>"
  let ?e = "e\<lparr>wire := ?F\<rparr>"
  have idle: "link_idle ?d" using assms(1) by (simp add: link_idle_def link_inv_def)
  obtain p where turn: "peer_turn (peer e) ?F = Some (p, [], frame_bytes conn_ack_control [])"
    and p: "peer_ready p 0"
    using peer_turn_conn [OF assms(3, 4)] by blast
  let ?d1 = "(after_frame conn_ack_control [] ?d)\<lparr>last_response := DC_RESP_OK\<rparr>"
  have ack: "dcProcessData ack_env (Some ?d) (Some (frame_bytes conn_ack_control []))
      (length (frame_bytes conn_ack_control [])) False = Some (DC_OK, Some ?d1, True)" "link_idle ?d1"
    using conn_ack_arrives [OF idle] by simp_all
  have run: "dcConnect duplex_env (Some d) e =
    (case duplex_wait ?d ?e of
       (w, t, d1, e1) \<Rightarrow> if \<not> w then connect_finish duplex_env False False d1 e1
         else Option.bind t (\<lambda>t. connect_finish duplex_env True t d1 e1))"
    using assms(2) by (simp add: dcConnect_def build_conn case_prod_beta Let_def)
  show ?thesis
  proof (cases "gets_through 1 e")
    case True
    then obtain fs where "fates e = (True, True) # fs"
      by (cases "fates e") (auto simp: gets_through_def)
    then have "duplex_wait ?d ?e = (True, Some False, ?d1, e\<lparr>wire := ?F, fates := fs, peer := p\<rparr>)"
      using turn ack by (simp add: duplex_wait_def frame_bytes_not_Nil)
    then have "dcConnect duplex_env (Some d) e =
        Some (DC_OK, Some ((resetLink ?d1)\<lparr>state := DC_CONNECTED\<rparr>),
              e\<lparr>wire := ?F, fates := fs, peer := p\<rparr>)"
      by (simp add: run connect_finish_def)
    moreover have "link_idle ((resetLink ?d1)\<lparr>state := DC_CONNECTED\<rparr>)"
      using ack(2) link_inv_reset [of ?d1] by (simp add: link_idle_def resetLink_def)
    ultimately show ?thesis
      using True p by (simp add: in_step_def resetLink_def)
  next
    case False
    have "\<exists>e1. duplex_wait ?d ?e = (True, Some True, ?d, e1) \<and> delivered e1 = delivered e"
    proof (cases "fates e")
      case Nil
      then show ?thesis by (simp add: duplex_wait_def)
    next
      case (Cons x fs)
      obtain f a where x: "x = (f, a)" by fastforce
      then show ?thesis
        using False Cons turn by (cases f) (simp_all add: gets_through_def duplex_wait_def)
    qed
    then obtain e1 where "duplex_wait ?d ?e = (True, Some True, ?d, e1)" "delivered e1 = delivered e"
      by blast
    then have "dcConnect duplex_env (Some d) e =
        Some (DC_NOT_CONNECTED, Some (?d\<lparr>state := DC_DISCONNECTED\<rparr>), e1)"
      by (simp add: run connect_finish_def leave_ok [OF duplex_env_mutex])
    then show ?thesis using False \<open>delivered e1 = delivered e\<close> by simp
  qed
qed

section \<open>A handshake answered late\<close>

text \<open>
  The CONN request of the sender is lost, and while it waits for the answer the CONN\_ACK of
  an earlier handshake arrives.
\<close>

definition late_answer_env :: "duplex dcl2_env" where
  "late_answer_env =
     duplex_env\<lparr>condvarWait := \<lambda>p ms t d e.
       let answer = frame_bytes conn_ack_control [] in
       (case dcProcessData ack_env (Some d) (Some answer) (length answer) False of
          Some (_, Some d', signalled) \<Rightarrow> (True, Some (\<not> signalled), d', e)
        | _ \<Rightarrow> (True, None, d, e))\<rparr>"

lemma late_answer_connects:
  assumes "link_idle d" "state d = DC_DISCONNECTED"
  shows "\<exists>d' e'. dcConnect late_answer_env (Some d) e = Some (DC_OK, Some d', e') \<and> link_idle d' \<and>
    state d' = DC_CONNECTED \<and> send_number d' = 0 \<and> next_expected_ack d' = 0 \<and>
    peer e' = peer e \<and> delivered e' = delivered e \<and> fates e' = fates e"
proof -
  let ?d = "d\<lparr>state := DC_CONNECTING\<rparr>"
  let ?d1 = "(after_frame conn_ack_control [] ?d)\<lparr>last_response := DC_RESP_OK\<rparr>"
  have "link_idle ?d" using assms(1) by (simp add: link_idle_def link_inv_def)
  then have "dcProcessData ack_env (Some ?d) (Some (frame_bytes conn_ack_control []))
      (length (frame_bytes conn_ack_control [])) False = Some (DC_OK, Some ?d1, True)"
    and idle: "link_idle ?d1"
    using conn_ack_arrives [of ?d] by simp_all
  then have "dcConnect late_answer_env (Some d) e =
      Some (DC_OK, Some ((resetLink ?d1)\<lparr>state := DC_CONNECTED\<rparr>),
            e\<lparr>wire := frame_bytes conn_control []\<rparr>)"
    using assms(2)
    by (simp add: dcConnect_def build_conn connect_finish_def late_answer_env_def duplex_env_def Let_def)
  moreover have "link_idle ((resetLink ?d1)\<lparr>state := DC_CONNECTED\<rparr>)"
    using idle link_inv_reset [of ?d1] by (simp add: link_idle_def resetLink_def)
  ultimately show ?thesis by (simp add: resetLink_def)
qed

text \<open>A message that carries the number of one accepted before is confirmed and dropped.\<close>

lemma used_number_confirmed:
  assumes "link_idle d" "state d = DC_CONNECTED" "next_expected_ack d = send_number d"
    and "peer_ready (peer e) ((send_number d + 1) mod 8)" "fates e = (True, True) # fs" "sendable m"
  shows "\<exists>d' e'. dcSendMessage duplex_env (Some d) (Some m) (length m) e = Some (DC_OK, Some d', e') \<and>
    delivered e' = delivered e"
proof -
  let ?r = "send_number d"
  let ?c = "data_control d"
  let ?f = "frame_bytes ?c m"
  let ?d = "d\<lparr>send_number := (?r + 1) mod 8, failure_count := 0, state := DC_TRANSMITTING\<rparr>"
  have r: "?r < 8" using assms(1) by (simp add: link_idle_def link_inv_def)
  have m: "m \<noteq> []" "length m + 2 \<le> DEADCOM_PAYLOAD_MAX_LEN" using assms(6) by (auto simp: sendable_def)
  have f: "build_frame ?c (Some m) (length m) = Some (Inr 0, ?f)"
    using build_data [of ?c "length m" m] by (simp add: data_control_def)
  have idle: "link_idle ?d" using assms(1) by (simp add: link_idle_def link_inv_def mod8_less)
  obtain p where p: "peer_turn (peer e) ?f = Some (p, [], frame_bytes (ack_control p) [])"
      "peer_ready p ((?r + 1) mod 8)"
    using peer_turn_duplicate [OF assms(4) r, of ?c m] m by (auto simp: data_control_def ucast_seq [OF r])
  let ?d1 = "(after_frame (ack_control p) [] ?d)
    \<lparr>next_expected_ack := (?r + 1) mod 8, last_response := DC_RESP_OK\<rparr>"
  let ?e1 = "e\<lparr>wire := ?f, fates := fs, peer := p\<rparr>"
  have "dcProcessData ack_env (Some ?d) (Some (frame_bytes (ack_control p) []))
      (length (frame_bytes (ack_control p) [])) False = Some (DC_OK, Some ?d1, True)"
    using ack_arrives [OF idle, of ?r p] assms(3) r p(2) by (simp add: peer_ready_def)
  then have "duplex_wait ?d (e\<lparr>wire := ?f\<rparr>) = (True, Some False, ?d1, ?e1)"
    using assms(5) p(1) by (simp add: duplex_wait_def frame_bytes_not_Nil)
  then have "send_loop duplex_env ?f ?d e = Some (SendAcked, ?d1, ?e1)"
    by (subst send_loop_step) (simp add: send_check_def duplex_env_def DEADCOM_MAX_FAILURE_COUNT_def)
  then show ?thesis
    using assms(2) m f by (simp add: dcSendMessage_def leave_ok [OF duplex_env_mutex] Let_def)
qed

section \<open>Two fresh stations\<close>

definition sample_duplex :: "(bool \<times> bool) list \<Rightarrow> duplex" where
  "sample_duplex fs = \<lparr>peer = sample_link, wire = [], delivered = [], fates = fs\<rparr>"

lemma sample_in_step: "in_step sample_link (sample_duplex fs)"
  using sample_link_idle
  by (simp add: in_step_def peer_ready_def sample_duplex_def)
    (simp add: sample_link_def resetLink_def dc_zero_def)

end
