(* ===== verification/Dcl2_Threads.thy ===== *)
theory Dcl2_Threads
  imports Dcl2_Exchange
begin

text \<open>
  \<open>dcSendMessage\<close> cut at its waits.  While it waits the mutex is free and other threads run,
  so a model of concurrent threads needs the pieces between the waits as steps of their own:
  the call up to its first wait, and what follows each wait up to the next one or the return.
  The function is these steps, one after the other.
\<close>

section \<open>The pieces\<close>

text \<open>A call that has returned, or one that waits for the acknowledgment of a frame.\<close>

datatype send_state = SendReturned DeadcomL2Result | SendWaiting "byte list"

text \<open>What follows the loop (lines 187 to 197, and the two exits inside it).\<close>

definition send_finish ::
  "'e dcl2_env \<Rightarrow> send_exit \<Rightarrow> DeadcomL2 \<Rightarrow> 'e \<Rightarrow> 'e dc_ret" where
  "send_finish env x d e =
     (case x of
        SendFailed \<Rightarrow> leave env DC_FAILURE d e
      | SendAcked \<Rightarrow> leave env DC_OK (d\<lparr>state := DC_CONNECTED\<rparr>) e
      | SendDropped \<Rightarrow> leave env DC_LINK_RESET (resetLink d) e)"

definition returned :: "'e dc_ret \<Rightarrow> (send_state \<times> DeadcomL2 \<times> 'e) option" where
  "returned r = map_option (\<lambda>(r, d, e). (SendReturned r, the d, e)) r"

text \<open>The head of the loop and the transmission (lines 158 to 165).\<close>

definition send_try ::
  "'e dcl2_env \<Rightarrow> byte list \<Rightarrow> DeadcomL2 \<Rightarrow> 'e \<Rightarrow> (send_state \<times> DeadcomL2 \<times> 'e) option" where
  "send_try env f d e =
     (if failure_count d < DEADCOM_MAX_FAILURE_COUNT then
        let (x, e) = transmitBytes env f (transmission_context_p d) e in
        if \<not> x then returned (send_finish env SendFailed (send_rollback d) e)
        else Some (SendWaiting f, d, e)
      else returned (send_finish env SendDropped d e))"

definition send_begin ::
  "'e dcl2_env \<Rightarrow> DeadcomL2 \<Rightarrow> byte list option \<Rightarrow> nat \<Rightarrow> 'e
     \<Rightarrow> (send_state \<times> DeadcomL2 \<times> 'e) option" where
  "send_begin env d message message_len e =
     (if message = None \<or> message_len = 0 \<or> message_len > DEADCOM_PAYLOAD_MAX_LEN
      then Some (SendReturned DC_FAILURE, d, e)
      else
        let (l, e) = mutexLock env (mutex_p d) e in
        if \<not> l then Some (SendReturned DC_FAILURE, d, e)
        else if state d = DC_TRANSMITTING then returned (leave env DC_FAILURE d e)
        else if state d \<noteq> DC_CONNECTED then returned (leave env DC_NOT_CONNECTED d e)
        else do {
          let control = data_control d;
          let d = d\<lparr>send_number := (send_number d + 1) mod 8, failure_count := 0,
                    state := DC_TRANSMITTING\<rparr>;
          (r, frame_data) \<leftarrow> build_frame control message message_len;
          if r = Inl EINVAL then returned (leave env DC_FAILURE d e)
          else send_try env frame_data d e
        })"

text \<open>After a wait (lines 167 to 184).\<close>

definition send_resume ::
  "'e dcl2_env \<Rightarrow> byte list \<Rightarrow> bool \<Rightarrow> bool option \<Rightarrow> DeadcomL2 \<Rightarrow> 'e
     \<Rightarrow> (send_state \<times> DeadcomL2 \<times> 'e) option" where
  "send_resume env f waited timed_out d e =
     (if \<not> waited then returned (send_finish env SendFailed (send_rollback d) e)
      else do {
        timed_out \<leftarrow> timed_out;
        (case send_check timed_out d of
           (Some x, d) \<Rightarrow> returned (send_finish env x d e)
         | (None, d) \<Rightarrow> send_try env f d e)
      })"

section \<open>The function is the pieces\<close>

partial_function (option) send_waits ::
  "'e dcl2_env \<Rightarrow> send_state \<Rightarrow> DeadcomL2 \<Rightarrow> 'e \<Rightarrow> (DeadcomL2Result \<times> DeadcomL2 \<times> 'e) option" where
  "send_waits env st d e =
     (case st of
        SendReturned r \<Rightarrow> Some (r, d, e)
      | SendWaiting f \<Rightarrow>
          let (w, timed_out, d, e) = condvarWait env (condvar_p d) DEADCOM_ACK_TIMEOUT_MS None d e in
          Option.bind (send_resume env f w timed_out d e) (\<lambda>(st, d, e). send_waits env st d e))"

definition waits_after ::
  "'e dcl2_env \<Rightarrow> (send_state \<times> DeadcomL2 \<times> 'e) option \<Rightarrow> (DeadcomL2Result \<times> DeadcomL2 \<times> 'e) option" where
  "waits_after env x = Option.bind x (\<lambda>(st, d, e). send_waits env st d e)"

lemma send_waits_step:
  "send_waits env (SendReturned r) d e = Some (r, d, e)"
  "send_waits env (SendWaiting f) d e =
     (case condvarWait env (condvar_p d) DEADCOM_ACK_TIMEOUT_MS None d e of
        (w, t, d, e) \<Rightarrow> waits_after env (send_resume env f w t d e))"
  by (subst send_waits.simps, simp add: waits_after_def Let_def)+

definition plain_ret :: "'e dc_ret \<Rightarrow> (DeadcomL2Result \<times> DeadcomL2 \<times> 'e) option" where
  "plain_ret = map_option (\<lambda>(r, d, e). (r, the d, e))"

lemma waits_after_simps [simp]:
  "waits_after env None = None"
  "waits_after env (Some (SendReturned r, d, e)) = Some (r, d, e)"
  "waits_after env (returned x) = plain_ret x"
  by (cases x; simp add: waits_after_def returned_def plain_ret_def send_waits_step case_prod_beta)+

definition loop_then_finish :: "'e dcl2_env \<Rightarrow> byte list \<Rightarrow> DeadcomL2 \<Rightarrow> 'e
     \<Rightarrow> (DeadcomL2Result \<times> DeadcomL2 \<times> 'e) option" where
  "loop_then_finish env f d e =
     Option.bind (send_loop env f d e) (\<lambda>(x, d, e). plain_ret (send_finish env x d e))"

text \<open>The loop is a fixed point of the same equation.\<close>

lemma try_step:
  "waits_after env (send_try env f d e) =
     (if failure_count d < DEADCOM_MAX_FAILURE_COUNT then
        (case transmitBytes env f (transmission_context_p d) e of
           (False, e) \<Rightarrow> plain_ret (send_finish env SendFailed (send_rollback d) e)
         | (True, e) \<Rightarrow> send_waits env (SendWaiting f) d e)
      else plain_ret (send_finish env SendDropped d e))"
  by (auto simp: send_try_def waits_after_def [of _ "Some _"] split: prod.split bool.split)

definition loop_after :: "'e dcl2_env \<Rightarrow> byte list \<Rightarrow> bool \<times> bool option \<times> DeadcomL2 \<times> 'e
     \<Rightarrow> (DeadcomL2Result \<times> DeadcomL2 \<times> 'e) option" where
  "loop_after env f = (\<lambda>(w, t, d, e).
     if \<not> w then plain_ret (send_finish env SendFailed (send_rollback d) e)
     else Option.bind t (\<lambda>t. case send_check t d of
       (Some x, d) \<Rightarrow> plain_ret (send_finish env x d e)
     | (None, d) \<Rightarrow> loop_then_finish env f d e))"

lemma loop_step:
  "loop_then_finish env f d e =
     (if failure_count d < DEADCOM_MAX_FAILURE_COUNT then
        (case transmitBytes env f (transmission_context_p d) e of
           (False, e) \<Rightarrow> plain_ret (send_finish env SendFailed (send_rollback d) e)
         | (True, e) \<Rightarrow>
             loop_after env f (condvarWait env (condvar_p d) DEADCOM_ACK_TIMEOUT_MS None d e))
      else plain_ret (send_finish env SendDropped d e))"
  unfolding loop_then_finish_def loop_after_def
  by (subst send_loop_step) (auto split: prod.split bool.split option.split)

lemma resume_then_waits:
  "waits_after env (send_resume env f w t d e) =
     (if \<not> w then plain_ret (send_finish env SendFailed (send_rollback d) e)
      else Option.bind t (\<lambda>t. case send_check t d of
        (Some x, d) \<Rightarrow> plain_ret (send_finish env x d e)
      | (None, d) \<Rightarrow> waits_after env (send_try env f d e)))"
  by (cases t) (auto simp: send_resume_def split: prod.split option.split)

lemma loop_is_waits:
  assumes "send_loop env f d e = Some (x, d', e')"
  shows "waits_after env (send_try env f d e) = plain_ret (send_finish env x d' e')"
  using assms
proof (induction rule: send_loop_induct)
  case (exhausted d e)
  then show ?case by (simp add: try_step)
next
  case (transmit_failed d e e1)
  then show ?case by (simp add: try_step)
next
  case (wait_failed d e e1 t d1 e2)
  then show ?case by (simp add: try_step send_waits_step resume_then_waits)
next
  case (decided d e e1 t d1 e2 y d2)
  then show ?case by (simp add: try_step send_waits_step resume_then_waits)
next
  case (again d e e1 t d1 e2 d2 y d' e')
  then show ?case by (simp add: try_step [of env f d] send_waits_step resume_then_waits)
qed

lemma returnedD:
  "returned z = Some (st, d, e) \<Longrightarrow> \<exists>r. st = SendReturned r \<and> plain_ret z = Some (r, d, e)"
  by (cases z) (auto simp: returned_def plain_ret_def)

lemma waits_is_loop:
  assumes "send_waits env (SendWaiting f) d e = Some y"
  shows "loop_after env f (condvarWait env (condvar_p d) DEADCOM_ACK_TIMEOUT_MS None d e) = Some y"
proof -
  let ?L = "\<lambda>d e. loop_after env f (condvarWait env (condvar_p d) DEADCOM_ACK_TIMEOUT_MS None d e)"
  let ?Q = "\<lambda>st d e y. case st of SendReturned r \<Rightarrow> y = (r, d, e) | SendWaiting g \<Rightarrow> g = f \<longrightarrow> ?L d e = Some y"
  let ?P = "\<lambda>env' st d e y. env' = env \<longrightarrow> ?Q st d e y"
  have "?P env (SendWaiting f) d e y"
  proof (rule send_waits.raw_induct [of ?P, OF _ assms], intro impI)
    fix run env' st d e y
    assume IH: "\<And>env' st d e y. run env' st d e = Some y \<Longrightarrow> ?P env' st d e y"
      and body: "(case st of
          SendReturned r \<Rightarrow> Some (r, d, e)
        | SendWaiting f \<Rightarrow>
            let (w, timed_out, d, e) = condvarWait env' (condvar_p d) DEADCOM_ACK_TIMEOUT_MS None d e in
            Option.bind (send_resume env' f w timed_out d e) (\<lambda>(st, d, e). run env' st d e)) = Some y"
      and env: "env' = env"
    have "?L d e = Some y" if st: "st = SendWaiting f"
    proof -
      obtain w t d1 e1 where w: "condvarWait env (condvar_p d) DEADCOM_ACK_TIMEOUT_MS None d e
          = (w, t, d1, e1)" using prod_cases4 by blast
      obtain st2 d2 e2 where r: "send_resume env f w t d1 e1 = Some (st2, d2, e2)"
        and y: "run env st2 d2 e2 = Some y"
        using body st env w by (auto simp: bind_eq_Some_conv)
      have Q: "?Q st2 d2 e2 y" using IH [OF y] by blast
      have exit: "plain_ret z = Some y" if "returned z = Some (st2, d2, e2)" for z
        using Q returnedD [OF that] by auto
      show ?thesis
      proof (cases "w \<and> (\<exists>b. t = Some b \<and> fst (send_check b d1) = None)")
        case False
        then consider "\<not> w" | "w" "t = None" | b x d3 where "w" "t = Some b" "send_check b d1 = (Some x, d3)"
          by (metis (no_types) option.exhaust prod.collapse)
        then show ?thesis
          by cases (use w r in \<open>auto dest: exit simp: send_resume_def loop_after_def\<close>)
      next
        case True
        then obtain b d3 where b: "w" "t = Some b" "send_check b d1 = (None, d3)"
          by (cases "send_check (the t) d1") auto
        then have r3: "send_try env f d3 e1 = Some (st2, d2, e2)"
          using r by (simp add: send_resume_def)
        obtain x e3 where x: "transmitBytes env f (transmission_context_p d3) e1 = (x, e3)"
          by (rule prod.exhaust)
        have "loop_then_finish env f d3 e1 = Some y"
        proof (cases "failure_count d3 < DEADCOM_MAX_FAILURE_COUNT \<and> x")
          case True
          then have "st2 = SendWaiting f" "d2 = d3" "e2 = e3" using r3 x by (simp_all add: send_try_def)
          then show ?thesis using Q True x by (subst loop_step) simp
        next
          case False
          define z where "z = (if failure_count d3 < DEADCOM_MAX_FAILURE_COUNT
            then send_finish env SendFailed (send_rollback d3) e3 else send_finish env SendDropped d3 e1)"
          have "returned z = Some (st2, d2, e2)" "loop_then_finish env f d3 e1 = plain_ret z"
            using False r3 x by (auto simp: send_try_def loop_step [of env f d3] z_def)
          then show ?thesis using exit by simp
        qed
        then show ?thesis using b w by (simp add: loop_after_def)
      qed
    qed
    then show "?Q st d e y" using body by (cases st) simp_all
  qed
  then show ?thesis by simp
qed

lemma try_is_loop: "waits_after env (send_try env f d e) = loop_then_finish env f d e"
proof (cases "send_loop env f d e")
  case (Some x)
  then show ?thesis
    using loop_is_waits by (cases x) (simp add: loop_then_finish_def)
next
  case None
  then have none: "loop_then_finish env f d e = None" by (simp add: loop_then_finish_def)
  show ?thesis
  proof (cases "failure_count d < DEADCOM_MAX_FAILURE_COUNT \<and>
      fst (transmitBytes env f (transmission_context_p d) e)")
    case True
    then obtain e1 where x: "transmitBytes env f (transmission_context_p d) e = (True, e1)"
      by (cases "transmitBytes env f (transmission_context_p d) e") simp
    then have "send_waits env (SendWaiting f) d e1 = None"
      using none True waits_is_loop [of env f d e1] by (subst (asm) loop_step) (simp, metis not_None_eq)
    then show ?thesis using True x none by (simp add: try_step)
  next
    case False
    then show ?thesis
      using none by (subst (asm) loop_step) (auto simp: try_step none split: prod.splits bool.splits if_splits)
  qed
qed

section \<open>The equivalence\<close>

text \<open>
  \<open>dcSendMessage\<close> is its pieces: the call up to the first wait, then for as long as it
  waits the environment's wait and what follows it, until it has returned; with the same
  result, link object and effects on every environment, and it does not return exactly when
  the pieces go on for ever (or a wait leaves \<open>timed_out\<close> indeterminate).
\<close>

theorem send_is_its_pieces:
  "map_option (\<lambda>(r, d, e). (r, the d, e)) (dcSendMessage env (Some d) m n e) =
     Option.bind (send_begin env d m n e) (\<lambda>(st, d, e). send_waits env st d e)"
proof -
  have f: "Option.bind (send_try env g d1 e1) (\<lambda>p. send_waits env (fst p) (fst (snd p)) (snd (snd p))) =
      Option.bind (send_loop env g d1 e1) (\<lambda>p. map_option (\<lambda>q. (fst q, the (fst (snd q)), snd (snd q)))
        (case fst p of SendFailed \<Rightarrow> leave env DC_FAILURE (fst (snd p)) (snd (snd p))
          | SendAcked \<Rightarrow> leave env DC_OK ((fst (snd p))\<lparr>state := DC_CONNECTED\<rparr>) (snd (snd p))
          | SendDropped \<Rightarrow> leave env DC_LINK_RESET (resetLink (fst (snd p))) (snd (snd p))))" for g d1 e1
    using try_is_loop [of env g d1 e1]
    by (simp add: loop_then_finish_def plain_ret_def send_finish_def waits_after_def case_prod_unfold)
  have r: "Option.bind (returned x) (\<lambda>p. send_waits env (fst p) (fst (snd p)) (snd (snd p))) =
      map_option (\<lambda>q. (fst q, the (fst (snd q)), snd (snd q))) x" for x
    using waits_after_simps(3) [of env x] by (simp add: waits_after_def plain_ret_def case_prod_unfold)
  show ?thesis
  proof (cases "m = None \<or> n = 0 \<or> DEADCOM_PAYLOAD_MAX_LEN < n \<or> state d \<noteq> DC_CONNECTED")
    case True
    then show ?thesis
      by (auto simp: dcSendMessage_def send_begin_def send_waits_step r Let_def case_prod_unfold)
  next
    case False
    let ?d = "d\<lparr>send_number := (send_number d + 1) mod 8, failure_count := 0, state := DC_TRANSMITTING\<rparr>"
    show ?thesis
      using False
      by (cases "build_frame (data_control d) m n")
        (auto simp: dcSendMessage_def send_begin_def send_waits_step r f Let_def
          option_map_bind case_prod_unfold)
  qed
qed

end
