(* ===== verification/Dcl2_Stations.thy ===== *)
theory Dcl2_Stations
  imports Dcl2_Threads
begin

text \<open>
  A station that runs as threads do: an application thread that sends, one that picks
  messages up, and a receiving thread.  Its steps are the functions of \<open>dcl2.c\<close>
  (\<open>dcSendMessage\<close> in its pieces, so that everything else may happen while it waits).  Two
  stations are joined by a line that keeps frames in order, delays them for any time and may
  lose any of them.  What each step does to the two ends of a direction, and what can be on
  the line, is shown here; \<open>Dcl2_Network\<close> puts it together.
\<close>

section \<open>A station and its threads\<close>

text \<open>
  The callbacks of a thread that does not wait: it signals, and it transmits, or its
  transmissions fail (\<open>x\<close> is what \<open>transmitBytes\<close> returns).
\<close>

record thread_world =
  sent :: "byte list list"
  signalled :: bool

definition quiet :: thread_world where "quiet = \<lparr>sent = [], signalled = False\<rparr>"

definition thread_env :: "bool \<Rightarrow> thread_world dcl2_env" where
  "thread_env x =
     \<lparr>mutexInit = \<lambda>p e. (True, e), mutexLock = \<lambda>p e. (True, e), mutexUnlock = \<lambda>p e. (True, e),
      condvarInit = \<lambda>p e. (True, e), condvarWait = \<lambda>p ms t d e. (True, Some True, d, e),
      condvarSignal = \<lambda>p e. (True, e\<lparr>signalled := True\<rparr>),
      transmitBytes = \<lambda>b p e. (x, if x then e\<lparr>sent := sent e @ [b]\<rparr> else e)\<rparr>"

text \<open>
  A station: the link object, the frame \<open>dcSendMessage\<close> waits for (if it waits) and whether
  the wait has been signalled; and the history: the messages whose transmission began, how
  many of the calls returned \<open>DC_OK\<close>, the messages picked up, and whether a call gave up and
  reset the link.
\<close>

record station =
  link_obj :: DeadcomL2
  waiting_for :: "byte list option"
  woken :: bool
  begun :: "byte list list"
  acked :: nat
  taken :: "byte list list"
  gave_up :: bool

definition station_send :: "bool \<Rightarrow> byte list \<Rightarrow> station \<Rightarrow> (station \<times> byte list list) option" where
  "station_send x m s =
     (if waiting_for s \<noteq> None then Some (s, [])
      else do {
        (st, d, e) \<leftarrow> send_begin (thread_env x) (link_obj s) (Some m) (length m) quiet;
        Some (case st of
            SendReturned r \<Rightarrow> s\<lparr>link_obj := d\<rparr>
          | SendWaiting f \<Rightarrow>
              s\<lparr>link_obj := d, waiting_for := Some f, woken := False, begun := begun s @ [m]\<rparr>,
          sent e)
      })"

text \<open>
  The end of a wait: with \<open>timed_out\<close> at any time, without it only after a signal (the
  pthreads helper filters spurious wake-ups).  A retransmission succeeds:
  \<open>failed_retransmission_reuses_number\<close> shows what one that fails can break.
\<close>

definition station_resume :: "bool \<Rightarrow> station \<Rightarrow> (station \<times> byte list list) option" where
  "station_resume timed_out s =
     (case waiting_for s of
        None \<Rightarrow> Some (s, [])
      | Some f \<Rightarrow>
          if \<not> timed_out \<and> \<not> woken s then Some (s, [])
          else do {
            (st, d, e) \<leftarrow> send_resume (thread_env True) f True (Some timed_out) (link_obj s) quiet;
            Some (case st of
                SendReturned r \<Rightarrow>
                  s\<lparr>link_obj := d, waiting_for := None,
                    acked := (if r = DC_OK then acked s + 1 else acked s),
                    gave_up := (gave_up s \<or> r = DC_LINK_RESET)\<rparr>
              | SendWaiting f \<Rightarrow> s\<lparr>link_obj := d, waiting_for := Some f, woken := False\<rparr>,
              sent e)
          })"

definition station_receive :: "bool \<Rightarrow> byte list \<Rightarrow> station \<Rightarrow> (station \<times> byte list list) option" where
  "station_receive x w s = do {
     (_, d, e) \<leftarrow> dcProcessData (thread_env x) (Some (link_obj s)) (Some w) (length w) quiet;
     Some (s\<lparr>link_obj := the d, woken := (woken s \<or> signalled e)\<rparr>, sent e)
   }"

text \<open>The application takes the message when the result is \<open>DC_OK\<close> and there is one.\<close>

definition station_pick_up :: "bool \<Rightarrow> station \<Rightarrow> (station \<times> byte list list) option" where
  "station_pick_up x s = do {
     (r, b, n, d, e) \<leftarrow> dcGetReceivedMsg (thread_env x) (Some (link_obj s))
       (Some (replicate DEADCOM_PAYLOAD_MAX_LEN 0)) (Some 0) quiet;
     Some (s\<lparr>link_obj := the d,
             taken := taken s @ (if r \<noteq> DC_OK \<or> n = Some 0 then [] else [take (the n) (the b)])\<rparr>, sent e)
   }"

definition station_disconnect :: "station \<Rightarrow> (station \<times> byte list list) option" where
  "station_disconnect s = do {
     (_, d, e) \<leftarrow> dcDisconnect (thread_env True) (Some (link_obj s)) quiet;
     Some (s\<lparr>link_obj := the d\<rparr>, sent e)
   }"

section \<open>The line\<close>

datatype action =
    NetSend "byte list"
  | NetResume bool
  | NetReceive
  | NetLose nat
  | NetPickUp
  | NetDisconnect
  | NetSendFails "byte list"   \<comment> \<open>with a transmission that fails\<close>
  | NetReceiveFails
  | NetPickUpFails

text \<open>
  A step of one station with the frames on their way to it; the result has the frames it
  transmitted.  A step that is not possible does nothing.
\<close>

fun station_step ::
  "action \<Rightarrow> station \<Rightarrow> byte list list \<Rightarrow> (station \<times> byte list list \<times> byte list list) option" where
  "station_step (NetSend m) s inbox = map_option (\<lambda>(s, out). (s, inbox, out)) (station_send True m s)"
| "station_step (NetResume t) s inbox = map_option (\<lambda>(s, out). (s, inbox, out)) (station_resume t s)"
| "station_step NetReceive s [] = Some (s, [], [])"
| "station_step NetReceive s (w # inbox) =
     map_option (\<lambda>(s, out). (s, inbox, out)) (station_receive True w s)"
| "station_step (NetLose i) s inbox = Some (s, take i inbox @ drop (Suc i) inbox, [])"
| "station_step NetPickUp s inbox = map_option (\<lambda>(s, out). (s, inbox, out)) (station_pick_up True s)"
| "station_step NetDisconnect s inbox =
     map_option (\<lambda>(s, out). (s, inbox, out)) (station_disconnect s)"
| "station_step (NetSendFails m) s inbox =
     map_option (\<lambda>(s, out). (s, inbox, out)) (station_send False m s)"
| "station_step NetReceiveFails s [] = Some (s, [], [])"
| "station_step NetReceiveFails s (w # inbox) =
     map_option (\<lambda>(s, out). (s, inbox, out)) (station_receive False w s)"
| "station_step NetPickUpFails s inbox =
     map_option (\<lambda>(s, out). (s, inbox, out)) (station_pick_up False s)"

record net =
  here :: station
  there :: station
  outward :: "byte list list"   \<comment> \<open>on the way from here to there\<close>
  inward :: "byte list list"

definition swap_net :: "net \<Rightarrow> net" where
  "swap_net n = \<lparr>here = there n, there = here n, outward = inward n, inward = outward n\<rparr>"

definition here_step :: "action \<Rightarrow> net \<Rightarrow> net option" where
  "here_step a n = do {
     (s, inbox, out) \<leftarrow> station_step a (here n) (inward n);
     Some (n\<lparr>here := s, inward := inbox, outward := outward n @ out\<rparr>)
   }"

text \<open>A step of the one station or the other, and a run.\<close>

fun net_step :: "bool \<times> action \<Rightarrow> net \<Rightarrow> net option" where
  "net_step (True, a) n = here_step a n"
| "net_step (False, a) n = map_option swap_net (here_step a (swap_net n))"

fun net_run :: "(bool \<times> action) list \<Rightarrow> net \<Rightarrow> net option" where
  "net_run [] n = Some n"
| "net_run (ev # evs) n = Option.bind (net_step ev n) (net_run evs)"

section \<open>Sequence numbers\<close>

definition seq8 :: "nat \<Rightarrow> byte" where
  "seq8 n = word_of_nat (n mod 8)"

lemma unat_seq8 [simp]: "unat (seq8 n) = n mod 8"
proof -
  have "n mod 8 < 256" using mod_less_divisor [of 8 n] by linarith
  then show ?thesis by (simp add: seq8_def unsigned_of_nat take_bit_nat_eq_self)
qed

lemma seq8_less [simp]: "seq8 n < 8"
  by (simp add: word_less_nat_alt)

lemma seq8_eq: "seq8 a = seq8 b \<longleftrightarrow> a mod 8 = b mod 8"
  by (simp add: word_unat_eq_iff)

lemma seq8_Suc [simp]: "(seq8 n + 1) mod 8 = seq8 (Suc n)"
  by (simp add: word_unat_eq_iff unat_mod unat_word_ariths mod_Suc_eq)

lemma seq8_pred [simp]: "(seq8 (Suc n) + 7) mod 8 = seq8 n"
  using seq_next(1) [OF seq8_less [of n]] by simp

lemma seq8_distinct [simp]: "seq8 n \<noteq> seq8 (Suc n)" "seq8 (Suc n) \<noteq> seq8 n"
  using seq_next(2) [OF seq8_less [of n]] by (simp_all add: eq_commute)

section \<open>What is on the line\<close>

text \<open>The number of a message in the order of sending, in a DATA or an ACK frame.\<close>

datatype item = DataItem nat "byte list" | AckItem nat

fun carries :: "item \<Rightarrow> byte list \<Rightarrow> bool" where
  "carries (DataItem i m) w \<longleftrightarrow>
     (\<exists>c. w = frame_bytes c m \<and> frame c = YAHDLC_FRAME_DATA \<and> ucast (send_seq_no c) = seq8 i)"
| "carries (AckItem i) w \<longleftrightarrow>
     (\<exists>c. w = frame_bytes c [] \<and> frame c = YAHDLC_FRAME_ACK \<and> ucast (recv_seq_no c) = seq8 i)"

fun datas :: "item list \<Rightarrow> (nat \<times> byte list) list" where
  "datas [] = []"
| "datas (DataItem i m # xs) = (i, m) # datas xs"
| "datas (AckItem i # xs) = datas xs"

fun acks :: "item list \<Rightarrow> nat list" where
  "acks [] = []"
| "acks (DataItem i m # xs) = acks xs"
| "acks (AckItem i # xs) = i # acks xs"

lemma datas_append [simp]: "datas (xs @ ys) = datas xs @ datas ys"
  by (induction xs rule: datas.induct) simp_all

lemma acks_append [simp]: "acks (xs @ ys) = acks xs @ acks ys"
  by (induction xs rule: acks.induct) simp_all

text \<open>
  One direction: of the messages \<open>ms\<close> whose transmission began, the receiver has stored the
  first \<open>r\<close> and handed out \<open>ts\<close>, and the sender has seen the acknowledgments of the first
  \<open>a\<close>.  On the line are copies \<open>ds\<close> of the message last stored or the next one, and
  acknowledgments \<open>as\<close> of the last one acknowledged or the next one, in order.
\<close>

definition flow ::
  "byte list list \<Rightarrow> byte list list \<Rightarrow> nat \<Rightarrow> nat \<Rightarrow> (nat \<times> byte list) list \<Rightarrow> nat list \<Rightarrow> bool" where
  "flow ms ts a r ds as \<longleftrightarrow>
     a \<le> length ts \<and> length ts \<le> r \<and> r \<le> length ts + 1 \<and> r \<le> length ms \<and> length ms \<le> a + 1 \<and>
     ts = take (length ts) ms \<and> list_all sendable ms \<and>
     sorted (r # map (Suc \<circ> fst) ds) \<and> (\<forall>(i, m) \<in> set ds. i < length ms \<and> m = ms ! i) \<and>
     sorted (a # map Suc as) \<and> (\<forall>i \<in> set as. i < length ts)"

lemma flow_lose_data: "flow ms ts a r (ds @ x # ds') as \<Longrightarrow> flow ms ts a r (ds @ ds') as"
  by (auto simp: flow_def sorted_append)

lemma flow_lose_ack: "flow ms ts a r ds (as @ x # as') \<Longrightarrow> flow ms ts a r ds (as @ as')"
  by (auto simp: flow_def sorted_append)

lemma flow_begin:
  assumes "flow ms ts (length ms) r ds as" "sendable m"
  shows "flow (ms @ [m]) ts (length ms) r (ds @ [(length ms, m)]) as"
proof -
  have "i < length ms \<and> (ms @ [m]) ! i = ms ! i" if "(i, x) \<in> set ds" for i x
    using assms(1) that by (auto simp: flow_def nth_append)
  then show ?thesis
    using assms by (fastforce simp: flow_def sorted_append nth_append)
qed

lemma flow_repeat:
  assumes "flow (ms @ [m]) ts a r ds as"
  shows "flow (ms @ [m]) ts a r (ds @ [(length ms, m)]) as"
  using assms by (fastforce simp: flow_def sorted_append nth_append)

lemma flow_data:
  assumes "flow ms ts a r ((i, m) # ds) as"
  shows "m = ms ! i" "sendable m" "i = r \<and> r = length ts \<or> Suc i = r" "i < length ms"
  using assms by (auto simp: flow_def list_all_length)

lemma flow_store: "flow ms ts a r ((r, m) # ds) as \<Longrightarrow> flow ms ts a (Suc r) ds as"
  by (auto simp: flow_def)

lemma flow_ignore_data: "flow ms ts a r (x # ds) as \<Longrightarrow> flow ms ts a r ds as"
  using flow_lose_data [of ms ts a r "[]"] by simp

lemma flow_ack_again:
  assumes "flow ms ts a (Suc i) ds as" "length ts = Suc i"
  shows "flow ms ts a (Suc i) ds (as @ [i])"
  using assms by (auto simp: flow_def sorted_append)

lemma flow_take:
  assumes "flow ms ts a (Suc (length ts)) ds as"
  shows "flow ms (ts @ [ms ! length ts]) a (Suc (length ts)) ds (as @ [length ts])"
proof -
  have n: "length ms = Suc (length ts)" and ts: "ts = take (length ts) ms"
    using assms by (auto simp: flow_def)
  have "ts @ [ms ! length ts] = ms"
    using n ts by (metis lessI order_refl take_Suc_conv_app_nth take_all)
  then show ?thesis using assms n by (auto simp: flow_def sorted_append)
qed

lemma flow_ack:
  assumes "flow ms ts a r ds (i # as)"
  shows "i = a \<and> length ms = Suc a \<or> Suc i = a"
  using assms by (auto simp: flow_def)

lemma flow_acked: "flow ms ts a r ds (a # as) \<Longrightarrow> flow ms ts (Suc a) r ds as"
  by (auto simp: flow_def)

lemma flow_ignore_ack: "flow ms ts a r ds (x # as) \<Longrightarrow> flow ms ts a r ds as"
  using flow_lose_ack [of ms ts a r ds "[]"] by simp

section \<open>The two ends of a direction\<close>

definition sender_ok :: "nat \<Rightarrow> station \<Rightarrow> bool" where
  "sender_ok a s \<longleftrightarrow>
     link_idle (link_obj s) \<and>
     (\<not> gave_up s \<longrightarrow> send_number (link_obj s) = seq8 (length (begun s)) \<and>
                     next_expected_ack (link_obj s) = seq8 a) \<and>
     (case waiting_for s of
        None \<Rightarrow>
          if gave_up s then state (link_obj s) = DC_DISCONNECTED \<and> Suc (acked s) = length (begun s)
          else state (link_obj s) \<in> {DC_CONNECTED, DC_DISCONNECTED} \<and>
               acked s = length (begun s) \<and> a = length (begun s)
      | Some f \<Rightarrow>
          \<not> gave_up s \<and> state (link_obj s) \<in> {DC_TRANSMITTING, DC_DISCONNECTED} \<and>
          (\<exists>ms m. begun s = ms @ [m] \<and> acked s = length ms \<and> carries (DataItem (length ms) m) f) \<and>
          (woken s \<longrightarrow> a = length (begun s) \<and> last_response (link_obj s) = DC_RESP_OK))"

definition receiver_ok :: "byte list list \<Rightarrow> nat \<Rightarrow> station \<Rightarrow> bool" where
  "receiver_ok ms r s \<longleftrightarrow>
     (if gave_up s then state (link_obj s) = DC_DISCONNECTED
      else recv_number (link_obj s) = seq8 r \<and>
        (if extractionComplete (link_obj s)
         then r = Suc (length (taken s)) \<and>
           take (unat (extractionBufferSize (link_obj s))) (extractionBuffer (link_obj s))
             = ms ! length (taken s)
         else r = length (taken s)))"

text \<open>
  A sender that waits although the acknowledgment of its message has been counted, and the
  signal has been missed; or that has given up.
\<close>

definition overlooked :: "station \<Rightarrow> bool" where
  "overlooked s \<longleftrightarrow>
     gave_up s \<or>
     waiting_for s \<noteq> None \<and> \<not> woken s \<and> next_expected_ack (link_obj s) = seq8 (length (begun s))"

text \<open>A step after which nothing is acknowledged any more.\<close>

definition stays_overlooked :: "station \<Rightarrow> station \<Rightarrow> bool" where
  "stays_overlooked s s' \<longleftrightarrow>
     (overlooked s \<longrightarrow> overlooked s' \<and> acked s' = acked s \<and> begun s' = begun s)"

lemma stays_overlooked_refl [simp]: "stays_overlooked s s"
  by (simp add: stays_overlooked_def)

lemma thread_env_simps [simp]:
  "mutexLock (thread_env x) p e = (True, e)" "mutexUnlock (thread_env x) p e = (True, e)"
  "transmitBytes (thread_env x) b p e = (x, if x then e\<lparr>sent := sent e @ [b]\<rparr> else e)"
  "condvarSignal (thread_env x) p e = (True, e\<lparr>signalled := True\<rparr>)"
  by (simp_all add: thread_env_def)

lemma thread_env_mutex: "mutex_ok (thread_env x)"
  by (simp add: mutex_ok_def)

lemma leave_thread [simp]: "leave (thread_env x) r d e = Some (r, Some d, e)"
  by (rule leave_ok [OF thread_env_mutex])

lemma quiet_simps [simp]: "sent quiet = []" "signalled quiet = False"
  by (simp_all add: quiet_def)

text \<open>The frames the stations transmit.\<close>

lemma carries_data:
  "send_number d = seq8 i \<Longrightarrow> carries (DataItem i m) (frame_bytes (data_control d) m)"
  by (auto simp: data_control_def ucast_seq intro!: exI [of _ "data_control d"])

lemma carries_ack:
  "recv_number d = seq8 (Suc i) \<Longrightarrow> carries (AckItem i) (frame_bytes (ack_control d) [])"
  by (auto simp: ack_control_def ucast_seq intro!: exI [of _ "ack_control d"])

definition link_up :: "station \<Rightarrow> bool" where
  "link_up s \<longleftrightarrow> state (link_obj s) = DC_CONNECTED \<or> state (link_obj s) = DC_TRANSMITTING"

text \<open>A link object that differs only in what the other direction uses.\<close>

definition same_sending :: "station \<Rightarrow> station \<Rightarrow> bool" where
  "same_sending s s' \<longleftrightarrow>
     waiting_for s' = waiting_for s \<and> woken s' = woken s \<and> begun s' = begun s \<and> acked s' = acked s \<and>
     gave_up s' = gave_up s \<and> link_idle (link_obj s') \<and> state (link_obj s') = state (link_obj s) \<and>
     send_number (link_obj s') = send_number (link_obj s) \<and>
     next_expected_ack (link_obj s') = next_expected_ack (link_obj s) \<and>
     last_response (link_obj s') = last_response (link_obj s)"

definition same_receiving :: "station \<Rightarrow> station \<Rightarrow> bool" where
  "same_receiving s s' \<longleftrightarrow>
     taken s' = taken s \<and> gave_up s' = gave_up s \<and>
     (gave_up s \<longrightarrow> state (link_obj s') = state (link_obj s)) \<and>
     recv_number (link_obj s') = recv_number (link_obj s) \<and>
     extractionComplete (link_obj s') = extractionComplete (link_obj s) \<and>
     extractionBufferSize (link_obj s') = extractionBufferSize (link_obj s) \<and>
     extractionBuffer (link_obj s') = extractionBuffer (link_obj s)"

lemma overlooked_same: "same_sending s s' \<Longrightarrow> stays_overlooked s s'"
  by (auto simp: same_sending_def stays_overlooked_def overlooked_def)

lemma sender_ok_same: "same_sending s s' \<Longrightarrow> sender_ok a s \<Longrightarrow> sender_ok a s'"
  by (cases "waiting_for s") (auto simp: same_sending_def sender_ok_def)

lemma receiver_ok_same: "same_receiving s s' \<Longrightarrow> receiver_ok ms r s \<Longrightarrow> receiver_ok ms r s'"
  by (simp add: same_receiving_def receiver_ok_def)

lemma receiver_ok_grows:
  "receiver_ok ms r s \<Longrightarrow> r \<le> length ms \<Longrightarrow> receiver_ok (ms @ [m]) r s"
  by (simp add: receiver_ok_def nth_append split: if_splits)

section \<open>The steps of a station\<close>

text \<open>A first transmission that fails leaves the link as it was, but for the failure count.\<close>

lemma rolled_back:
  assumes "send_number d = seq8 n" "state d = DC_CONNECTED"
  shows "send_rollback (d\<lparr>send_number := (send_number d + 1) mod 8, failure_count := 0,
    state := DC_TRANSMITTING\<rparr>) = d\<lparr>failure_count := 0\<rparr>"
  using assms by (cases d) (simp add: send_rollback_def)

lemma send_step:
  assumes "sender_ok a s" "length m \<notin> {248, 249}"
  shows "\<exists>s' out. station_send x m s = Some (s', out) \<and> same_receiving s s' \<and> sender_ok a s' \<and>
    stays_overlooked s s' \<and>
    (out = [] \<and> begun s' = begun s \<or>
     (\<exists>f. out = [f] \<and> carries (DataItem (length (begun s)) m) f \<and> sendable m \<and>
        a = length (begun s) \<and> begun s' = begun s @ [m]))"
proof (cases "waiting_for s = None \<and> state (link_obj s) = DC_CONNECTED \<and> sendable m")
  case False
  have "station_send x m s = Some (s, []) \<or>
      (\<exists>d. d = link_obj s \<and> station_send x m s = Some (s\<lparr>link_obj := d\<rparr>, []))"
    using False assms
    by (auto simp: station_send_def send_begin_def returned_def sender_ok_def sendable_def
        DEADCOM_PAYLOAD_MAX_LEN_def split: if_splits option.splits)
  moreover have "s\<lparr>link_obj := link_obj s\<rparr> = s" by simp
  ultimately show ?thesis using assms by (auto simp: same_receiving_def sender_ok_def)
next
  case True
  let ?d = "link_obj s"
  let ?f = "frame_bytes (data_control ?d) m"
  let ?d' = "?d\<lparr>send_number := (send_number ?d + 1) mod 8, failure_count := 0,
    state := DC_TRANSMITTING\<rparr>"
  have ok: "\<not> gave_up s" "a = length (begun s)" "acked s = length (begun s)" "link_idle ?d"
      "send_number ?d = seq8 (length (begun s))" "next_expected_ack ?d = seq8 a"
    using assms(1) True by (auto simp: sender_ok_def split: if_splits)
  have build: "build_frame (data_control ?d) (Some m) (length m) = Some (Inr 0, ?f)"
    using build_data [of "data_control ?d" "length m" m] by (simp add: data_control_def)
  have idle: "link_idle ?d'" "link_idle (?d\<lparr>failure_count := 0\<rparr>)"
    using ok(4) by (simp_all add: link_idle_def link_inv_def mod8_less)
  show ?thesis
  proof (cases x)
    case x: True
    have run: "station_send x m s =
        Some (s\<lparr>link_obj := ?d', waiting_for := Some ?f, woken := False, begun := begun s @ [m]\<rparr>, [?f])"
      using True x build
      by (auto simp: station_send_def send_begin_def send_try_def sendable_def Let_def
          DEADCOM_MAX_FAILURE_COUNT_def)
    moreover have "carries (DataItem (length (begun s)) m) ?f"
      using ok(5) by (rule carries_data)
    ultimately show ?thesis
      using True ok idle(1)
      by (auto simp: same_receiving_def sender_ok_def stays_overlooked_def overlooked_def)
  next
    case x: False
    have "station_send x m s = Some (s\<lparr>link_obj := ?d\<lparr>failure_count := 0\<rparr>\<rparr>, [])"
      using True x build rolled_back [OF ok(5)]
      by (auto simp: station_send_def send_begin_def send_try_def sendable_def Let_def
          DEADCOM_MAX_FAILURE_COUNT_def send_finish_def returned_def)
    then show ?thesis
      using True ok idle(2)
      by (auto simp: same_receiving_def sender_ok_def stays_overlooked_def overlooked_def)
  qed
qed

lemma resume_step:
  assumes "sender_ok a s"
  shows "\<exists>s' out. station_resume t s = Some (s', out) \<and> sender_ok a s' \<and> begun s' = begun s \<and>
    taken s' = taken s \<and> (\<forall>ms r. receiver_ok ms r s \<longrightarrow> receiver_ok ms r s') \<and>
    stays_overlooked s s' \<and> (t \<and> waiting_for s \<noteq> None \<and> woken s \<longrightarrow> overlooked s' \<and> acked s' = acked s) \<and>
    (\<not> t \<and> waiting_for s \<noteq> None \<and> woken s \<longrightarrow> acked s' = Suc (acked s)) \<and>
    (t \<and> waiting_for s \<noteq> None \<and> unat (failure_count (link_obj s)) < 2 \<longrightarrow>
       out \<noteq> [] \<and> waiting_for s' = waiting_for s \<and> state (link_obj s') = state (link_obj s)) \<and>
    (out = [] \<or> (\<exists>f ms m. out = [f] \<and> begun s = ms @ [m] \<and> carries (DataItem (length ms) m) f))"
proof (cases "waiting_for s = None \<or> \<not> t \<and> \<not> woken s")
  case True
  then have "station_resume t s = Some (s, [])"
    by (auto simp: station_resume_def split: option.split)
  then show ?thesis using assms True by auto
next
  case False
  let ?d = "link_obj s"
  let ?d1 = "?d\<lparr>failure_count := failure_count ?d + 1\<rparr>"
  obtain f where f: "waiting_for s = Some f" and w: "\<not> t \<longrightarrow> woken s"
    using False by auto
  obtain ms m where ok: "\<not> gave_up s" "link_idle ?d" "begun s = ms @ [m]" "acked s = length ms"
      "carries (DataItem (length ms) m) f" "send_number ?d = seq8 (length (begun s))"
      "next_expected_ack ?d = seq8 a" "state ?d \<in> {DC_TRANSMITTING, DC_DISCONNECTED}"
      "woken s \<longrightarrow> a = length (begun s) \<and> last_response ?d = DC_RESP_OK"
    using assms f by (auto simp: sender_ok_def)
  have idle: "link_idle (?d\<lparr>state := st\<rparr>)" "link_idle ?d1" "link_idle (resetLink ?d1)" for st
    using ok(2) by (simp_all add: link_idle_def link_inv_def resetLink_def)
  consider "\<not> t" | "t" "failure_count ?d1 < DEADCOM_MAX_FAILURE_COUNT"
    | "t" "\<not> failure_count ?d1 < DEADCOM_MAX_FAILURE_COUNT" by blast
  then show ?thesis
  proof cases
    case 1
    then have "station_resume t s = Some (s\<lparr>link_obj := ?d\<lparr>state := DC_CONNECTED\<rparr>,
        waiting_for := None, acked := acked s + 1\<rparr>, [])"
      using f w ok by (auto simp: station_resume_def send_resume_def send_check_def send_finish_def
          returned_def)
    then show ?thesis
      using 1 w f ok idle
      by (auto simp: sender_ok_def receiver_ok_def stays_overlooked_def overlooked_def)
  next
    case 2
    then have "station_resume t s =
        Some (s\<lparr>link_obj := ?d1, waiting_for := Some f, woken := False\<rparr>, [f])"
      using f by (auto simp: station_resume_def send_resume_def send_check_def send_try_def)
    then show ?thesis
      using 2 f ok idle
      by (auto simp: sender_ok_def receiver_ok_def stays_overlooked_def overlooked_def)
  next
    case 3
    then have "station_resume t s = Some (s\<lparr>link_obj := resetLink ?d1, waiting_for := None,
        gave_up := True\<rparr>, [])"
      using f ok by (auto simp: station_resume_def send_resume_def send_check_def send_try_def
          send_finish_def returned_def)
    moreover have "\<not> unat (failure_count ?d) < 2"
      using 3(2) by (simp add: word_less_nat_alt unat_word_ariths DEADCOM_MAX_FAILURE_COUNT_def)
    ultimately show ?thesis
      using 3 f ok idle
      by (auto simp: sender_ok_def receiver_ok_def resetLink_def stays_overlooked_def overlooked_def)
  qed
qed

lemma disconnect_step:
  assumes "sender_ok a s"
  shows "\<exists>s'. station_disconnect s = Some (s', []) \<and> sender_ok a s' \<and> begun s' = begun s \<and>
    taken s' = taken s \<and> (\<forall>ms r. receiver_ok ms r s \<longrightarrow> receiver_ok ms r s') \<and>
    stays_overlooked s s'"
proof -
  let ?d = "link_obj s"
  have "link_idle (?d\<lparr>state := DC_DISCONNECTED\<rparr>)"
    using assms by (simp add: sender_ok_def link_idle_def link_inv_def)
  moreover have "state ?d \<noteq> DC_CONNECTING"
    using assms by (auto simp: sender_ok_def split: option.splits if_splits)
  ultimately show ?thesis
    using assms
    by (auto simp: station_disconnect_def dcDisconnect_def sender_ok_def receiver_ok_def
        stays_overlooked_def overlooked_def split: option.splits if_splits)
qed

lemma pick_up_step:
  assumes "sender_ok a s" "receiver_ok ms r s"
  shows "\<exists>s' out. station_pick_up x s = Some (s', out) \<and> same_sending s s' \<and> receiver_ok ms r s' \<and>
    (x \<and> link_up s \<longrightarrow> \<not> extractionComplete (link_obj s')) \<and>
    (out = [] \<and> taken s' = taken s \<and> \<not> (x \<and> link_up s \<and> extractionComplete (link_obj s)) \<or>
     (\<exists>f. out = [f] \<and> carries (AckItem (length (taken s))) f \<and> r = Suc (length (taken s)) \<and>
        taken s' = taken s @ [ms ! length (taken s)]))"
proof -
  let ?d = "link_obj s"
  let ?n = "unat (extractionBufferSize ?d)"
  have idle: "link_idle ?d" using assms(1) by (simp add: sender_ok_def)
  then have n: "?n \<le> DEADCOM_PAYLOAD_MAX_LEN" "?n \<le> length (extractionBuffer ?d)"
      "size_of_int16 (extractionBufferSize ?d) = ?n"
    by (auto simp: link_idle_def link_inv_def size_of_int16_small)
  have st: "state ?d \<noteq> DC_CONNECTING"
    using assms(1) by (auto simp: sender_ok_def split: option.splits if_splits)
  show ?thesis
  proof (cases "state ?d = DC_DISCONNECTED \<or> \<not> extractionComplete ?d")
    case True
    then have "station_pick_up x s = Some (s\<lparr>link_obj := ?d, taken := taken s\<rparr>, [])"
      using st by (auto simp: station_pick_up_def dcGetReceivedMsg_def)
    then show ?thesis using True idle assms(2) by (auto simp: same_sending_def link_up_def)
  next
    case False
    let ?d' = "?d\<lparr>extractionBufferSize := 0, extractionComplete := False\<rparr>"
    let ?f = "frame_bytes (ack_control ?d) []"
    have pos: "?n > 0"
      using idle False by (simp add: link_idle_def link_inv_def unat_gt_0)
    have rx: "\<not> gave_up s" "r = Suc (length (taken s))" "recv_number ?d = seq8 r"
        "take ?n (extractionBuffer ?d) = ms ! length (taken s)"
      using assms(2) False by (auto simp: receiver_ok_def split: if_splits)
    show ?thesis
    proof (cases x)
      case x: False
      have "station_pick_up x s = Some (s\<lparr>link_obj := ?d, taken := taken s\<rparr>, [])"
        using False st n pos x
        by (simp add: station_pick_up_def dcGetReceivedMsg_def build_ack buf_copy_def Let_def)
      then show ?thesis using idle assms(2) x by (auto simp: same_sending_def)
    next
      case x: True
      have "station_pick_up x s = Some (s\<lparr>link_obj := ?d',
          taken := taken s @ [take ?n (extractionBuffer ?d)]\<rparr>, [?f])"
        using False st n pos x
        by (simp add: station_pick_up_def dcGetReceivedMsg_def build_ack buf_copy_def Let_def)
      moreover have "link_idle ?d'"
        using idle link_inv_taken by (simp add: link_idle_def)
      moreover have "carries (AckItem (length (taken s))) ?f"
        using rx(2, 3) by (intro carries_ack) simp
      ultimately show ?thesis
        using rx by (auto simp: same_sending_def receiver_ok_def)
    qed
  qed
qed

lemma receive_data_step:
  assumes "sender_ok a s" "receiver_ok ms r s" "carries (DataItem i m) w" "sendable m"
    and "i = r \<and> r = length (taken s) \<and> m = ms ! i \<or> Suc i = r"
  shows "\<exists>s' out. station_receive x w s = Some (s', out) \<and> same_sending s s' \<and> taken s' = taken s \<and>
    (x \<and> link_up s \<and> \<not> extractionComplete (link_obj s) \<longrightarrow> out \<noteq> [] \<or> extractionComplete (link_obj s')) \<and>
    (receiver_ok ms r s' \<and>
       (out = [] \<or> (\<exists>f. out = [f] \<and> carries (AckItem i) f \<and> length (taken s) = Suc i)) \<or>
     i = r \<and> out = [] \<and> receiver_ok ms (Suc r) s')"
proof -
  let ?d = "link_obj s"
  obtain c where w: "w = frame_bytes c m" and c: "frame c = YAHDLC_FRAME_DATA"
    and seq: "ucast (send_seq_no c) = seq8 i" using assms(3) by auto
  have idle: "link_idle ?d" using assms(1) by (simp add: sender_ok_def)
  have len: "length m + 2 \<le> DEADCOM_PAYLOAD_MAX_LEN" "m \<noteq> []" using assms(4) by (auto simp: sendable_def)
  have fits: "fits c m" using c len by (simp add: fits_def data_payload)
  let ?d1 = "after_frame c m ?d"
  let ?d2 = "?d1\<lparr>extractionBufferSize := int16_of_size (length m), extractionComplete := True,
    extractionBuffer := m @ drop (length m) (extractionBuffer ?d),
    recv_number := (recv_number ?d + 1) mod 8\<rparr>"
  let ?d3 = "?d1\<lparr>yahdlc_state := reset_state DEADCOM_MAX_FRAME_LEN\<rparr>"
  note run = process_data_frame [OF thread_env_mutex idle c len(1), of x quiet]
  have empty: "extractionBufferSize ?d = 0 \<longleftrightarrow> \<not> extractionComplete ?d"
    using idle by (auto simp: link_idle_def link_inv_def)
  consider (ignored) "station_receive x w s = Some (s\<lparr>link_obj := ?d1\<rparr>, [])"
        "\<not> (link_up s \<and> \<not> extractionComplete ?d)"
    | (again) "station_receive x w s = Some (s\<lparr>link_obj := ?d1\<rparr>, [frame_bytes (ack_control ?d) []])"
        "\<not> gave_up s" "\<not> extractionComplete ?d" "Suc i = r"
    | (unanswered) "station_receive x w s = Some (s\<lparr>link_obj := ?d3\<rparr>, [])" "\<not> x"
    | (stored) "dcProcessData (thread_env x) (Some ?d) (Some w) (length w) quiet
          = Some (DC_OK, Some ?d2, quiet)"
        "\<not> gave_up s" "i = r" "\<not> extractionComplete ?d"
  proof (cases "state ?d \<in> {DC_CONNECTED, DC_TRANSMITTING}")
    case False
    then show ?thesis using run by (intro ignored) (auto simp: station_receive_def w link_up_def)
  next
    case True
    then have up: "\<not> gave_up s" using assms(2) by (auto simp: receiver_ok_def)
    then have r: "recv_number ?d = seq8 r" using assms(2) by (simp add: receiver_ok_def)
    consider "i = r" "extractionComplete ?d" | "i = r" "\<not> extractionComplete ?d"
      | "Suc i = r" "extractionComplete ?d" | "Suc i = r" "\<not> extractionComplete ?d"
      using assms(5) by blast
    then show ?thesis
    proof cases
      case 1
      then show ?thesis using run True r seq empty len by (intro ignored) (simp_all add: station_receive_def w)
    next
      case 2
      then show ?thesis using run True r seq empty len up by (intro stored) (auto simp: w)
    next
      case 3
      then show ?thesis using run True r seq by (intro ignored) (auto simp: station_receive_def w)
    next
      case 4
      show ?thesis
      proof (cases x)
        case x: True
        then show ?thesis
          using 4 run True r seq up by (intro again) (auto simp: station_receive_def w)
      next
        case x: False
        then show ?thesis
          using 4 run True r seq by (intro unanswered) (auto simp: station_receive_def w)
      qed
    qed
  qed
  then show ?thesis
  proof cases
    case ignored
    moreover have "same_sending s (s\<lparr>link_obj := ?d1\<rparr>)" "receiver_ok ms r (s\<lparr>link_obj := ?d1\<rparr>)"
      using assms(2) link_idle_after_frame [OF idle fits] by (simp_all add: same_sending_def receiver_ok_def)
    ultimately show ?thesis by auto
  next
    case again
    moreover have "same_sending s (s\<lparr>link_obj := ?d1\<rparr>)" "receiver_ok ms r (s\<lparr>link_obj := ?d1\<rparr>)"
      using assms(2) link_idle_after_frame [OF idle fits] by (simp_all add: same_sending_def receiver_ok_def)
    moreover have "length (taken s) = Suc i" "recv_number ?d = seq8 (Suc i)"
      using again assms(2) by (auto simp: receiver_ok_def)
    ultimately show ?thesis using carries_ack by auto
  next
    case unanswered
    have "link_idle ?d3"
      using link_idle_after_frame [OF idle fits]
      by (simp add: link_idle_def link_inv_def parser_idle_def parser_inv_reset)
    then have "same_sending s (s\<lparr>link_obj := ?d3\<rparr>)" "receiver_ok ms r (s\<lparr>link_obj := ?d3\<rparr>)"
      using assms(2) by (simp_all add: same_sending_def receiver_ok_def)
    then show ?thesis using unanswered by auto
  next
    case stored
    have "link_inv ?d2"
      using dcProcessData_reach [OF link_inv_ready stored(1)] inv.reach_keeps idle
      by (auto simp: link_idle_def)
    then have "link_idle ?d2" by (simp add: link_idle_def parser_idle_def)
    moreover have "station_receive x w s = Some (s\<lparr>link_obj := ?d2\<rparr>, [])"
      using stored(1) by (simp add: station_receive_def)
    moreover have "r = length (taken s)" "recv_number ?d = seq8 r" "m = ms ! r"
      using stored assms(2, 5) by (auto simp: receiver_ok_def)
    ultimately show ?thesis
      using stored int16_of_size_small [of "length m"] len
      by (auto simp: same_sending_def receiver_ok_def)
  qed
qed

lemma receive_ack_step:
  assumes "sender_ok a s" "carries (AckItem i) w"
    and "i = a \<and> length (begun s) = Suc a \<or> Suc i = a"
  shows "\<exists>s'. station_receive x w s = Some (s', []) \<and> same_receiving s s' \<and> begun s' = begun s \<and>
    stays_overlooked s s' \<and> (sender_ok a s' \<or> i = a \<and> sender_ok (Suc a) s') \<and>
    (state (link_obj s) = DC_TRANSMITTING \<and> i = a \<longrightarrow>
       woken s' \<and> waiting_for s' = waiting_for s \<and> acked s' = acked s \<and> sender_ok (Suc a) s')"
proof -
  let ?d = "link_obj s"
  obtain c where w: "w = frame_bytes c []" and c: "frame c = YAHDLC_FRAME_ACK"
    and seq: "ucast (recv_seq_no c) = seq8 i" using assms(2) by auto
  have idle: "link_idle ?d" using assms(1) by (simp add: sender_ok_def)
  let ?d1 = "after_frame c [] ?d"
  have idle1: "link_idle ?d1" using idle by (rule link_idle_after_frame) (simp add: fits_control c)
  have run: "dcProcessData (thread_env x) (Some ?d) (Some w) (length w) quiet =
    (if state ?d = DC_TRANSMITTING \<and> seq8 i = next_expected_ack ?d
     then Some (DC_OK, Some (?d1\<lparr>next_expected_ack := (next_expected_ack ?d + 1) mod 8,
       last_response := DC_RESP_OK\<rparr>), quiet\<lparr>signalled := True\<rparr>)
     else Some (DC_OK, Some ?d1, quiet))"
    using process_control_frame [OF thread_env_mutex idle, of c x quiet] c
    by (simp add: w seq notify_def)
  show ?thesis
  proof (cases "state ?d = DC_TRANSMITTING \<and> i = a")
    case True
    then have "\<exists>f. waiting_for s = Some f" "\<not> gave_up s"
      using assms(1) by (auto simp: sender_ok_def split: option.splits if_splits)
    then have expects: "next_expected_ack ?d = seq8 a" and "length (begun s) = Suc a"
      using assms(1, 3) True by (auto simp: sender_ok_def)
    let ?d2 = "?d1\<lparr>next_expected_ack := seq8 (Suc a), last_response := DC_RESP_OK\<rparr>"
    have "station_receive x w s = Some (s\<lparr>link_obj := ?d2, woken := True\<rparr>, [])"
      using run True expects by (simp add: station_receive_def)
    moreover have "link_idle ?d2" using idle1 by (simp add: link_idle_def link_inv_def)
    ultimately show ?thesis
      using assms(1) True \<open>\<exists>f. waiting_for s = Some f\<close> \<open>\<not> gave_up s\<close> \<open>length (begun s) = Suc a\<close>
      by (auto simp: same_receiving_def sender_ok_def stays_overlooked_def overlooked_def)
  next
    case False
    then have "\<not> (state ?d = DC_TRANSMITTING \<and> seq8 i = next_expected_ack ?d)"
      using assms(1, 3) by (auto simp: sender_ok_def split: option.splits if_splits)
    then have "station_receive x w s = Some (s\<lparr>link_obj := ?d1\<rparr>, [])"
      using run by (auto simp: station_receive_def)
    moreover have "sender_ok a (s\<lparr>link_obj := ?d1\<rparr>)"
      using assms(1) idle1 by (cases "waiting_for s") (auto simp: sender_ok_def)
    moreover have "stays_overlooked s (s\<lparr>link_obj := ?d1\<rparr>)"
      by (simp add: stays_overlooked_def overlooked_def)
    ultimately show ?thesis using False by (auto simp: same_receiving_def)
  qed
qed

end
