(* ===== verification/Dcl2_Network.thy ===== *)
theory Dcl2_Network
  imports Dcl2_Stations
begin

text \<open>
  Two stations that run independently: an invariant of the stations and the line, kept by
  every step of either, and what follows for all runs.  In both directions, whatever the
  order of the steps, the delays and the losses, messages are received in order and at most
  once, and those whose \<open>dcSendMessage\<close> returned \<open>DC_OK\<close> have been received; a reliable
  channel is the specification that each direction refines.
\<close>

section \<open>The invariant of the two stations\<close>

text \<open>The direction from \<open>s\<close> to \<open>s'\<close>, with \<open>xs\<close> on the way to \<open>s'\<close> and \<open>ys\<close> on the way back.\<close>

definition way :: "station \<Rightarrow> station \<Rightarrow> item list \<Rightarrow> item list \<Rightarrow> bool" where
  "way s s' xs ys \<longleftrightarrow>
     (\<exists>a r. flow (begun s) (taken s') a r (datas xs) (acks ys) \<and> sender_ok a s \<and>
        receiver_ok (begun s) r s')"

definition ways :: "station \<Rightarrow> station \<Rightarrow> item list \<Rightarrow> item list \<Rightarrow> bool" where
  "ways s s' xs ys \<longleftrightarrow> way s s' xs ys \<and> way s' s ys xs"

definition net_inv :: "net \<Rightarrow> bool" where
  "net_inv n \<longleftrightarrow>
     (\<exists>xs ys. list_all2 carries xs (outward n) \<and> list_all2 carries ys (inward n) \<and>
        ways (here n) (there n) xs ys)"

lemma waysE:
  assumes "ways s s' xs ys"
  obtains a r a' r' where
    "flow (begun s) (taken s') a r (datas xs) (acks ys)" "sender_ok a s" "receiver_ok (begun s) r s'"
    "flow (begun s') (taken s) a' r' (datas ys) (acks xs)" "sender_ok a' s'"
    "receiver_ok (begun s') r' s"
  using assms by (auto simp: ways_def way_def)

lemma net_inv_swap [simp]: "net_inv (swap_net n) \<longleftrightarrow> net_inv n"
  by (auto simp: net_inv_def swap_net_def ways_def)

text \<open>The result of a step keeps both directions.\<close>

definition keeps_ways ::
  "station \<Rightarrow> item list \<Rightarrow> (station \<times> byte list list \<times> byte list list) option \<Rightarrow> bool" where
  "keeps_ways s' xs res \<longleftrightarrow>
     (\<exists>s inbox out xs' ys. res = Some (s, inbox, out) \<and> list_all2 carries ys inbox \<and>
        list_all2 carries xs' out \<and> ways s s' (xs @ xs') ys)"

lemma keeps_waysI:
  "res = Some (s, inbox, out) \<Longrightarrow> list_all2 carries ys inbox \<Longrightarrow> list_all2 carries xs' out \<Longrightarrow>
     way s s' (xs @ xs') ys \<Longrightarrow> way s' s ys (xs @ xs') \<Longrightarrow> keeps_ways s' xs res"
  by (auto simp: keeps_ways_def ways_def)

lemma ways_lose: "ways s s' xs (us @ x # vs) \<Longrightarrow> ways s s' xs (us @ vs)"
  by (cases x) (auto simp: ways_def way_def dest: flow_lose_data flow_lose_ack)

lemma keeps_ways_send:
  assumes "ways s s' xs ys" "list_all2 carries ys inbox" "length m \<notin> {248, 249}"
  shows "keeps_ways s' xs (map_option (\<lambda>(s, out). (s, inbox, out)) (station_send x m s))"
proof -
  obtain a r a' r' where
    f: "flow (begun s) (taken s') a r (datas xs) (acks ys)" "sender_ok a s" "receiver_ok (begun s) r s'"
    and g: "flow (begun s') (taken s) a' r' (datas ys) (acks xs)" "sender_ok a' s'"
      "receiver_ok (begun s') r' s"
    using assms(1) by (rule waysE)
  obtain t out where t: "station_send x m s = Some (t, out)" "same_receiving s t" "sender_ok a t"
    and out: "out = [] \<and> begun t = begun s \<or>
     (\<exists>f. out = [f] \<and> carries (DataItem (length (begun s)) m) f \<and> sendable m \<and>
        a = length (begun s) \<and> begun t = begun s @ [m])"
    using send_step [OF f(2) assms(3), of x] by blast
  have t': "taken t = taken s" "receiver_ok (begun s') r' t"
    using t(2) g(3) receiver_ok_same by (auto simp: same_receiving_def)
  from out show ?thesis
  proof (elim disjE exE conjE)
    assume "out = []" "begun t = begun s"
    then show ?thesis
      using t t' f g assms(2) by (intro keeps_waysI [of _ t inbox "[]" ys "[]"]) (auto simp: way_def)
  next
    fix w
    assume w: "out = [w]" "carries (DataItem (length (begun s)) m) w" "sendable m"
      "a = length (begun s)" "begun t = begun s @ [m]"
    then have "flow (begun t) (taken s') a r (datas xs @ [(length (begun s), m)]) (acks ys)"
      using f(1) flow_begin by simp
    moreover have "receiver_ok (begun t) r s'"
      using f(1, 3) w(5) receiver_ok_grows by (simp add: flow_def)
    ultimately show ?thesis
      using t t' g w assms(2)
      by (intro keeps_waysI [of _ t inbox out ys "[DataItem (length (begun s)) m]"])
        (auto simp: way_def)
  qed
qed

lemma keeps_ways_resume:
  assumes "ways s s' xs ys" "list_all2 carries ys inbox"
  shows "keeps_ways s' xs (station_step (NetResume x) s inbox)"
proof -
  obtain a r a' r' where
    f: "flow (begun s) (taken s') a r (datas xs) (acks ys)" "sender_ok a s" "receiver_ok (begun s) r s'"
    and g: "flow (begun s') (taken s) a' r' (datas ys) (acks xs)" "sender_ok a' s'"
      "receiver_ok (begun s') r' s"
    using assms(1) by (rule waysE)
  obtain t out where t: "station_resume x s = Some (t, out)" "sender_ok a t" "begun t = begun s"
      "taken t = taken s" "receiver_ok (begun s') r' t"
    and out: "out = [] \<or> (\<exists>f ms m. out = [f] \<and> begun s = ms @ [m] \<and> carries (DataItem (length ms) m) f)"
    using resume_step [OF f(2), of x] g(3) by blast
  from out show ?thesis
  proof (elim disjE exE conjE)
    assume "out = []"
    then show ?thesis
      using t f g assms(2) by (intro keeps_waysI [of _ t inbox "[]" ys "[]"]) (auto simp: way_def)
  next
    fix w ms m
    assume w: "out = [w]" "begun s = ms @ [m]" "carries (DataItem (length ms) m) w"
    then have "flow (begun t) (taken s') a r (datas xs @ [(length ms, m)]) (acks ys)"
      using f(1) t(3) flow_repeat by simp
    then show ?thesis
      using t f g w assms(2)
      by (intro keeps_waysI [of _ t inbox out ys "[DataItem (length ms) m]"]) (auto simp: way_def)
  qed
qed

lemma keeps_ways_disconnect:
  assumes "ways s s' xs ys" "list_all2 carries ys inbox"
  shows "keeps_ways s' xs (station_step NetDisconnect s inbox)"
proof -
  obtain a r a' r' where
    f: "flow (begun s) (taken s') a r (datas xs) (acks ys)" "sender_ok a s" "receiver_ok (begun s) r s'"
    and g: "flow (begun s') (taken s) a' r' (datas ys) (acks xs)" "sender_ok a' s'"
      "receiver_ok (begun s') r' s"
    using assms(1) by (rule waysE)
  obtain t where "station_disconnect s = Some (t, [])" "sender_ok a t" "begun t = begun s"
      "taken t = taken s" "receiver_ok (begun s') r' t"
    using disconnect_step [OF f(2)] g(3) by blast
  then show ?thesis
    using f g assms(2) by (intro keeps_waysI [of _ t inbox "[]" ys "[]"]) (auto simp: way_def)
qed

lemma keeps_ways_pick_up:
  assumes "ways s s' xs ys" "list_all2 carries ys inbox"
  shows "keeps_ways s' xs (map_option (\<lambda>(s, out). (s, inbox, out)) (station_pick_up x s))"
proof -
  obtain a r a' r' where
    f: "flow (begun s) (taken s') a r (datas xs) (acks ys)" "sender_ok a s" "receiver_ok (begun s) r s'"
    and g: "flow (begun s') (taken s) a' r' (datas ys) (acks xs)" "sender_ok a' s'"
      "receiver_ok (begun s') r' s"
    using assms(1) by (rule waysE)
  obtain t out where t: "station_pick_up x s = Some (t, out)" "same_sending s t"
      "receiver_ok (begun s') r' t"
    and out: "out = [] \<and> taken t = taken s \<or>
     (\<exists>f. out = [f] \<and> carries (AckItem (length (taken s))) f \<and> r' = Suc (length (taken s)) \<and>
        taken t = taken s @ [begun s' ! length (taken s)])"
    using pick_up_step [OF f(2) g(3), of x] by blast
  have t': "begun t = begun s" "sender_ok a t"
    using t(2) f(2) sender_ok_same by (auto simp: same_sending_def)
  from out show ?thesis
  proof (elim disjE exE conjE)
    assume "out = []" "taken t = taken s"
    then show ?thesis
      using t t' f g assms(2) by (intro keeps_waysI [of _ t inbox "[]" ys "[]"]) (auto simp: way_def)
  next
    fix w
    assume w: "out = [w]" "carries (AckItem (length (taken s))) w" "r' = Suc (length (taken s))"
      "taken t = taken s @ [begun s' ! length (taken s)]"
    then have "flow (begun s') (taken t) a' r' (datas ys) (acks xs @ [length (taken s)])"
      using g(1) flow_take by simp
    then show ?thesis
      using t t' f g w assms(2)
      by (intro keeps_waysI [of _ t inbox out ys "[AckItem (length (taken s))]"]) (auto simp: way_def)
  qed
qed

lemma keeps_ways_receive:
  assumes "ways s s' xs ys" "list_all2 carries ys (w # ws)"
  shows "keeps_ways s' xs (map_option (\<lambda>(s, out). (s, ws, out)) (station_receive x w s))"
proof -
  obtain y zs where ys: "ys = y # zs" "carries y w" "list_all2 carries zs ws"
    using assms(2) by (auto simp: list_all2_Cons2)
  obtain a r a' r' where
    f: "flow (begun s) (taken s') a r (datas xs) (acks ys)" "sender_ok a s" "receiver_ok (begun s) r s'"
    and g: "flow (begun s') (taken s) a' r' (datas ys) (acks xs)" "sender_ok a' s'"
      "receiver_ok (begun s') r' s"
    using assms(1) by (rule waysE)
  show ?thesis
  proof (cases y)
    case (DataItem i m)
    then have i: "flow (begun s') (taken s) a' r' ((i, m) # datas zs) (acks xs)" "carries (DataItem i m) w"
      using g(1) ys by simp_all
    note near = flow_data [OF i(1)]
    obtain t out where t: "station_receive x w s = Some (t, out)" "same_sending s t" "taken t = taken s"
      and out: "receiver_ok (begun s') r' t \<and>
         (out = [] \<or> (\<exists>f. out = [f] \<and> carries (AckItem i) f \<and> length (taken s) = Suc i)) \<or>
       i = r' \<and> out = [] \<and> receiver_ok (begun s') (Suc r') t"
      using receive_data_step [OF f(2) g(3) i(2) near(2)] near(1, 3) by blast
    have t': "begun t = begun s" "sender_ok a t"
      using t(2) f(2) sender_ok_same by (auto simp: same_sending_def)
    have f': "flow (begun t) (taken s') a r (datas xs) (acks zs)"
      using f(1) t'(1) ys DataItem by simp
    from out show ?thesis
    proof (elim disjE exE conjE)
      assume "receiver_ok (begun s') r' t" "out = []"
      then show ?thesis
        using t t' f f' g ys flow_ignore_data [OF i(1)]
        by (intro keeps_waysI [of _ t ws "[]" zs "[]"]) (auto simp: way_def)
    next
      fix v
      assume v: "receiver_ok (begun s') r' t" "out = [v]" "carries (AckItem i) v"
        "length (taken s) = Suc i"
      have "r' = Suc i" using near(3) v(4) by auto
      then have "flow (begun s') (taken t) a' r' (datas zs) (acks xs @ [i])"
        using flow_ignore_data [OF i(1)] flow_ack_again v(4) t(3) by simp
      then show ?thesis
        using t t' f f' g ys v
        by (intro keeps_waysI [of _ t ws out zs "[AckItem i]"]) (auto simp: way_def)
    next
      assume "i = r'" "out = []" "receiver_ok (begun s') (Suc r') t"
      moreover from this have "flow (begun s') (taken t) a' (Suc r') (datas zs) (acks xs)"
        using i(1) t(3) flow_store by simp
      ultimately show ?thesis
        using t t' f f' g ys
        by (intro keeps_waysI [of _ t ws "[]" zs "[]"]) (auto simp: way_def)
    qed
  next
    case (AckItem i)
    then have i: "flow (begun s) (taken s') a r (datas xs) (i # acks zs)" "carries (AckItem i) w"
      using f(1) ys by simp_all
    obtain t where t: "station_receive x w s = Some (t, [])" "same_receiving s t" "begun t = begun s"
      and ok: "sender_ok a t \<or> i = a \<and> sender_ok (Suc a) t"
      using receive_ack_step [OF f(2) i(2) flow_ack [OF i(1)]] by blast
    have t': "taken t = taken s" "receiver_ok (begun s') r' t"
      using t(2) g(3) receiver_ok_same by (auto simp: same_receiving_def)
    have "\<exists>b. sender_ok b t \<and> flow (begun t) (taken s') b r (datas xs) (acks zs)"
      using ok i(1) t(3) flow_acked flow_ignore_ack by metis
    then show ?thesis
      using t t' f g ys AckItem
      by (intro keeps_waysI [of _ t ws "[]" zs "[]"]) (auto simp: way_def)
  qed
qed

lemma keeps_ways_lose:
  assumes "ways s s' xs ys" "list_all2 carries ys inbox"
  shows "keeps_ways s' xs (station_step (NetLose i) s inbox)"
proof -
  have "ways s s' xs (take i ys @ drop (Suc i) ys)"
  proof (cases "i < length ys")
    case True
    then show ?thesis using assms(1) ways_lose by (metis id_take_nth_drop)
  next
    case False
    then show ?thesis using assms(1) by simp
  qed
  moreover have "list_all2 carries (take i ys @ drop (Suc i) ys) (take i inbox @ drop (Suc i) inbox)"
    using assms(2) by (intro list_all2_appendI list_all2_takeI list_all2_dropI)
  ultimately show ?thesis
    by (intro keeps_waysI [of _ s _ "[]" _ "[]"]) (auto simp: ways_def)
qed

text \<open>Messages of 248 and 249 octets, which overflow the receiver, are left out.\<close>

fun action_ok :: "action \<Rightarrow> bool" where
  "action_ok (NetSend m) \<longleftrightarrow> length m \<notin> {248, 249}"
| "action_ok (NetSendFails m) \<longleftrightarrow> length m \<notin> {248, 249}"
| "action_ok _ \<longleftrightarrow> True"

text \<open>No step of a station makes up for a missed signal.\<close>

lemma receive_overlooked:
  assumes "ways s s' xs ys" "list_all2 carries ys (w # ws)" "station_receive x w s = Some (t, out)"
  shows "stays_overlooked s t"
proof -
  obtain a r a' r' where
    f: "flow (begun s) (taken s') a r (datas xs) (acks ys)" "sender_ok a s" "receiver_ok (begun s) r s'"
    and g: "flow (begun s') (taken s) a' r' (datas ys) (acks xs)" "sender_ok a' s'"
      "receiver_ok (begun s') r' s"
    using assms(1) by (rule waysE)
  obtain y zs where ys: "ys = y # zs" "carries y w"
    using assms(2) by (auto simp: list_all2_Cons2)
  show ?thesis
  proof (cases y)
    case (DataItem i m)
    then have i: "flow (begun s') (taken s) a' r' ((i, m) # datas zs) (acks xs)"
        "carries (DataItem i m) w"
      using g(1) ys by simp_all
    then show ?thesis
      using receive_data_step [OF f(2) g(3) i(2) flow_data(2) [OF i(1)], of x] flow_data(1, 3) [OF i(1)]
        overlooked_same assms(3) by auto
  next
    case (AckItem i)
    then have i: "flow (begun s) (taken s') a r (datas xs) (i # acks zs)" "carries (AckItem i) w"
      using f(1) ys by simp_all
    then show ?thesis
      using receive_ack_step [OF f(2) i(2) flow_ack [OF i(1)], of x] assms(3) by auto
  qed
qed

lemma station_step_overlooked:
  assumes "ways s s' xs ys" "list_all2 carries ys inbox" "action_ok act"
    and "station_step act s inbox = Some (t, inbox', out)"
  shows "stays_overlooked s t"
proof -
  obtain a r a' r' where f: "sender_ok a s" "receiver_ok (begun s') r' s"
    using assms(1) by (rule waysE)
  show ?thesis
  proof (cases act)
    case (NetSend m)
    then show ?thesis using send_step [OF f(1), of m True] assms(3, 4) by auto
  next
    case (NetSendFails m)
    then show ?thesis using send_step [OF f(1), of m False] assms(3, 4) by auto
  next
    case (NetResume x)
    then show ?thesis using resume_step [OF f(1), of x] assms(4) by auto
  next
    case NetReceive
    then show ?thesis
      using receive_overlooked [OF assms(1)] assms(2, 4) by (cases inbox) auto
  next
    case NetReceiveFails
    then show ?thesis
      using receive_overlooked [OF assms(1)] assms(2, 4) by (cases inbox) auto
  next
    case NetPickUp
    then show ?thesis using pick_up_step [OF f, of True] assms(4) overlooked_same by auto
  next
    case NetPickUpFails
    then show ?thesis using pick_up_step [OF f, of False] assms(4) overlooked_same by auto
  next
    case NetDisconnect
    then show ?thesis using disconnect_step [OF f(1)] assms(4) by auto
  qed (use assms(4) in simp)
qed

text \<open>Nothing has arrived: the receiving thread does nothing.\<close>

lemma keeps_ways_idle:
  assumes "ways s s' xs []"
  shows "keeps_ways s' xs (Some (s, [], []))"
  using assms by (intro keeps_waysI [of _ s "[]" "[]" "[]" "[]"]) (auto simp: ways_def)

lemma station_step_keeps:
  assumes "ways s s' xs ys" "list_all2 carries ys inbox" "action_ok act"
  shows "keeps_ways s' xs (station_step act s inbox)"
proof (cases act)
  case NetReceive
  then show ?thesis
    using assms keeps_ways_receive [of s s' xs ys] keeps_ways_idle [of s s' xs]
    by (cases inbox) (simp_all add: list_all2_Cons2)
next
  case NetReceiveFails
  then show ?thesis
    using assms keeps_ways_receive [of s s' xs ys] keeps_ways_idle [of s s' xs]
    by (cases inbox) (simp_all add: list_all2_Cons2)
next
  case (NetResume x)
  then show ?thesis using keeps_ways_resume [OF assms(1, 2)] by simp
next
  case (NetLose i)
  then show ?thesis using keeps_ways_lose [OF assms(1, 2)] by simp
next
  case NetDisconnect
  then show ?thesis using keeps_ways_disconnect [OF assms(1, 2)] by simp
qed (use assms in \<open>simp_all add: keeps_ways_send keeps_ways_pick_up\<close>)

lemma here_step_keeps:
  assumes "net_inv n" "action_ok act"
  shows "\<exists>n'. here_step act n = Some n' \<and> net_inv n'"
proof -
  obtain xs ys where inv: "list_all2 carries xs (outward n)" "list_all2 carries ys (inward n)"
      "ways (here n) (there n) xs ys"
    using assms(1) by (auto simp: net_inv_def)
  obtain s inbox out xs' ys' where step: "station_step act (here n) (inward n) = Some (s, inbox, out)"
    and after: "list_all2 carries ys' inbox" "list_all2 carries xs' out"
      "ways s (there n) (xs @ xs') ys'"
    using station_step_keeps [OF inv(3, 2) assms(2)] by (auto simp: keeps_ways_def)
  let ?n = "n\<lparr>here := s, inward := inbox, outward := outward n @ out\<rparr>"
  have "net_inv ?n"
    unfolding net_inv_def using after list_all2_appendI [OF inv(1) after(2)]
    by (intro exI [of _ "xs @ xs'"] exI [of _ ys']) simp
  then show ?thesis using step by (simp add: here_step_def)
qed

lemma net_step_keeps: "net_inv n \<Longrightarrow> action_ok (snd ev) \<Longrightarrow> \<exists>n'. net_step ev n = Some n' \<and> net_inv n'"
  using here_step_keeps [of n "snd ev"] here_step_keeps [of "swap_net n" "snd ev"]
  by (cases ev; cases "fst ev") auto

lemma net_run_keeps:
  "net_inv n \<Longrightarrow> list_all (action_ok \<circ> snd) evs \<Longrightarrow> \<exists>n'. net_run evs n = Some n' \<and> net_inv n'"
proof (induction evs arbitrary: n)
  case (Cons ev evs)
  then obtain n1 where "net_step ev n = Some n1" "net_inv n1"
    using net_step_keeps [of n ev] by auto
  then show ?case using Cons.IH [of n1] Cons.prems(2) by simp
qed simp

lemma net_step_overlooked:
  assumes "net_inv n" "action_ok (snd ev)" "net_step ev n = Some n'"
  shows "stays_overlooked (here n) (here n')"
proof -
  obtain xs ys where inv: "list_all2 carries xs (outward n)" "list_all2 carries ys (inward n)"
      "ways (here n) (there n) xs ys"
    using assms(1) by (auto simp: net_inv_def)
  obtain first act where ev: "ev = (first, act)" by (rule prod.exhaust)
  show ?thesis
  proof (cases first)
    case True
    then show ?thesis
      using station_step_overlooked [OF inv(3, 2)] assms(2, 3) ev
      by (auto simp: here_step_def bind_eq_Some_conv)
  next
    case False
    then have "here n' = here n"
      using assms(3) ev by (auto simp: here_step_def swap_net_def bind_eq_Some_conv)
    then show ?thesis by simp
  qed
qed

lemma net_run_overlooked:
  "net_inv n \<Longrightarrow> list_all (action_ok \<circ> snd) evs \<Longrightarrow> net_run evs n = Some n' \<Longrightarrow>
   stays_overlooked (here n) (here n')"
proof (induction evs arbitrary: n)
  case (Cons ev evs)
  then obtain n1 where n1: "net_step ev n = Some n1" "net_run evs n1 = Some n'"
    by (auto simp: bind_eq_Some_conv)
  then have "net_inv n1" using net_step_keeps [of n ev] Cons.prems by auto
  then have "stays_overlooked (here n1) (here n')" using Cons.IH [OF _ _ n1(2)] Cons.prems by simp
  moreover have "stays_overlooked (here n) (here n1)"
    using net_step_overlooked [OF Cons.prems(1) _ n1(1)] Cons.prems(2) by simp
  ultimately show ?case by (auto simp: stays_overlooked_def)
qed simp

text \<open>
  From \<open>s\<close> to \<open>s'\<close>: what \<open>s'\<close> has received are the first of the messages \<open>s\<close> has sent, each
  once and in order; all those acknowledged to the caller are among them, and all but at
  most one of those sent are acknowledged.
\<close>

definition exactly_once :: "station \<Rightarrow> station \<Rightarrow> bool" where
  "exactly_once s s' \<longleftrightarrow>
     taken s' = take (length (taken s')) (begun s) \<and> acked s \<le> length (taken s') \<and>
     length (begun s) \<le> acked s + 1"

lemma ways_exactly_once:
  assumes "ways s s' xs ys"
  shows "exactly_once s s'"
proof -
  obtain a r where "flow (begun s) (taken s') a r (datas xs) (acks ys)" "sender_ok a s"
    using assms by (rule waysE)
  then show ?thesis
    by (cases "waiting_for s") (auto simp: exactly_once_def flow_def sender_ok_def split: if_splits)
qed

lemma net_inv_exactly_once:
  "net_inv n \<Longrightarrow> exactly_once (here n) (there n) \<and> exactly_once (there n) (here n)"
  using ways_exactly_once by (auto simp: net_inv_def ways_def)

text \<open>
  What the numbers of the link objects stand for, in the direction from \<open>s\<close> to \<open>s'\<close>: the
  messages sent, the acknowledgments seen and the messages received, modulo eight; and what
  is stored and not yet picked up.
\<close>

definition received :: "station \<Rightarrow> nat" where
  "received s = length (taken s) + (if extractionComplete (link_obj s) then 1 else 0)"

definition numbers_count :: "station \<Rightarrow> station \<Rightarrow> bool" where
  "numbers_count s s' \<longleftrightarrow>
     (\<not> gave_up s \<longrightarrow>
        send_number (link_obj s) = seq8 (length (begun s)) \<and>
        next_expected_ack (link_obj s) \<in> {seq8 (acked s), seq8 (length (begun s))}) \<and>
     (\<not> gave_up s' \<longrightarrow>
        recv_number (link_obj s') = seq8 (received s') \<and> received s' \<le> length (begun s) \<and>
        (extractionComplete (link_obj s') \<longrightarrow>
           take (unat (extractionBufferSize (link_obj s'))) (extractionBuffer (link_obj s')) =
             begun s ! length (taken s')))"

lemma ways_numbers_count:
  assumes "ways s s' xs ys"
  shows "numbers_count s s'"
proof -
  obtain a r where f: "flow (begun s) (taken s') a r (datas xs) (acks ys)" "sender_ok a s"
      "receiver_ok (begun s) r s'"
    using assms by (rule waysE)
  have "next_expected_ack (link_obj s) \<in> {seq8 (acked s), seq8 (length (begun s))}
      \<and> send_number (link_obj s) = seq8 (length (begun s))" if g: "\<not> gave_up s"
  proof -
    have "a = acked s \<or> a = length (begun s)"
      using f(1,2) g by (cases "waiting_for s") (auto simp: flow_def sender_ok_def)
    then show ?thesis using f(2) g by (auto simp: sender_ok_def)
  qed
  moreover have "recv_number (link_obj s') = seq8 (received s') \<and> received s' \<le> length (begun s) \<and>
      (extractionComplete (link_obj s') \<longrightarrow>
         take (unat (extractionBufferSize (link_obj s'))) (extractionBuffer (link_obj s')) =
           begun s ! length (taken s'))" if g: "\<not> gave_up s'"
    using f(1,3) g by (auto simp: flow_def receiver_ok_def received_def split: if_splits)
  ultimately show ?thesis by (auto simp: numbers_count_def)
qed

section \<open>The specification: a reliable channel\<close>

text \<open>
  What a direction promises: messages are submitted one at a time, each after the one before
  was confirmed; they are handed out in order; and only messages handed out are confirmed.
\<close>

record channel =
  submitted :: "byte list list"
  handed_out :: "byte list list"
  confirmed :: nat

inductive channel_step :: "channel \<Rightarrow> channel \<Rightarrow> bool" where
  submit: "confirmed c = length (submitted c) \<Longrightarrow> channel_step c (c\<lparr>submitted := submitted c @ [m]\<rparr>)"
| hand_out: "length (handed_out c) < length (submitted c) \<Longrightarrow>
    channel_step c (c\<lparr>handed_out := handed_out c @ [submitted c ! length (handed_out c)]\<rparr>)"
| confirm: "confirmed c < length (handed_out c) \<Longrightarrow> channel_step c (c\<lparr>confirmed := confirmed c + 1\<rparr>)"

definition channel_of :: "station \<Rightarrow> station \<Rightarrow> channel" where
  "channel_of s s' = \<lparr>submitted = begun s, handed_out = taken s', confirmed = acked s\<rparr>"

text \<open>A step of a station extends one of the three histories, or none.\<close>

lemma station_send_history:
  assumes "station_send x m s = Some (t, out)"
  shows "(begun t = begun s \<or> begun t = begun s @ [m]) \<and> taken t = taken s \<and> acked t = acked s"
proof (cases "waiting_for s")
  case None
  then obtain st d e where
    "send_begin (thread_env x) (link_obj s) (Some m) (length m) quiet = Some (st, d, e)"
    using assms by (cases "send_begin (thread_env x) (link_obj s) (Some m) (length m) quiet")
      (auto simp: station_send_def)
  then show ?thesis using assms None by (cases st) (auto simp: station_send_def)
qed (use assms in \<open>auto simp: station_send_def\<close>)

lemma station_pick_up_history:
  assumes "station_pick_up x s = Some (t, out)"
  shows "begun t = begun s \<and> (taken t = taken s \<or> (\<exists>m. taken t = taken s @ [m])) \<and> acked t = acked s"
proof -
  obtain r b n d e where "dcGetReceivedMsg (thread_env x) (Some (link_obj s))
      (Some (replicate DEADCOM_PAYLOAD_MAX_LEN 0)) (Some 0) quiet = Some (r, b, n, d, e)"
    using assms by (auto simp: station_pick_up_def bind_eq_Some_conv)
  then have "t = s\<lparr>link_obj := the d,
      taken := taken s @ (if r \<noteq> DC_OK \<or> n = Some 0 then [] else [take (the n) (the b)])\<rparr>"
    using assms by (simp add: station_pick_up_def)
  then show ?thesis by (cases "r \<noteq> DC_OK \<or> n = Some 0") simp_all
qed

lemma station_step_history:
  assumes "station_step act s inbox = Some (t, inbox', out)"
  shows "begun t = begun s \<and> taken t = taken s \<and> acked t = acked s \<or>
    (\<exists>m. begun t = begun s @ [m] \<and> taken t = taken s \<and> acked t = acked s) \<or>
    (\<exists>m. begun t = begun s \<and> taken t = taken s @ [m] \<and> acked t = acked s) \<or>
    begun t = begun s \<and> taken t = taken s \<and> acked t = acked s + 1"
proof (cases act)
  case (NetSend m)
  then show ?thesis using assms station_send_history by fastforce
next
  case (NetSendFails m)
  then show ?thesis using assms station_send_history by fastforce
next
  case (NetResume x)
  show ?thesis
  proof (cases "waiting_for s")
    case (Some f)
    show ?thesis
    proof (cases "\<not> x \<and> \<not> woken s")
      case False
      then obtain st d e where "send_resume (thread_env True) f True (Some x) (link_obj s) quiet = Some (st, d, e)"
        using assms NetResume Some by (cases "send_resume (thread_env True) f True (Some x) (link_obj s) quiet")
          (auto simp: station_resume_def)
      then have "t = (case st of
            SendReturned r \<Rightarrow> s\<lparr>link_obj := d, waiting_for := None,
              acked := (if r = DC_OK then acked s + 1 else acked s),
              gave_up := (gave_up s \<or> r = DC_LINK_RESET)\<rparr>
          | SendWaiting g \<Rightarrow> s\<lparr>link_obj := d, waiting_for := Some g, woken := False\<rparr>)"
        using assms NetResume Some False by (simp add: station_resume_def)
      then show ?thesis by (cases st) simp_all
    qed (use assms NetResume Some in \<open>auto simp: station_resume_def\<close>)
  qed (use assms NetResume in \<open>auto simp: station_resume_def\<close>)
next
  case NetReceive
  then show ?thesis
    using assms by (cases inbox) (auto simp: station_receive_def bind_eq_Some_conv)
next
  case NetReceiveFails
  then show ?thesis
    using assms by (cases inbox) (auto simp: station_receive_def bind_eq_Some_conv)
next
  case NetPickUp
  then show ?thesis using assms station_pick_up_history by fastforce
next
  case NetPickUpFails
  then show ?thesis using assms station_pick_up_history by fastforce
next
  case NetDisconnect
  then show ?thesis
    using assms by (auto simp: station_disconnect_def bind_eq_Some_conv)
qed (use assms in auto)

lemma channel_step_own:
  assumes "exactly_once s s'" "exactly_once t s'"
    and "begun t = begun s \<and> acked t = acked s \<or>
      (\<exists>m. begun t = begun s @ [m] \<and> acked t = acked s) \<or> begun t = begun s \<and> acked t = acked s + 1"
  shows "channel_of t s' = channel_of s s' \<or> channel_step (channel_of s s') (channel_of t s')"
  using assms(3)
proof (elim disjE exE conjE)
  fix m
  assume m: "begun t = begun s @ [m]" "acked t = acked s"
  have "length (taken s') \<le> length (begun s)"
    using assms(1) unfolding exactly_once_def by (metis length_take min.bounded_iff order_refl)
  then have "acked s = length (begun s)"
    using assms(1, 2) m by (simp add: exactly_once_def)
  then show ?thesis
    using m submit [of "channel_of s s'" m] by (simp add: channel_of_def)
next
  assume "begun t = begun s" "acked t = acked s + 1"
  then show ?thesis
    using assms(2) confirm [of "channel_of s s'"] by (simp add: channel_of_def exactly_once_def)
qed (simp add: channel_of_def)

lemma channel_step_other:
  assumes "exactly_once s s'" "exactly_once s t'" "taken t' = taken s' \<or> (\<exists>m. taken t' = taken s' @ [m])"
  shows "channel_of s t' = channel_of s s' \<or> channel_step (channel_of s s') (channel_of s t')"
  using assms(3)
proof (elim disjE exE)
  fix m
  assume m: "taken t' = taken s' @ [m]"
  then have t: "taken s' @ [m] = take (Suc (length (taken s'))) (begun s)"
    using assms(2) by (simp add: exactly_once_def)
  then have "length (taken s') < length (begun s)"
    by (metis length_append_singleton length_take less_eq_Suc_le min.bounded_iff order_refl)
  moreover from this have "m = begun s ! length (taken s')"
    using t by (simp add: take_Suc_conv_app_nth)
  ultimately show ?thesis
    using m hand_out [of "channel_of s s'"] by (simp add: channel_of_def)
qed (simp add: channel_of_def)

lemma net_step_channels:
  assumes "net_inv n" "action_ok (snd ev)" "net_step ev n = Some n'"
  shows "(channel_of (here n') (there n') = channel_of (here n) (there n) \<or>
      channel_step (channel_of (here n) (there n)) (channel_of (here n') (there n'))) \<and>
    (channel_of (there n') (here n') = channel_of (there n) (here n) \<or>
      channel_step (channel_of (there n) (here n)) (channel_of (there n') (here n')))"
proof -
  have inv: "net_inv n'" using net_step_keeps [OF assms(1, 2)] assms(3) by simp
  note once = net_inv_exactly_once [OF assms(1)] net_inv_exactly_once [OF inv]
  obtain first act where ev: "ev = (first, act)" by (rule prod.exhaust)
  show ?thesis
  proof (cases first)
    case True
    then obtain inbox out where same: "there n' = there n"
      and step: "station_step act (here n) (inward n) = Some (here n', inbox, out)"
      using assms(3) ev by (auto simp: here_step_def bind_eq_Some_conv)
    note h = station_step_history [OF step]
    have "channel_of (here n') (there n) = channel_of (here n) (there n) \<or>
        channel_step (channel_of (here n) (there n)) (channel_of (here n') (there n))"
      by (rule channel_step_own) (use once same h in auto)
    moreover have "channel_of (there n) (here n') = channel_of (there n) (here n) \<or>
        channel_step (channel_of (there n) (here n)) (channel_of (there n) (here n'))"
      by (rule channel_step_other) (use once same h in auto)
    ultimately show ?thesis unfolding same by (rule conjI)
  next
    case False
    then obtain inbox out where same: "here n' = here n"
      and step: "station_step act (there n) (outward n) = Some (there n', inbox, out)"
      using assms(3) ev by (auto simp: here_step_def swap_net_def bind_eq_Some_conv)
    note h = station_step_history [OF step]
    have "channel_of (here n) (there n') = channel_of (here n) (there n) \<or>
        channel_step (channel_of (here n) (there n)) (channel_of (here n) (there n'))"
      by (rule channel_step_other) (use once same h in auto)
    moreover have "channel_of (there n') (here n) = channel_of (there n) (here n) \<or>
        channel_step (channel_of (there n) (here n)) (channel_of (there n') (here n))"
      by (rule channel_step_own) (use once same h in auto)
    ultimately show ?thesis unfolding same by (rule conjI)
  qed
qed

section \<open>Properties\<close>

text \<open>Two stations after the handshake: connected, numbers at zero, nothing pending.\<close>

definition freshly_connected :: "DeadcomL2 \<Rightarrow> bool" where
  "freshly_connected d \<longleftrightarrow>
     link_idle d \<and> state d = DC_CONNECTED \<and> \<not> extractionComplete d \<and> send_number d = 0 \<and>
     next_expected_ack d = 0 \<and> recv_number d = 0"

definition new_station :: "DeadcomL2 \<Rightarrow> station" where
  "new_station d =
     \<lparr>link_obj = d, waiting_for = None, woken = False, begun = [], acked = 0, taken = [],
      gave_up = False\<rparr>"

definition new_net :: "DeadcomL2 \<Rightarrow> DeadcomL2 \<Rightarrow> net" where
  "new_net d d' = \<lparr>here = new_station d, there = new_station d', outward = [], inward = []\<rparr>"

lemma seq8_0: "seq8 0 = 0"
  by (simp add: seq8_def)

lemma new_way: "freshly_connected d \<Longrightarrow> freshly_connected d' \<Longrightarrow> way (new_station d) (new_station d') [] []"
  unfolding way_def
  by (intro exI [of _ 0])
    (simp add: flow_def sender_ok_def receiver_ok_def new_station_def freshly_connected_def seq8_0)

lemma new_net_inv: "freshly_connected d \<Longrightarrow> freshly_connected d' \<Longrightarrow> net_inv (new_net d d')"
  unfolding net_inv_def
  by (intro exI [of _ "[]"]) (simp add: new_net_def ways_def new_way)

lemma sample_fresh: "freshly_connected sample_link"
  using sample_link_idle
  by (simp add: freshly_connected_def) (simp add: sample_link_def resetLink_def dc_zero_def)

text \<open>
  C1. Two connected stations, any order of steps, under three conditions: the messages have
  other lengths than 248 and 249 octets (which overflow the receiver, \<open>long_message_overflows\<close>),
  retransmissions can be transmitted (\<open>failed_retransmission_reuses_number\<close>), and neither station
  connects again (\<open>late_conn_ack_loses_message\<close>).  On each, \<open>dcSendMessage\<close> (begun, and
  resumed after a signal or a timeout at any moment), \<open>dcProcessData\<close> on the next frame to
  arrive whenever the receiving thread gets to it, \<open>dcGetReceivedMsg\<close> and \<open>dcDisconnect\<close>;
  frames are delayed for any time and any of them may be lost, and the transmission of a
  message (the first time), of the acknowledgment when a message is picked up and of a
  repeated acknowledgment may fail.  No step is undefined
  behaviour, and in both directions at once messages are received in order and without
  duplicates, every message whose \<open>dcSendMessage\<close> returned \<open>DC_OK\<close> has been received, and
  at most the last one sent is still without an answer or was given up.
\<close>

theorem async_exactly_once:
  assumes "freshly_connected d" "freshly_connected d'" "list_all (action_ok \<circ> snd) evs"
  shows "\<exists>n. net_run evs (new_net d d') = Some n \<and>
    exactly_once (here n) (there n) \<and> exactly_once (there n) (here n)"
  using net_run_keeps [OF new_net_inv [OF assms(1, 2)] assms(3)] net_inv_exactly_once by blast

text \<open>
  The first station's message is sent when the transmission works again, and retransmitted
  after a timeout while the second one's is on its way; all are received, one of them in the
  second attempt to acknowledge it, and the answers come back.
\<close>

theorem async_exactly_once_witness:
  "\<exists>n. net_run [(True, NetSendFails [1, 2]), (True, NetSend [1, 2]), (True, NetResume True),
       (False, NetSend [3]), (False, NetReceive), (False, NetPickUpFails), (False, NetPickUp),
       (False, NetReceiveFails), (True, NetReceive),
       (True, NetPickUp), (True, NetReceive), (True, NetResume False), (False, NetReceive),
       (False, NetResume False)] (new_net sample_link sample_link) = Some n \<and>
    exactly_once (here n) (there n) \<and> exactly_once (there n) (here n)"
  by (rule async_exactly_once) (simp_all add: sample_fresh)

text \<open>
  That run evaluated: both messages are taken once and both calls have returned \<open>DC_OK\<close>.
\<close>

lemma failing_transmissions_run:
  "map_option (\<lambda>n. (taken (here n), taken (there n), acked (here n), acked (there n)))
     (net_run [(True, NetSendFails [1, 2]), (True, NetSend [1, 2]), (True, NetResume True),
       (False, NetSend [3]), (False, NetReceive), (False, NetPickUpFails), (False, NetPickUp),
       (False, NetReceiveFails), (True, NetReceive),
       (True, NetPickUp), (True, NetReceive), (True, NetResume False), (False, NetReceive),
       (False, NetResume False)] (new_net sample_link sample_link)) =
   Some ([[3]], [[1, 2]], 1, 1)"
  by code_simp

text \<open>
  C26. Sequence numbers count.  In every reachable state of two stations (messages of other
  lengths than 248 and 249 octets, retransmissions that can be transmitted, no new handshake),
  on a station that has not given up, \<open>send_number\<close> is the number of messages it has sent,
  \<open>next_expected_ack\<close> the number of those acknowledged (to the caller, or already to the thread
  that waits), and \<open>recv_number\<close> the number of messages received, each modulo eight; a message
  that is stored is the next one of the other station's to be picked up, unchanged.
\<close>

theorem sequence_numbers_count:
  assumes "freshly_connected d" "freshly_connected d'" "list_all (action_ok \<circ> snd) evs"
    and "net_run evs (new_net d d') = Some n"
  shows "numbers_count (here n) (there n) \<and> numbers_count (there n) (here n)"
proof -
  have "net_inv n"
    using net_run_keeps [OF new_net_inv [OF assms(1, 2)] assms(3)] assms(4) by simp
  then show ?thesis using ways_numbers_count by (auto simp: net_inv_def ways_def)
qed

text \<open>A message is stored, a copy of it on the way, and none of it acknowledged.\<close>

theorem sequence_numbers_count_witness:
  "\<exists>n. net_run [(True, NetSend [7]), (False, NetReceive), (True, NetResume True)]
       (new_net sample_link sample_link) = Some n \<and>
     extractionComplete (link_obj (there n)) \<and> recv_number (link_obj (there n)) = 1 \<and>
     take (unat (extractionBufferSize (link_obj (there n)))) (extractionBuffer (link_obj (there n))) = [7]"
proof -
  let ?evs = "[(True, NetSend [7]), (False, NetReceive), (True, NetResume True)]"
  have "map_option (\<lambda>n. extractionComplete (link_obj (there n)) \<and> \<not> gave_up (there n) \<and>
      taken (there n) = [] \<and> begun (here n) = [[7]]) (net_run ?evs (new_net sample_link sample_link)) =
    Some True"
    by code_simp
  then obtain n where n: "net_run ?evs (new_net sample_link sample_link) = Some n"
      "extractionComplete (link_obj (there n))" "\<not> gave_up (there n)" "taken (there n) = []"
      "begun (here n) = [[7]]"
    by auto
  have "seq8 1 = 1" by (simp add: seq8_def)
  then show ?thesis
    using sequence_numbers_count [OF sample_fresh sample_fresh _ n(1)] n
    by (auto simp: numbers_count_def received_def simp del: net_run.simps)
qed

text \<open>
  C3. Refinement: in every reachable state, a step of either station, whatever it is, is in
  each direction a step of the reliable channel or leaves it as it is.  The retransmissions,
  acknowledgments, timeouts, losses and disconnections are invisible in the specification.
\<close>

theorem network_refines_channels:
  assumes "freshly_connected d" "freshly_connected d'" "list_all (action_ok \<circ> snd) evs"
    and "net_run evs (new_net d d') = Some n" "action_ok act" "net_step (first, act) n = Some n'"
  shows "(channel_of (here n') (there n') = channel_of (here n) (there n) \<or>
      channel_step (channel_of (here n) (there n)) (channel_of (here n') (there n'))) \<and>
    (channel_of (there n') (here n') = channel_of (there n) (here n) \<or>
      channel_step (channel_of (there n) (here n)) (channel_of (there n') (here n')))"
proof (rule net_step_channels)
  show "net_inv n"
    using net_run_keeps [OF new_net_inv [OF assms(1, 2)] assms(3)] assms(4) by simp
qed (use assms(5, 6) in simp_all)

text \<open>The first message is picked up: the channel hands it out.\<close>

theorem network_refines_channels_witness:
  "\<exists>n n'. net_run [(True, NetSend [7]), (False, NetReceive)] (new_net sample_link sample_link) = Some n \<and>
    net_step (False, NetPickUp) n = Some n' \<and> taken (there n') = [[7]] \<and>
    channel_step (channel_of (here n) (there n)) (channel_of (here n') (there n'))"
proof -
  let ?evs = "[(True, NetSend [7]), (False, NetReceive)]"
  have "map_option (\<lambda>n. taken (there n) = [] \<and>
      map_option (\<lambda>n'. taken (there n')) (net_step (False, NetPickUp) n) = Some [[7]])
      (net_run ?evs (new_net sample_link sample_link)) = Some True"
    by code_simp
  then obtain n where n: "net_run ?evs (new_net sample_link sample_link) = Some n" "taken (there n) = []"
      "map_option (\<lambda>n'. taken (there n')) (net_step (False, NetPickUp) n) = Some [[7]]"
    by (auto simp del: net_step.simps)
  then obtain n' where n': "net_step (False, NetPickUp) n = Some n'" "taken (there n') = [[7]]"
    by (auto simp del: net_step.simps)
  have "channel_of (here n') (there n') \<noteq> channel_of (here n) (there n)"
    using n(2) n'(2) by (simp add: channel_of_def)
  then show ?thesis
    using network_refines_channels [OF sample_fresh sample_fresh _ n(1) _ n'(1)] n(1) n'
    by (simp del: net_step.simps)
qed

text \<open>
  C34. A timeout that coincides with the acknowledgment is final.  When the acknowledgment has
  been processed and the waiting thread signalled, but the wait ends with \<open>timed_out\<close>
  (\<open>pthread_cond_timedwait\<close> reports the timeout also when the signal came while it was
  waiting for the mutex again, and \<open>dcl_pthreads_condvarWait\<close> passes it on), the message
  has been received, and yet whatever happens afterwards its \<open>dcSendMessage\<close> never returns
  \<open>DC_OK\<close>, and nothing else can be sent: every further acknowledgment of the retransmitted
  message is ignored, until the call gives up and resets the link.
\<close>

theorem coinciding_timeout_is_final:
  assumes "freshly_connected d" "freshly_connected d'" "list_all (action_ok \<circ> snd) evs"
    and "net_run evs (new_net d d') = Some n" "waiting_for (here n) \<noteq> None" "woken (here n)"
    and "list_all (action_ok \<circ> snd) evs'" "net_run ((True, NetResume True) # evs') n = Some n'"
  shows "taken (there n) = begun (here n) \<and> acked (here n') = acked (here n) \<and>
    acked (here n') < length (begun (here n)) \<and> begun (here n') = begun (here n)"
proof -
  have inv: "net_inv n"
    using net_run_keeps [OF new_net_inv [OF assms(1, 2)] assms(3)] assms(4) by simp
  then obtain xs ys where ways: "ways (here n) (there n) xs ys" by (auto simp: net_inv_def)
  obtain a r where f: "flow (begun (here n)) (taken (there n)) a r (datas xs) (acks ys)"
      "sender_ok a (here n)"
    using ways by (rule waysE)
  obtain n1 where n1: "net_step (True, NetResume True) n = Some n1" "net_run evs' n1 = Some n'"
    using assms(8) by (auto simp: bind_eq_Some_conv)
  then have "net_inv n1"
    using net_step_keeps [OF inv, of "(True, NetResume True)"] by simp
  moreover have "overlooked (here n1) \<and> acked (here n1) = acked (here n) \<and> begun (here n1) = begun (here n)"
    using resume_step [OF f(2), of True] n1(1) assms(5, 6)
    by (auto simp: here_step_def bind_eq_Some_conv)
  ultimately have "acked (here n') = acked (here n)" "begun (here n') = begun (here n)"
    using net_run_overlooked [OF _ assms(7) n1(2)] by (auto simp: stays_overlooked_def)
  moreover have "a = length (begun (here n))" "acked (here n) < length (begun (here n))"
    using f(2) assms(5, 6) by (auto simp: sender_ok_def)
  ultimately show ?thesis
    using f(1) by (auto simp: flow_def)
qed

text \<open>
  The message is received, its acknowledgment comes back and is processed, the wait times
  out; the retransmitted message is acknowledged once more, without effect.
\<close>

theorem coinciding_timeout_is_final_witness:
  "\<exists>n n'. net_run [(True, NetSend [7]), (False, NetReceive), (False, NetPickUp), (True, NetReceive)]
       (new_net sample_link sample_link) = Some n \<and>
     net_run [(True, NetResume True), (False, NetReceive), (True, NetReceive), (True, NetResume False)] n
       = Some n' \<and>
     taken (there n) = begun (here n) \<and> acked (here n') < length (begun (here n))"
proof -
  let ?evs = "[(True, NetSend [7]), (False, NetReceive), (False, NetPickUp), (True, NetReceive)]"
  let ?evs' = "[(False, NetReceive), (True, NetReceive), (True, NetResume False)]"
  have "map_option (\<lambda>n. waiting_for (here n) \<noteq> None \<and> woken (here n))
      (net_run ?evs (new_net sample_link sample_link)) = Some True"
    by code_simp
  then obtain n where n: "net_run ?evs (new_net sample_link sample_link) = Some n"
      "waiting_for (here n) \<noteq> None" "woken (here n)"
    by auto
  have "net_inv n"
    using net_run_keeps [OF new_net_inv [OF sample_fresh sample_fresh], of ?evs] n(1) by simp
  then obtain n' where n': "net_run ((True, NetResume True) # ?evs') n = Some n'"
    using net_run_keeps [of n "(True, NetResume True) # ?evs'"] by auto
  show ?thesis
    using coinciding_timeout_is_final [OF sample_fresh sample_fresh _ n _ n'] n(1) n' by simp
qed

end
