(* ===== verification/Dcl2_Progress.thy ===== *)
theory Dcl2_Progress
  imports Dcl2_Network
begin

text \<open>
  The protocol does not run into a dead end: in every state that two connected stations can
  reach, a \<open>dcSendMessage\<close> that waits, has a retransmission left and has not missed its
  signal can still succeed.  Nothing on the line is needed for it; the schedule that leads
  there starts with losing all of it.
\<close>

section \<open>Steps of either station\<close>

lemma there_step:
  "net_step (False, act) n =
     map_option (\<lambda>(s, inbox, out). n\<lparr>there := s, outward := inbox, inward := inward n @ out\<rparr>)
       (station_step act (there n) (outward n))"
  by (cases "station_step act (there n) (outward n)") (auto simp: here_step_def swap_net_def)

lemma first_step:
  "net_step (True, act) n =
     map_option (\<lambda>(s, inbox, out). n\<lparr>here := s, inward := inbox, outward := outward n @ out\<rparr>)
       (station_step act (here n) (inward n))"
  by (cases "station_step act (here n) (inward n)") (auto simp: here_step_def)

text \<open>That some allowed schedule leads from one state to another.\<close>

definition leads_to :: "net \<Rightarrow> net \<Rightarrow> bool" where
  "leads_to n n' \<longleftrightarrow> (\<exists>evs. list_all (action_ok \<circ> snd) evs \<and> net_run evs n = Some n')"

lemma leads_to_refl [simp]: "leads_to n n"
  unfolding leads_to_def by (rule exI [of _ "[]"]) simp

lemma net_run_append:
  "net_run (evs @ evs') n = Option.bind (net_run evs n) (net_run evs')"
proof (induction evs arbitrary: n)
  case (Cons ev evs)
  then show ?case by (cases "net_step ev n") simp_all
qed simp

lemma leads_to_trans: "leads_to n n' \<Longrightarrow> leads_to n' n'' \<Longrightarrow> leads_to n n''"
  unfolding leads_to_def by (metis (no_types) bind.bind_lunit list_all_append net_run_append)

lemma leads_to_step: "net_step ev n = Some n' \<Longrightarrow> action_ok (snd ev) \<Longrightarrow> leads_to n n'"
  unfolding leads_to_def by (rule exI [of _ "[ev]"]) simp

lemma lose_all: "leads_to n (n\<lparr>outward := [], inward := []\<rparr>)"
proof -
  have "leads_to n (n\<lparr>outward := []\<rparr>)" for n
  proof (induction "outward n" arbitrary: n)
    case Nil
    then have "n\<lparr>outward := []\<rparr> = n" by (cases n) simp
    then show ?case by simp
  next
    case (Cons w ws)
    have "net_step (False, NetLose 0) n = Some (n\<lparr>outward := ws\<rparr>)"
      using Cons.hyps(2) [symmetric] by (simp del: net_step.simps add: there_step)
    then have "leads_to n (n\<lparr>outward := ws\<rparr>)" by (rule leads_to_step) simp
    then show ?case using Cons.hyps(1) [of "n\<lparr>outward := ws\<rparr>"] leads_to_trans by simp
  qed
  moreover have "leads_to n (n\<lparr>inward := []\<rparr>)" for n
  proof (induction "inward n" arbitrary: n)
    case Nil
    then have "n\<lparr>inward := []\<rparr> = n" by (cases n) simp
    then show ?case by simp
  next
    case (Cons w ws)
    have "net_step (True, NetLose 0) n = Some (n\<lparr>inward := ws\<rparr>)"
      using Cons.hyps(2) [symmetric] by (simp del: net_step.simps add: first_step)
    then have "leads_to n (n\<lparr>inward := ws\<rparr>)" by (rule leads_to_step) simp
    then show ?case using Cons.hyps(1) [of "n\<lparr>inward := ws\<rparr>"] leads_to_trans by simp
  qed
  ultimately show ?thesis using leads_to_trans by fastforce
qed

section \<open>The schedule\<close>

text \<open>A step of a station as a step of the two.\<close>

lemma there_leads:
  "station_step act (there n) (outward n) = Some (s, inbox, out) \<Longrightarrow> action_ok act \<Longrightarrow>
   leads_to n (n\<lparr>there := s, outward := inbox, inward := inward n @ out\<rparr>)"
  by (rule leads_to_step [where ev = "(False, act)"]) (simp_all del: net_step.simps add: there_step)

lemma here_leads:
  "station_step act (here n) (inward n) = Some (s, inbox, out) \<Longrightarrow> action_ok act \<Longrightarrow>
   leads_to n (n\<lparr>here := s, inward := inbox, outward := outward n @ out\<rparr>)"
  by (rule leads_to_step [where ev = "(True, act)"]) (simp_all del: net_step.simps add: first_step)

text \<open>The other station takes what is pending, and the line is emptied.\<close>

lemma cleared:
  assumes "sender_ok a' (there n)" "receiver_ok ms r (there n)" "link_up (there n)"
  shows "\<exists>t. leads_to n (n\<lparr>there := t, outward := [], inward := []\<rparr>) \<and> same_sending (there n) t \<and>
    receiver_ok ms r t \<and> \<not> extractionComplete (link_obj t)"
proof -
  obtain t out where "station_pick_up True (there n) = Some (t, out)" "same_sending (there n) t"
      "receiver_ok ms r t" "\<not> extractionComplete (link_obj t)"
    using pick_up_step [OF assms(1, 2)] assms(3) by blast
  moreover from this(1) have "leads_to n (n\<lparr>there := t, outward := outward n, inward := inward n @ out\<rparr>)"
    by (intro there_leads [where act = NetPickUp]) simp_all
  ultimately show ?thesis
    using leads_to_trans [OF _ lose_all] by fastforce
qed

text \<open>The other station receives a copy of the message last sent; both ways end in its acknowledgment.\<close>

lemma answered:
  assumes "sender_ok a' (there n)" "receiver_ok ms r (there n)" "link_up (there n)"
    and "\<not> extractionComplete (link_obj (there n))" "outward n = [f]" "inward n = []"
    and "carries (DataItem a m) f" "sendable m" "a = r \<and> m = ms ! a \<or> Suc a = r"
  shows "\<exists>t w. leads_to n (n\<lparr>there := t, outward := [], inward := [w]\<rparr>) \<and> carries (AckItem a) w"
proof -
  have r: "r = length (taken (there n))"
    using assms(2-4) by (auto simp: receiver_ok_def link_up_def split: if_splits)
  obtain t out where t: "station_receive True f (there n) = Some (t, out)" "same_sending (there n) t"
      "taken t = taken (there n)" "out \<noteq> [] \<or> extractionComplete (link_obj t)"
    and out: "receiver_ok ms r t \<and> (out = [] \<or> (\<exists>w. out = [w] \<and> carries (AckItem a) w \<and> length (taken (there n)) = Suc a)) \<or>
     a = r \<and> out = [] \<and> receiver_ok ms (Suc r) t"
    using receive_data_step [OF assms(1, 2, 7, 8), of True] r assms(3, 4, 9) by blast
  have recv: "leads_to n (n\<lparr>there := t, outward := [], inward := out\<rparr>)"
    using there_leads [of NetReceive n t "[]" out] t(1) assms(5, 6) by simp
  show ?thesis
  proof (cases "\<exists>w. out = [w] \<and> carries (AckItem a) w")
    case True
    then show ?thesis using recv by blast
  next
    case False
    then have none: "out = []" and full: "extractionComplete (link_obj t)" using t(4) out by auto
    have up: "link_up t" "sender_ok a' t"
      using t(2) assms(1, 3) sender_ok_same by (auto simp: link_up_def same_sending_def)
    have "receiver_ok ms (Suc r) t \<and> a = r"
      using out full False none r up(1) t(3) by (auto simp: receiver_ok_def link_up_def split: if_splits)
    then obtain u out' where u: "station_pick_up True t = Some (u, out')"
      and w: "\<exists>w. out' = [w] \<and> carries (AckItem (length (taken t))) w"
      using pick_up_step [OF up(2), of ms "Suc r" True] up(1) full by blast
    let ?n = "n\<lparr>there := t, outward := [], inward := out\<rparr>"
    have "leads_to ?n (?n\<lparr>there := u, outward := [], inward := out'\<rparr>)"
      using there_leads [of NetPickUp ?n u "[]" out'] u none by simp
    then have "leads_to n (n\<lparr>there := u, outward := [], inward := out'\<rparr>)"
      using leads_to_trans [OF recv] by simp
    then show ?thesis
      using w r t(3) \<open>receiver_ok ms (Suc r) t \<and> a = r\<close> by auto
  qed
qed

text \<open>The acknowledgment arrives, and the call returns.\<close>

lemma concluded:
  assumes "sender_ok a (here n)" "waiting_for (here n) \<noteq> None" "state (link_obj (here n)) = DC_TRANSMITTING"
    and "length (begun (here n)) = Suc a" "inward n = [w]" "carries (AckItem a) w"
  shows "\<exists>n'. leads_to n n' \<and> begun (here n') = begun (here n) \<and> acked (here n') = Suc (acked (here n))"
proof -
  obtain s where s: "station_receive True w (here n) = Some (s, [])" "begun s = begun (here n)" "woken s"
      "waiting_for s = waiting_for (here n)" "acked s = acked (here n)" "sender_ok (Suc a) s"
    using receive_ack_step [OF assms(1, 6), of True] assms(3, 4) by blast
  obtain t out where t: "station_resume False s = Some (t, out)" "begun t = begun s" "acked t = Suc (acked s)"
    using resume_step [OF s(6), of False] s(3, 4) assms(2) by auto
  let ?n = "n\<lparr>here := s, inward := []\<rparr>"
  have "leads_to n ?n"
    using here_leads [of NetReceive n s "[]" "[]"] s(1) assms(5) by simp
  moreover have "leads_to ?n (?n\<lparr>here := t, inward := [], outward := outward n @ out\<rparr>)"
    using here_leads [of "NetResume False" ?n t "[]" out] t(1) by simp
  ultimately have "leads_to n (?n\<lparr>here := t, inward := [], outward := outward n @ out\<rparr>)"
    by (rule leads_to_trans)
  moreover have "begun t = begun (here n)" "acked t = Suc (acked (here n))"
    using t(2, 3) s(2, 5) by simp_all
  ultimately show ?thesis by (intro exI [of _ "?n\<lparr>here := t, inward := [], outward := outward n @ out\<rparr>"]) simp
qed

lemma leads_to_inv: "leads_to n n' \<Longrightarrow> net_inv n \<Longrightarrow> net_inv n'"
  using net_run_keeps by (fastforce simp: leads_to_def)

lemma waiting_acked: "sender_ok a s \<Longrightarrow> waiting_for s \<noteq> None \<Longrightarrow> length (begun s) = Suc (acked s)"
  by (auto simp: sender_ok_def)

lemma retried:
  assumes "net_inv n" "waiting_for (here n) \<noteq> None" "state (link_obj (here n)) = DC_TRANSMITTING"
    and "next_expected_ack (link_obj (here n)) \<noteq> seq8 (length (begun (here n)))"
    and "unat (failure_count (link_obj (here n))) < 2" "link_up (there n)"
  shows "\<exists>n'. leads_to n n' \<and> begun (here n') = begun (here n) \<and> acked (here n') = Suc (acked (here n))"
proof -
  obtain xs ys where ways: "ways (here n) (there n) xs ys" using assms(1) by (auto simp: net_inv_def)
  obtain a r a' r' where
    f: "flow (begun (here n)) (taken (there n)) a r (datas xs) (acks ys)" "sender_ok a (here n)"
      "receiver_ok (begun (here n)) r (there n)" "sender_ok a' (there n)"
    using ways by (rule waysE)
  have "a \<noteq> length (begun (here n))" using f(2) assms(2, 4) by (auto simp: sender_ok_def)
  then have len: "length (begun (here n)) = Suc a" and r: "r = a \<or> Suc a = r"
    and ok: "list_all sendable (begun (here n))"
    using f(1) by (auto simp: flow_def)
  obtain t where t: "leads_to n (n\<lparr>there := t, outward := [], inward := []\<rparr>)" "same_sending (there n) t"
      "receiver_ok (begun (here n)) r t" "\<not> extractionComplete (link_obj t)"
    using cleared [OF f(4, 3) assms(6)] by blast
  obtain s out where s: "station_resume True (here n) = Some (s, out)" "sender_ok a s"
      "begun s = begun (here n)" "out \<noteq> []"
      "waiting_for s = waiting_for (here n)" "state (link_obj s) = state (link_obj (here n))"
      "out = [] \<or> (\<exists>f ms m. out = [f] \<and> begun (here n) = ms @ [m] \<and> carries (DataItem (length ms) m) f)"
    using resume_step [OF f(2), of True] assms(2, 5) by blast
  then have acked: "acked s = acked (here n)"
    using waiting_acked [OF f(2)] waiting_acked [OF s(2)] assms(2) by simp
  from s obtain g ms m where g: "out = [g]" "begun (here n) = ms @ [m]" "carries (DataItem (length ms) m) g"
    by blast
  let ?n1 = "n\<lparr>there := t, outward := [], inward := []\<rparr>"
  let ?n2 = "n\<lparr>there := t, here := s, inward := [], outward := [g]\<rparr>"
  have "leads_to ?n1 ?n2"
    using here_leads [of "NetResume True" ?n1 s "[]" out] s(1) g(1) by simp
  then have n2: "leads_to n ?n2" by (rule leads_to_trans [OF t(1)])
  have "link_up t" "sender_ok a' t"
    using t(2) f(4) assms(6) sender_ok_same by (auto simp: link_up_def same_sending_def)
  then have "\<exists>u w. leads_to ?n2 (?n2\<lparr>there := u, outward := [], inward := [w]\<rparr>) \<and> carries (AckItem a) w"
    using t(3, 4) g len r ok
    by (intro answered [of a' ?n2 "begun (here n)" r g a m]) (auto simp del: carries.simps)
  then obtain u w where u: "leads_to ?n2 (?n2\<lparr>there := u, outward := [], inward := [w]\<rparr>)"
      "carries (AckItem a) w" by blast
  let ?n3 = "?n2\<lparr>there := u, outward := [], inward := [w]\<rparr>"
  obtain n' where "leads_to ?n3 n'" "begun (here n') = begun (here ?n3)" "acked (here n') = Suc (acked (here ?n3))"
    using concluded [of a ?n3 w] s u(2) len assms(2, 3) by auto
  then show ?thesis
    using leads_to_trans [OF n2 leads_to_trans [OF u(1)]] s(3) acked by auto
qed

section \<open>Properties\<close>

text \<open>
  C4.  No dead end: in every state that two connected stations reach, by any order of steps,
  delays and losses, if a \<open>dcSendMessage\<close> waits with a retransmission left, both links are
  up, and the signal of a counted acknowledgment has not been missed, then some continuation
  makes it return \<open>DC_OK\<close>, and all messages sent so far have been received.
\<close>

theorem async_can_succeed:
  assumes "freshly_connected d" "freshly_connected d'" "list_all (action_ok \<circ> snd) evs"
    and "net_run evs (new_net d d') = Some n" "waiting_for (here n) \<noteq> None"
    and "unat (failure_count (link_obj (here n))) < 2"
    and "state (link_obj (here n)) = DC_TRANSMITTING" "link_up (there n)" "\<not> overlooked (here n)"
  shows "\<exists>evs' n'. list_all (action_ok \<circ> snd) evs' \<and> net_run evs' n = Some n' \<and>
    begun (here n') = begun (here n) \<and> acked (here n') = acked (here n) + 1 \<and>
    taken (there n') = begun (here n)"
proof -
  have inv: "net_inv n"
    using net_run_keeps [OF new_net_inv [OF assms(1, 2)] assms(3)] assms(4) by simp
  then obtain xs ys where ways: "ways (here n) (there n) xs ys" by (auto simp: net_inv_def)
  obtain a where ok: "sender_ok a (here n)" using ways by (rule waysE)
  have "\<exists>n'. leads_to n n' \<and> begun (here n') = begun (here n) \<and> acked (here n') = Suc (acked (here n))"
  proof (cases "woken (here n)")
    case True
    then obtain s out where "station_resume False (here n) = Some (s, out)" "begun s = begun (here n)"
        "acked s = Suc (acked (here n))"
      using resume_step [OF ok, of False] assms(5) by auto
    then show ?thesis
      using here_leads [of "NetResume False" n s "inward n" out] by fastforce
  next
    case False
    then show ?thesis
      using assms(5-9) by (intro retried [OF inv]) (auto simp: overlooked_def)
  qed
  then obtain n' where n': "leads_to n n'" "begun (here n') = begun (here n)"
      "acked (here n') = Suc (acked (here n))" by blast
  have "exactly_once (here n') (there n')"
    using net_inv_exactly_once leads_to_inv [OF n'(1) inv] by blast
  moreover have "length (begun (here n)) = Suc (acked (here n))"
    using ok assms(5) by (rule waiting_acked)
  ultimately have "taken (there n') = begun (here n)"
    using n'(2, 3) by (metis exactly_once_def take_all)
  then show ?thesis using n' by (auto simp: leads_to_def)
qed

text \<open>
  The other station has received the message but not picked it up, both copies of the frame
  and the line are lost after one timeout.
\<close>

theorem async_can_succeed_witness:
  "\<exists>n evs' n'. net_run [(True, NetSend [7]), (False, NetReceive), (True, NetResume True), (False, NetLose 0)]
      (new_net sample_link sample_link) = Some n \<and>
    list_all (action_ok \<circ> snd) evs' \<and> net_run evs' n = Some n' \<and> taken (there n') = begun (here n)"
proof -
  let ?evs = "[(True, NetSend [7]), (False, NetReceive), (True, NetResume True), (False, NetLose 0)]"
  have "map_option (\<lambda>n. waiting_for (here n) \<noteq> None \<and> unat (failure_count (link_obj (here n))) < 2 \<and>
      state (link_obj (here n)) = DC_TRANSMITTING \<and> state (link_obj (there n)) = DC_CONNECTED \<and>
      \<not> gave_up (here n) \<and> next_expected_ack (link_obj (here n)) = 0 \<and> length (begun (here n)) = 1)
      (net_run ?evs (new_net sample_link sample_link)) = Some True"
    by code_simp
  then obtain n where n: "net_run ?evs (new_net sample_link sample_link) = Some n"
      "waiting_for (here n) \<noteq> None" "unat (failure_count (link_obj (here n))) < 2"
      "state (link_obj (here n)) = DC_TRANSMITTING" "link_up (there n)" "\<not> overlooked (here n)"
    by (auto simp: link_up_def overlooked_def seq8_def)
  then show ?thesis
    using async_can_succeed [OF sample_fresh sample_fresh _ n] by auto
qed

end
