(* ===== verification/Dcl2_Session.thy ===== *)
theory Dcl2_Session
  imports Dcl2_Network
begin

text \<open>
  Two stations from initialisation on: \<open>dcConnect\<close> cut at its wait, as \<open>Dcl2_Threads\<close> does with
  \<open>dcSendMessage\<close>, and sessions in which one station connects while everything else happens in
  any order.  The handshake ends in a state that the invariant of \<open>Dcl2_Network\<close> describes, so
  that messages are received exactly once and in order from the start.
\<close>

section \<open>Connecting in pieces\<close>

datatype connect_state = ConnectReturned DeadcomL2Result | ConnectWaiting

definition connect_returned :: "'e dc_ret \<Rightarrow> (connect_state \<times> DeadcomL2 \<times> 'e) option" where
  "connect_returned r = map_option (\<lambda>(r, d, e). (ConnectReturned r, the d, e)) r"

text \<open>Up to the wait (lines 47 to 74), and what follows it (lines 75 to 104).\<close>

definition connect_begin ::
  "'e dcl2_env \<Rightarrow> DeadcomL2 \<Rightarrow> 'e \<Rightarrow> (connect_state \<times> DeadcomL2 \<times> 'e) option" where
  "connect_begin env d e =
     (let (l, e) = mutexLock env (mutex_p d) e in
      if \<not> l then Some (ConnectReturned DC_FAILURE, d, e)
      else if state d = DC_CONNECTED then connect_returned (leave env DC_OK d e)
      else if state d = DC_CONNECTING then connect_returned (leave env DC_FAILURE d e)
      else do {
        let d = d\<lparr>state := DC_CONNECTING\<rparr>;
        (_, frame_data) \<leftarrow> build_frame conn_control None 0;
        let (x, e) = transmitBytes env frame_data (transmission_context_p d) e;
        if \<not> x then connect_returned (leave env DC_FAILURE (d\<lparr>state := DC_DISCONNECTED\<rparr>) e)
        else Some (ConnectWaiting, d, e)
      })"

definition connect_resume ::
  "'e dcl2_env \<Rightarrow> bool \<Rightarrow> bool option \<Rightarrow> DeadcomL2 \<Rightarrow> 'e \<Rightarrow> (connect_state \<times> DeadcomL2 \<times> 'e) option" where
  "connect_resume env waited timed_out d e =
     (if \<not> waited then connect_returned (connect_finish env False False d e)
      else do {
        timed_out \<leftarrow> timed_out;
        connect_returned (connect_finish env True timed_out d e)
      })"

lemma connect_is_its_pieces:
  "map_option (\<lambda>(r, d, e). (ConnectReturned r, the d, e)) (dcConnect env (Some d) e) =
     Option.bind (connect_begin env d e) (\<lambda>(st, d, e). case st of
         ConnectReturned r \<Rightarrow> Some (ConnectReturned r, d, e)
       | ConnectWaiting \<Rightarrow>
           let (w, timed_out, d, e) =
             condvarWait env (condvar_p d) DEADCOM_CONN_TIMEOUT_MS (Some False) d e
           in connect_resume env w timed_out d e)"
proof -
  have lv: "\<exists>u e'. leave env r d e = Some (u, Some d, e')" for r d e
    by (simp add: leave_def case_prod_beta)
  obtain l e1 where l: "mutexLock env (mutex_p d) e = (l, e1)" by (rule prod.exhaust)
  let ?d = "d\<lparr>state := DC_CONNECTING\<rparr>"
  obtain x e2 where x: "transmitBytes env (frame_bytes conn_control []) (transmission_context_p d) e1 = (x, e2)"
    by (rule prod.exhaust)
  obtain w to d3 e3 where
    w: "condvarWait env (condvar_p d) DEADCOM_CONN_TIMEOUT_MS (Some False) ?d e2 = (w, to, d3, e3)"
    by (rule prod_cases4)
  consider "\<not> l" | "l" "state d = DC_CONNECTED" | "l" "state d = DC_CONNECTING"
    | "l" "state d \<noteq> DC_CONNECTED" "state d \<noteq> DC_CONNECTING" "\<not> x"
    | "l" "state d \<noteq> DC_CONNECTED" "state d \<noteq> DC_CONNECTING" "x" by blast
  then show ?thesis
  proof cases
    case 2
    then show ?thesis using lv [of DC_OK d e1]
      by (auto simp: dcConnect_def connect_begin_def l connect_returned_def)
  next
    case 3
    then show ?thesis using lv [of DC_FAILURE d e1]
      by (auto simp: dcConnect_def connect_begin_def l connect_returned_def)
  next
    case 4
    then show ?thesis using lv [of DC_FAILURE "?d\<lparr>state := DC_DISCONNECTED\<rparr>" e2]
      by (auto simp: dcConnect_def connect_begin_def l x build_conn connect_returned_def)
  next
    case 5
    then show ?thesis
      by (cases to) (simp_all add: dcConnect_def connect_begin_def connect_resume_def l x w build_conn
          connect_returned_def)
  qed (simp add: dcConnect_def connect_begin_def l)
qed

section \<open>Sessions\<close>

text \<open>
  The first station connects, until a CONN frame has been transmitted (\<open>asked\<close>); \<open>connecting\<close>
  tells whether \<open>dcConnect\<close> waits, and \<open>answer\<close> is its last result.
\<close>

record session =
  stations :: net
  asked :: bool
  connecting :: bool
  answer :: "DeadcomL2Result option"

datatype session_action =
    CallConnect bool          \<comment> \<open>whether the transmission of the CONN frame succeeds\<close>
  | EndConnect bool        \<comment> \<open>the end of the wait, with \<open>timed_out\<close>\<close>
  | StationStep bool action

definition session_connect :: "bool \<Rightarrow> session \<Rightarrow> session option" where
  "session_connect x ses =
     (if asked ses then Some ses
      else do {
        let n = stations ses;
        (st, d, e) \<leftarrow> connect_begin (thread_env x) (link_obj (here n)) quiet;
        Some (ses\<lparr>stations := n\<lparr>here := (here n)\<lparr>link_obj := d, woken := False\<rparr>,
                               outward := outward n @ sent e\<rparr>,
                  asked := x,
                  connecting := (st = ConnectWaiting),
                  answer := (case st of ConnectReturned r \<Rightarrow> Some r | ConnectWaiting \<Rightarrow> None)\<rparr>)
      })"

definition session_connected :: "bool \<Rightarrow> session \<Rightarrow> session option" where
  "session_connected timed_out ses =
     (let n = stations ses in
      if \<not> connecting ses \<or> \<not> timed_out \<and> \<not> woken (here n) then Some ses
      else do {
        (st, d, e) \<leftarrow> connect_resume (thread_env True) True (Some timed_out) (link_obj (here n)) quiet;
        Some (ses\<lparr>stations := n\<lparr>here := (here n)\<lparr>link_obj := d\<rparr>, outward := outward n @ sent e\<rparr>,
                  connecting := False,
                  answer := (case st of ConnectReturned r \<Rightarrow> Some r | ConnectWaiting \<Rightarrow> None)\<rparr>)
      })"

fun session_step :: "session_action \<Rightarrow> session \<Rightarrow> session option" where
  "session_step (CallConnect x) ses = session_connect x ses"
| "session_step (EndConnect t) ses = session_connected t ses"
| "session_step (StationStep first a) ses =
     map_option (\<lambda>n. ses\<lparr>stations := n\<rparr>) (net_step (first, a) (stations ses))"

fun session_run :: "session_action list \<Rightarrow> session \<Rightarrow> session option" where
  "session_run [] ses = Some ses"
| "session_run (a # acts) ses = Option.bind (session_step a ses) (session_run acts)"

fun session_ok :: "session_action \<Rightarrow> bool" where
  "session_ok (StationStep first a) \<longleftrightarrow> action_ok a"
| "session_ok _ \<longleftrightarrow> True"

section \<open>A station that is not connected\<close>

text \<open>Nothing has happened on it yet: it is disconnected or waits in \<open>dcConnect\<close>.\<close>

definition at_rest :: "station \<Rightarrow> bool" where
  "at_rest s \<longleftrightarrow>
     waiting_for s = None \<and> begun s = [] \<and> acked s = 0 \<and> taken s = [] \<and> \<not> gave_up s \<and>
     link_idle (link_obj s) \<and> \<not> extractionComplete (link_obj s) \<and> send_number (link_obj s) = 0 \<and>
     next_expected_ack (link_obj s) = 0 \<and> recv_number (link_obj s) = 0"

definition untouched :: "station \<Rightarrow> bool" where
  "untouched s \<longleftrightarrow>
     at_rest s \<and> (state (link_obj s) = DC_DISCONNECTED \<or> state (link_obj s) = DC_CONNECTING)"

text \<open>Its end of either direction, when it is not about to connect.\<close>

lemma at_rest_ends:
  assumes "at_rest s" "state (link_obj s) = DC_CONNECTED \<or> state (link_obj s) = DC_DISCONNECTED"
  shows "sender_ok a s \<longleftrightarrow> a = 0" "receiver_ok ms r s \<longleftrightarrow> r = 0"
proof -
  have "seq8 0 = (0 :: byte)" by (rule seq8_0)
  then show "sender_ok a s \<longleftrightarrow> a = 0" "receiver_ok ms r s \<longleftrightarrow> r = 0"
    using assms by (auto simp: at_rest_def sender_ok_def receiver_ok_def)
qed

lemma at_rest_ways:
  assumes "at_rest s" "state (link_obj s) = DC_CONNECTED \<or> state (link_obj s) = DC_DISCONNECTED"
    and "at_rest t" "state (link_obj t) = DC_CONNECTED \<or> state (link_obj t) = DC_DISCONNECTED"
  shows "ways s s' xs ys = ways t s' xs ys"
  using at_rest_ends [OF assms(1, 2)] at_rest_ends [OF assms(3, 4)] assms(1, 3)
  by (simp add: ways_def way_def at_rest_def)

lemma at_rest_new:
  assumes "at_rest s" "state (link_obj s) = DC_CONNECTED \<or> state (link_obj s) = DC_DISCONNECTED"
    and "at_rest t" "state (link_obj t) = DC_CONNECTED \<or> state (link_obj t) = DC_DISCONNECTED"
  shows "ways s t [] []"
proof -
  have "begun s = []" "taken s = []" "begun t = []" "taken t = []"
    using assms(1, 3) by (simp_all add: at_rest_def)
  then show ?thesis
    using at_rest_ends [OF assms(1, 2)] at_rest_ends [OF assms(3, 4)]
    by (simp add: ways_def way_def flow_def)
qed

definition disconnected :: "station \<Rightarrow> station" where
  "disconnected s = s\<lparr>link_obj := (link_obj s)\<lparr>state := DC_DISCONNECTED\<rparr>\<rparr>"

lemma disconnected_rest [simp]:
  "at_rest (disconnected s) \<longleftrightarrow> at_rest s" "state (link_obj (disconnected s)) = DC_DISCONNECTED"
  by (auto simp: disconnected_def at_rest_def link_idle_def link_inv_def)

definition still :: "station \<Rightarrow> station \<Rightarrow> bool" where
  "still s s' \<longleftrightarrow> untouched s' \<and> state (link_obj s') = state (link_obj s)"

lemma still_refl: "untouched s \<Longrightarrow> still s s"
  by (simp add: still_def)

lemma untouched_send:
  assumes "untouched s"
  shows "station_send x m s = Some (s, [])"
proof -
  have "s\<lparr>link_obj := link_obj s\<rparr> = s" by simp
  then show ?thesis
    using assms by (auto simp: untouched_def at_rest_def station_send_def send_begin_def returned_def)
qed

lemma untouched_steps:
  assumes "untouched s"
  shows "station_resume t s = Some (s, [])" "station_pick_up x s = Some (s, [])"
    "station_disconnect s = Some (s, [])"
proof -
  have same: "s\<lparr>link_obj := link_obj s\<rparr> = s" "s\<lparr>link_obj := link_obj s, taken := taken s\<rparr> = s"
    by simp_all
  have "(link_obj s)\<lparr>state := DC_DISCONNECTED\<rparr> = link_obj s" if "state (link_obj s) = DC_DISCONNECTED"
    using that by (cases "link_obj s") simp
  then show "station_disconnect s = Some (s, [])"
    using assms same by (auto simp: untouched_def at_rest_def station_disconnect_def dcDisconnect_def)
  show "station_pick_up x s = Some (s, [])"
    using assms same by (auto simp: untouched_def at_rest_def station_pick_up_def dcGetReceivedMsg_def)
  show "station_resume t s = Some (s, [])"
    using assms by (simp add: untouched_def at_rest_def station_resume_def)
qed

text \<open>Messages and acknowledgments that arrive are ignored.\<close>

lemma untouched_receive:
  assumes "untouched s" "carries y w" "\<And>i m. y = DataItem i m \<Longrightarrow> sendable m"
  shows "\<exists>s'. station_receive x w s = Some (s', []) \<and> still s s' \<and> woken s' = woken s"
proof -
  let ?d = "link_obj s"
  have idle: "link_idle ?d" and st: "state ?d \<noteq> DC_CONNECTED" "state ?d \<noteq> DC_TRANSMITTING"
    using assms(1) by (auto simp: untouched_def at_rest_def)
  show ?thesis
  proof (cases y)
    case (DataItem i m)
    then obtain c where c: "w = frame_bytes c m" "frame c = YAHDLC_FRAME_DATA" using assms(2) by auto
    have len: "length m + 2 \<le> DEADCOM_PAYLOAD_MAX_LEN"
      using assms(3) [OF DataItem] by (simp add: sendable_def)
    then have "fits c m" using c(2) by (simp add: fits_def data_payload)
    moreover have "station_receive x w s = Some (s\<lparr>link_obj := after_frame c m ?d\<rparr>, [])"
      using process_data_frame [OF thread_env_mutex idle c(2) len, of x quiet] st c(1)
      by (simp add: station_receive_def)
    ultimately show ?thesis
      using assms(1) link_idle_after_frame [OF idle, of c m]
      by (auto simp: still_def untouched_def at_rest_def)
  next
    case (AckItem i)
    then obtain c where c: "w = frame_bytes c []" "frame c = YAHDLC_FRAME_ACK" using assms(2) by auto
    have "station_receive x w s = Some (s\<lparr>link_obj := after_frame c [] ?d\<rparr>, [])"
      using process_control_frame [OF thread_env_mutex idle, of c x quiet] st c
      by (simp add: station_receive_def)
    then show ?thesis
      using assms(1) link_idle_after_frame [OF idle, of c "[]"] c(2)
      by (auto simp: still_def untouched_def at_rest_def fits_control)
  qed
qed

section \<open>The two frames of the handshake\<close>

abbreviation conn_frame :: "byte list" where
  "conn_frame \<equiv> frame_bytes conn_control []"

abbreviation conn_ack_bytes :: "byte list" where
  "conn_ack_bytes \<equiv> frame_bytes conn_ack_control []"

text \<open>The station asked: connected when it could answer, otherwise as before.\<close>

lemma request_arrives:
  assumes "untouched s" "state (link_obj s) = DC_DISCONNECTED"
  shows "\<exists>s'. station_receive x conn_frame s = Some (s', if x then [conn_ack_bytes] else []) \<and>
    (if x then freshly_connected (link_obj s') \<and> s' = s\<lparr>link_obj := link_obj s'\<rparr> else still s s' \<and> woken s' = woken s)"
proof -
  let ?d = "link_obj s"
  let ?d1 = "after_frame conn_control [] ?d"
  have idle: "link_idle ?d" using assms(1) by (simp add: untouched_def at_rest_def)
  have c: "frame conn_control = YAHDLC_FRAME_CONN" by (simp add: conn_control_def)
  then have idle1: "link_idle ?d1" by (intro link_idle_after_frame [OF idle]) (simp add: fits_control)
  show ?thesis
  proof (cases x)
    case True
    have "station_receive x conn_frame s = Some (s\<lparr>link_obj := (resetLink ?d1)\<lparr>state := DC_CONNECTED\<rparr>\<rparr>, [conn_ack_bytes])"
      using process_control_frame [OF thread_env_mutex idle, of conn_control x quiet] assms(2) True c
      by (simp add: station_receive_def conn_effect_simps)
    moreover have "freshly_connected ((resetLink ?d1)\<lparr>state := DC_CONNECTED\<rparr>)"
      using idle1 by (simp add: freshly_connected_def link_idle_def link_inv_def resetLink_def)
    ultimately show ?thesis using True by simp
  next
    case False
    let ?d2 = "?d1\<lparr>yahdlc_state := reset_state DEADCOM_MAX_FRAME_LEN\<rparr>"
    have "station_receive x conn_frame s = Some (s\<lparr>link_obj := ?d2\<rparr>, [])"
      using process_control_frame [OF thread_env_mutex idle, of conn_control x quiet] assms(2) False c
      by (simp add: station_receive_def)
    moreover have "link_idle ?d2"
      using idle1 by (simp add: link_idle_def link_inv_def parser_idle_def parser_inv_reset)
    ultimately show ?thesis using False assms(1) by (simp add: still_def untouched_def at_rest_def)
  qed
qed

text \<open>The answer wakes the station that asked, if it still waits.\<close>

lemma answer_arrives:
  assumes "untouched s"
  shows "\<exists>s'. station_receive x conn_ack_bytes s = Some (s', []) \<and> still s s'"
proof -
  let ?d = "link_obj s"
  let ?d1 = "after_frame conn_ack_control [] ?d"
  have idle: "link_idle ?d" using assms(1) by (simp add: untouched_def at_rest_def)
  have c: "frame conn_ack_control = YAHDLC_FRAME_CONN_ACK" by (simp add: conn_ack_control_def)
  then have idle1: "link_idle ?d1" by (intro link_idle_after_frame [OF idle]) (simp add: fits_control)
  then have idle2: "link_idle (?d1\<lparr>last_response := DC_RESP_OK\<rparr>)" by (simp add: link_idle_def link_inv_def)
  have "station_receive x conn_ack_bytes s =
      Some (if state ?d = DC_CONNECTING
        then s\<lparr>link_obj := ?d1\<lparr>last_response := DC_RESP_OK\<rparr>, woken := True\<rparr> else s\<lparr>link_obj := ?d1\<rparr>, [])"
    using process_control_frame [OF thread_env_mutex idle, of conn_ack_control x quiet] c
    by (simp add: station_receive_def notify_def)
  then show ?thesis using assms idle1 idle2 by (auto simp: still_def untouched_def at_rest_def)
qed

section \<open>The invariant of a session\<close>

text \<open>Every step of a station that is not connected and is not asked to be.\<close>

lemma untouched_step:
  assumes "untouched s"
    and "\<And>x w ws. inbox = w # ws \<Longrightarrow> act = (if x then NetReceive else NetReceiveFails) \<Longrightarrow>
      \<exists>t. station_receive x w s = Some (t, []) \<and> still s t \<and> (woken t \<longrightarrow> woken s \<or> w = conn_ack_bytes)"
  shows "\<exists>t inbox'. station_step act s inbox = Some (t, inbox', []) \<and> still s t \<and>
    (inbox' = tl inbox \<and> inbox \<noteq> [] \<and> (woken t \<longrightarrow> woken s \<or> hd inbox = conn_ack_bytes) \<or>
     woken t = woken s \<and> (\<exists>i. inbox' = take i inbox @ drop (Suc i) inbox))"
proof -
  have all: "\<exists>i. inbox = take i inbox @ drop (Suc i) inbox"
    by (rule exI [of _ "length inbox"]) simp
  note now = untouched_send [OF assms(1)] untouched_steps [OF assms(1)] still_refl [OF assms(1)]
  show ?thesis
  proof (cases act)
    case NetReceive
    then show ?thesis
    proof (cases inbox)
      case (Cons w ws)
      then obtain t where "station_receive True w s = Some (t, [])" "still s t"
          "woken t \<longrightarrow> woken s \<or> w = conn_ack_bytes"
        using assms(2) [of w ws True] NetReceive by auto
      then show ?thesis using NetReceive Cons by auto
    qed (use now in simp)
  next
    case NetReceiveFails
    then show ?thesis
    proof (cases inbox)
      case (Cons w ws)
      then obtain t where "station_receive False w s = Some (t, [])" "still s t"
          "woken t \<longrightarrow> woken s \<or> w = conn_ack_bytes"
        using assms(2) [of w ws False] NetReceiveFails by auto
      then show ?thesis using NetReceiveFails Cons by auto
    qed (use now in simp)
  next
    case (NetLose i)
    then show ?thesis using now by auto
  qed (use now all in auto)
qed

text \<open>The station that may connect, before the end of its call.\<close>

definition undecided :: "session \<Rightarrow> bool" where
  "undecided ses \<longleftrightarrow>
     untouched (here (stations ses)) \<and>
     state (link_obj (here (stations ses))) =
       (if connecting ses then DC_CONNECTING else DC_DISCONNECTED) \<and>
     answer ses \<noteq> Some DC_OK"

text \<open>The other one has not been asked yet: at most the CONN frame is on the line.\<close>

definition unanswered :: "session \<Rightarrow> bool" where
  "unanswered ses \<longleftrightarrow>
     undecided ses \<and> untouched (there (stations ses)) \<and>
     state (link_obj (there (stations ses))) = DC_DISCONNECTED \<and>
     inward (stations ses) = [] \<and>
     (outward (stations ses) = [] \<or> asked ses \<and> outward (stations ses) = [conn_frame]) \<and>
     (connecting ses \<longrightarrow> asked ses \<and> \<not> woken (here (stations ses)))"

text \<open>
  It has answered, and may be sending already; the CONN ACK frame is the first on the line,
  if it is still there, and has not woken the other one.
\<close>

definition answered_with :: "session \<Rightarrow> byte list list \<Rightarrow> byte list list \<Rightarrow> item list \<Rightarrow> bool" where
  "answered_with ses pre ws ys \<longleftrightarrow>
     undecided ses \<and> asked ses \<and> outward (stations ses) = [] \<and>
     inward (stations ses) = pre @ ws \<and> list_all2 carries ys ws \<and>
     ways (disconnected (here (stations ses))) (there (stations ses)) [] ys \<and>
     (pre = [] \<or> pre = [conn_ack_bytes] \<and> \<not> (connecting ses \<and> woken (here (stations ses))))"

definition answered :: "session \<Rightarrow> bool" where
  "answered ses \<longleftrightarrow> (\<exists>pre ws ys. answered_with ses pre ws ys)"

definition settled :: "session \<Rightarrow> bool" where
  "settled ses \<longleftrightarrow>
     asked ses \<and> \<not> connecting ses \<and> answer ses = Some DC_OK \<and> net_inv (stations ses)"

definition session_inv :: "session \<Rightarrow> bool" where
  "session_inv ses \<longleftrightarrow> unanswered ses \<or> answered ses \<or> settled ses"

text \<open>The call begins.\<close>

lemma connect_keeps:
  assumes "session_inv ses"
  shows "\<exists>ses'. session_connect x ses = Some ses' \<and> session_inv ses'"
proof (cases "asked ses")
  case False
  let ?n = "stations ses"
  let ?d = "link_obj (here ?n)"
  have un: "unanswered ses" using assms False
    by (auto simp: session_inv_def answered_def answered_with_def settled_def)
  then have *: "untouched (here ?n)" "state ?d = DC_DISCONNECTED" "inward ?n = []" "outward ?n = []"
      "untouched (there ?n)" "state (link_obj (there ?n)) = DC_DISCONNECTED"
    using False by (auto simp: unanswered_def undecided_def split: if_splits)
  have "link_idle ?d" using *(1) by (simp add: untouched_def at_rest_def)
  then have idle: "link_idle (?d\<lparr>state := st\<rparr>)" for st by (simp add: link_idle_def link_inv_def)
  let ?ses = "ses\<lparr>stations := ?n\<lparr>here := (here ?n)\<lparr>link_obj := ?d\<lparr>state :=
      if x then DC_CONNECTING else DC_DISCONNECTED\<rparr>, woken := False\<rparr>,
      outward := if x then [conn_frame] else []\<rparr>, asked := x, connecting := x,
      answer := if x then None else Some DC_FAILURE\<rparr>"
  have "session_connect x ses = Some ?ses"
    using * False by (cases x) (simp_all add: session_connect_def connect_begin_def connect_returned_def
        build_conn Let_def)
  moreover have "unanswered ?ses"
    using * idle by (simp add: unanswered_def undecided_def untouched_def at_rest_def)
  ultimately show ?thesis by (auto simp: session_inv_def)
qed (use assms in \<open>simp add: session_connect_def\<close>)

text \<open>The call ends, answered or not.\<close>

lemma disconnected_changed:
  "disconnected (s\<lparr>link_obj := (link_obj s)\<lparr>state := st\<rparr>\<rparr>) = disconnected s"
  by (simp add: disconnected_def)

lemma still_disconnected:
  assumes "still s t" "untouched s"
  shows "ways (disconnected t) s' xs ys = ways (disconnected s) s' xs ys"
  using assms by (intro at_rest_ways) (simp_all add: still_def untouched_def)

lemma timeout_keeps:
  assumes "session_inv ses" "connecting ses"
  shows "\<exists>ses'. session_connected True ses = Some ses' \<and> session_inv ses'"
proof -
  let ?n = "stations ses"
  let ?d = "link_obj (here ?n)"
  have un: "unanswered ses \<or> answered ses" using assms by (auto simp: session_inv_def settled_def)
  then have *: "untouched (here ?n)"
    by (auto simp: unanswered_def answered_def answered_with_def undecided_def)
  have "link_idle ?d" using * by (simp add: untouched_def at_rest_def)
  then have idle: "link_idle (?d\<lparr>state := st\<rparr>)" for st by (simp add: link_idle_def link_inv_def)
  let ?ses = "ses\<lparr>stations := ?n\<lparr>here := (here ?n)\<lparr>link_obj := ?d\<lparr>state := DC_DISCONNECTED\<rparr>\<rparr>\<rparr>,
      connecting := False, answer := Some DC_NOT_CONNECTED\<rparr>"
  have "session_connected True ses = Some ?ses"
    using assms(2) by (simp add: session_connected_def connect_resume_def connect_finish_def
        connect_returned_def Let_def)
  moreover have "unanswered ?ses" if "unanswered ses"
    using that * idle by (auto simp: unanswered_def undecided_def untouched_def at_rest_def)
  moreover have "answered ?ses" if a: "answered ses"
  proof -
    obtain pre ws ys where "answered_with ses pre ws ys" using a by (auto simp: answered_def)
    then have "answered_with ?ses pre ws ys"
      using * idle
      by (auto simp: answered_with_def undecided_def untouched_def at_rest_def disconnected_changed)
    then show ?thesis by (auto simp: answered_def)
  qed
  ultimately show ?thesis using un by (auto simp: session_inv_def)
qed

lemma answer_keeps:
  assumes "session_inv ses" "connecting ses" "woken (here (stations ses))"
  shows "\<exists>ses'. session_connected False ses = Some ses' \<and> session_inv ses'"
proof -
  let ?n = "stations ses"
  let ?d = "link_obj (here ?n)"
  have "answered ses" using assms by (auto simp: session_inv_def settled_def unanswered_def)
  then obtain ws ys where *: "untouched (here ?n)" "asked ses" "outward ?n = []" "inward ?n = ws"
      "list_all2 carries ys ws" "ways (disconnected (here ?n)) (there ?n) [] ys"
    using assms(2, 3) by (auto simp: answered_def answered_with_def undecided_def)
  let ?s = "(here ?n)\<lparr>link_obj := (resetLink ?d)\<lparr>state := DC_CONNECTED\<rparr>\<rparr>"
  let ?ses = "ses\<lparr>stations := ?n\<lparr>here := ?s\<rparr>, connecting := False, answer := Some DC_OK\<rparr>"
  have "session_connected False ses = Some ?ses"
    using assms(2, 3) by (simp add: session_connected_def connect_resume_def connect_finish_def
        connect_returned_def Let_def)
  moreover have "at_rest ?s"
    using *(1) by (simp add: untouched_def at_rest_def link_idle_def link_inv_def resetLink_def)
  then have "ways ?s (there ?n) [] ys"
    using *(1, 6) at_rest_ways [of ?s "disconnected (here ?n)"] by (simp add: untouched_def)
  then have "net_inv (?n\<lparr>here := ?s\<rparr>)"
    unfolding net_inv_def using * by (intro exI [of _ "[]"] exI [of _ ys]) simp
  then have "settled ?ses"
    using * by (simp add: settled_def)
  ultimately show ?thesis by (auto simp: session_inv_def)
qed

lemma connected_keeps:
  assumes "session_inv ses"
  shows "\<exists>ses'. session_connected x ses = Some ses' \<and> session_inv ses'"
proof (cases "\<not> connecting ses \<or> \<not> x \<and> \<not> woken (here (stations ses))")
  case True
  then show ?thesis using assms by (auto simp: session_connected_def Let_def)
next
  case False
  then show ?thesis using timeout_keeps [OF assms] answer_keeps [OF assms] by (cases x) auto
qed

text \<open>The steps of the stations: in each phase, of the one and of the other.\<close>

abbreviation with_net :: "session \<Rightarrow> net \<Rightarrow> session" where
  "with_net ses n \<equiv> ses\<lparr>stations := n\<rparr>"

lemma still_unanswered:
  assumes "unanswered ses" "still (here (stations ses)) s" "still (there (stations ses)) s'"
    "woken s = woken (here (stations ses))" "out = outward (stations ses) \<or> out = []"
  shows "unanswered (with_net ses (stations ses\<lparr>here := s, there := s', outward := out\<rparr>))"
  using assms by (auto simp: unanswered_def undecided_def still_def)

lemma unanswered_here:
  assumes "unanswered ses"
  shows "\<exists>n. here_step a (stations ses) = Some n \<and> session_inv (with_net ses n)"
proof -
  let ?n = "stations ses"
  have *: "untouched (here ?n)" "untouched (there ?n)" "inward ?n = []"
    using assms by (simp_all add: unanswered_def undecided_def)
  obtain t where t: "station_step a (here ?n) [] = Some (t, [], [])" "still (here ?n) t"
      "woken t = woken (here ?n)"
    using untouched_step [OF *(1), of "[]" a] by auto
  have "here_step a ?n = Some (?n\<lparr>here := t\<rparr>)"
    using t(1) *(3) by (cases ?n) (simp add: here_step_def)
  moreover have "unanswered (with_net ses (?n\<lparr>here := t\<rparr>))"
    using still_unanswered [OF assms t(2) still_refl [OF *(2)] t(3), of "outward ?n"] by simp
  ultimately show ?thesis by (auto simp: session_inv_def)
qed

text \<open>The CONN frame arrives, and the answer is transmitted.\<close>

lemma asked_station:
  assumes "unanswered ses" "outward (stations ses) = [conn_frame]"
  shows "\<exists>n. net_step (False, NetReceive) (stations ses) = Some n \<and> session_inv (with_net ses n)"
proof -
  let ?n = "stations ses"
  have *: "untouched (there ?n)" "state (link_obj (there ?n)) = DC_DISCONNECTED" "inward ?n = []"
      "undecided ses" "asked ses" "\<not> (connecting ses \<and> woken (here ?n))"
    using assms by (auto simp: unanswered_def)
  obtain t where t: "station_receive True conn_frame (there ?n) = Some (t, [conn_ack_bytes])"
      "freshly_connected (link_obj t)" "t = (there ?n)\<lparr>link_obj := link_obj t\<rparr>"
    using request_arrives [OF *(1, 2), of True] by auto
  let ?n' = "?n\<lparr>there := t, outward := [], inward := [conn_ack_bytes]\<rparr>"
  have "net_step (False, NetReceive) ?n = Some ?n'"
    using assms(2) *(3) t(1) by (simp add: here_step_def swap_net_def)
  moreover have "at_rest t" "state (link_obj t) = DC_CONNECTED"
    using *(1) t(2, 3) unfolding untouched_def at_rest_def freshly_connected_def by (metis station.select_convs station.surjective station.update_convs)+
  then have "ways (disconnected (here ?n)) t [] []"
    using *(4) by (intro at_rest_new) (simp_all add: undecided_def untouched_def)
  then have "answered_with (with_net ses ?n') [conn_ack_bytes] [] []"
    using * by (simp add: answered_with_def undecided_def)
  ultimately show ?thesis by (auto simp: session_inv_def answered_def)
qed

lemma unanswered_there:
  assumes "unanswered ses"
  shows "\<exists>n. net_step (False, a) (stations ses) = Some n \<and> session_inv (with_net ses n)"
proof (cases "a = NetReceive \<and> outward (stations ses) = [conn_frame]")
  case True
  then show ?thesis using asked_station [OF assms] by simp
next
  case False
  let ?n = "stations ses"
  have *: "untouched (here ?n)" "untouched (there ?n)" "state (link_obj (there ?n)) = DC_DISCONNECTED"
      "inward ?n = []" and out: "outward ?n = [] \<or> outward ?n = [conn_frame]"
    using assms by (auto simp: unanswered_def undecided_def)
  have "\<exists>t. station_receive x w (there ?n) = Some (t, []) \<and> still (there ?n) t \<and>
      (woken t \<longrightarrow> woken (there ?n) \<or> w = conn_ack_bytes)"
    if i: "outward ?n = w # ws" "a = (if x then NetReceive else NetReceiveFails)" for x w ws
  proof -
    have w: "w = conn_frame" "\<not> x" using False out i by auto
    obtain t where "station_receive False conn_frame (there ?n) = Some (t, [])" "still (there ?n) t"
        "woken t = woken (there ?n)"
      using request_arrives [OF *(2, 3), of False] by auto
    then show ?thesis using w by auto
  qed
  then obtain t inbox where t: "station_step a (there ?n) (outward ?n) = Some (t, inbox, [])"
      "still (there ?n) t" "inbox = tl (outward ?n) \<or> (\<exists>i. inbox = take i (outward ?n) @ drop (Suc i) (outward ?n))"
    using untouched_step [OF *(2), of "outward ?n" a] by blast
  then have "inbox = outward ?n \<or> inbox = []"
    using out by (auto simp: take_Cons drop_Cons split: nat.splits)
  then have "unanswered (with_net ses (?n\<lparr>here := here ?n, there := t, outward := inbox\<rparr>))"
    using still_unanswered [OF assms still_refl [OF *(1)] t(2)] by simp
  moreover have "net_step (False, a) ?n = Some (?n\<lparr>here := here ?n, there := t, outward := inbox\<rparr>)"
    using t(1) *(4) by (simp add: here_step_def swap_net_def)
  ultimately show ?thesis by (auto simp: session_inv_def)
qed

text \<open>What arrives at the station that has been answered but has not noticed.\<close>

lemma answered_receive:
  assumes "answered_with ses pre ws ys" "inward (stations ses) = w # us"
  shows "\<exists>t. station_receive x w (here (stations ses)) = Some (t, []) \<and> still (here (stations ses)) t \<and>
    (woken t \<longrightarrow> woken (here (stations ses)) \<or> w = conn_ack_bytes)"
proof -
  let ?s = "here (stations ses)"
  have *: "untouched ?s" "ways (disconnected ?s) (there (stations ses)) [] ys" "list_all2 carries ys ws"
      "w # us = pre @ ws" "pre = [] \<or> pre = [conn_ack_bytes]"
    using assms by (auto simp: answered_with_def undecided_def)
  show ?thesis
  proof (cases "pre = []")
    case True
    then obtain y zs where y: "carries y w" "ys = y # zs"
      using *(3, 4) by (auto simp: list_all2_Cons2)
    have "sendable m" if "y = DataItem i m" for i m
      using *(2) y(2) that flow_data(2) by (auto elim!: waysE)
    then obtain t where "station_receive x w ?s = Some (t, [])" "still ?s t" "woken t = woken ?s"
      using untouched_receive [OF *(1) y(1), of x] by blast
    then show ?thesis by simp
  next
    case False
    then have "w = conn_ack_bytes" using *(4, 5) by simp
    then show ?thesis using answer_arrives [OF *(1), of x] by blast
  qed
qed

text \<open>What is left on the line when a frame is taken from it.\<close>

lemma list_all2_drops:
  "list_all2 P xs ys \<Longrightarrow> list_all2 P (take i xs @ drop (Suc i) xs) (take i ys @ drop (Suc i) ys)"
  by (intro list_all2_appendI list_all2_takeI list_all2_dropI)

lemma ways_drop: "ways s s' xs ys \<Longrightarrow> ways s s' xs (take i ys @ drop (Suc i) ys)"
proof (cases "i < length ys")
  case True
  then show "ways s s' xs ys \<Longrightarrow> ?thesis" using ways_lose by (metis id_take_nth_drop)
qed simp

lemma answered_here:
  assumes "answered ses"
  shows "\<exists>n. here_step a (stations ses) = Some n \<and> session_inv (with_net ses n)"
proof -
  let ?n = "stations ses"
  let ?s = "here ?n"
  obtain pre ws ys where aw: "answered_with ses pre ws ys" using assms by (auto simp: answered_def)
  then have *: "untouched ?s" "outward ?n = []" "inward ?n = pre @ ws" "list_all2 carries ys ws"
      "ways (disconnected ?s) (there ?n) [] ys"
      "pre = [] \<or> pre = [conn_ack_bytes] \<and> \<not> (connecting ses \<and> woken ?s)"
    by (auto simp: answered_with_def undecided_def)
  obtain t inbox where t: "station_step a ?s (inward ?n) = Some (t, inbox, [])" "still ?s t"
      "inbox = tl (inward ?n) \<and> inward ?n \<noteq> [] \<and> (woken t \<longrightarrow> woken ?s \<or> hd (inward ?n) = conn_ack_bytes) \<or>
       woken t = woken ?s \<and> (\<exists>i. inbox = take i (inward ?n) @ drop (Suc i) (inward ?n))"
    using untouched_step [OF *(1), of "inward ?n" a] answered_receive [OF aw] by blast
  have same: "ways (disconnected t) (there ?n) [] zs = ways (disconnected ?s) (there ?n) [] zs" for zs
    by (rule still_disconnected [OF t(2) *(1)])
  have left: "answered (with_net ses (?n\<lparr>here := t, inward := inbox\<rparr>))"
    if "inbox = pre' @ take i ws @ drop (Suc i) ws"
      "pre' = [] \<or> pre' = [conn_ack_bytes] \<and> \<not> (connecting ses \<and> woken t)" for pre' i
  proof -
    have "answered_with (with_net ses (?n\<lparr>here := t, inward := inbox\<rparr>)) pre'
        (take i ws @ drop (Suc i) ws) (take i ys @ drop (Suc i) ys)"
      using aw t(2) that list_all2_drops [OF *(4)] ways_drop [OF *(5)]
      by (auto simp: answered_with_def undecided_def same still_def)
    then show ?thesis by (auto simp: answered_def)
  qed
  have all: "take (length ws) ws @ drop (Suc (length ws)) ws = ws" by simp
  have "answered (with_net ses (?n\<lparr>here := t, inward := inbox\<rparr>))"
    using t(3)
  proof (elim disjE conjE exE)
    assume i: "inbox = tl (inward ?n)" "inward ?n \<noteq> []"
    show ?thesis
    proof (cases "pre = []")
      case True
      then show ?thesis using left [of "[]" 0] i *(3) by (simp add: drop_Suc)
    next
      case False
      then show ?thesis using left [of "[]" "length ws"] i *(3, 6) by auto
    qed
  next
    fix i
    assume i: "woken t = woken ?s" "inbox = take i (inward ?n) @ drop (Suc i) (inward ?n)"
    show ?thesis
    proof (cases "pre = []")
      case True
      then show ?thesis using left [of "[]" i] i *(3) by simp
    next
      case False
      then show ?thesis
        using left [of "[]" "length ws"] left [of pre "i - 1"] i *(3, 6) by (cases i) auto
    qed
  qed
  moreover have "here_step a ?n = Some (?n\<lparr>here := t, inward := inbox\<rparr>)"
    using t(1) by (cases ?n) (simp add: here_step_def)
  ultimately show ?thesis by (auto simp: session_inv_def)
qed

lemma answered_there:
  assumes "answered ses" "action_ok a"
  shows "\<exists>n. net_step (False, a) (stations ses) = Some n \<and> session_inv (with_net ses n)"
proof -
  let ?n = "stations ses"
  obtain pre ws ys where aw: "answered_with ses pre ws ys" using assms(1) by (auto simp: answered_def)
  then have *: "outward ?n = []" "inward ?n = pre @ ws" "list_all2 carries ys ws"
      "ways (there ?n) (disconnected (here ?n)) ys []"
    by (auto simp: answered_with_def ways_def)
  obtain t inbox out zs us where t: "station_step a (there ?n) [] = Some (t, inbox, out)"
      "list_all2 carries us inbox" "list_all2 carries zs out"
      "ways t (disconnected (here ?n)) (ys @ zs) us"
    using station_step_keeps [OF *(4) _ assms(2), of "[]"] by (auto simp: keeps_ways_def)
  have inbox: "inbox = []"
    using t(1) by (cases a) auto
  let ?n' = "?n\<lparr>there := t, outward := [], inward := pre @ ws @ out\<rparr>"
  have "answered_with (with_net ses ?n') pre (ws @ out) (ys @ zs)"
    using aw t(2-4) inbox list_all2_appendI [OF *(3) t(3)]
    by (auto simp: answered_with_def undecided_def ways_def)
  then have "session_inv (with_net ses ?n')" by (auto simp: session_inv_def answered_def)
  moreover have "net_step (False, a) ?n = Some ?n'"
    using t(1) inbox *(1, 2) by (simp add: here_step_def swap_net_def)
  ultimately show ?thesis by blast
qed

lemma session_step_keeps:
  assumes "session_inv ses" "session_ok act"
  shows "\<exists>ses'. session_step act ses = Some ses' \<and> session_inv ses'"
proof (cases act)
  case (StationStep first a)
  have "\<exists>n. net_step (first, a) (stations ses) = Some n \<and> session_inv (with_net ses n)"
  proof (cases "settled ses")
    case True
    then show ?thesis
      using net_step_keeps [of "stations ses" "(first, a)"] assms(2) StationStep
      by (auto simp: settled_def session_inv_def)
  next
    case False
    then show ?thesis
      using assms StationStep unanswered_here [of ses a] unanswered_there [of ses a] answered_here [of ses a]
        answered_there [of ses a]
      by (cases first) (auto simp: session_inv_def simp del: net_step.simps(2))
  qed
  then show ?thesis using StationStep by (auto simp del: net_step.simps)
qed (use assms connect_keeps connected_keeps in simp_all)

lemma session_run_keeps:
  "session_inv ses \<Longrightarrow> list_all session_ok acts \<Longrightarrow> \<exists>ses'. session_run acts ses = Some ses' \<and> session_inv ses'"
proof (induction acts arbitrary: ses)
  case (Cons act acts)
  then obtain ses1 where "session_step act ses = Some ses1" "session_inv ses1"
    using session_step_keeps [of ses act] by auto
  then show ?case using Cons.IH [of ses1] Cons.prems(2) by simp
qed simp

text \<open>In every phase both directions deliver exactly once.\<close>

lemma session_inv_exactly_once:
  assumes "session_inv ses"
  shows "exactly_once (here (stations ses)) (there (stations ses)) \<and>
    exactly_once (there (stations ses)) (here (stations ses)) \<and>
    (begun (here (stations ses)) \<noteq> [] \<or> taken (here (stations ses)) \<noteq> [] \<longrightarrow> answer ses = Some DC_OK)"
  using assms unfolding session_inv_def
proof (elim disjE)
  assume "unanswered ses"
  then show ?thesis
    by (auto simp: unanswered_def undecided_def untouched_def at_rest_def exactly_once_def)
next
  assume "answered ses"
  then obtain ys where *: "untouched (here (stations ses))"
      "ways (disconnected (here (stations ses))) (there (stations ses)) [] ys"
    by (auto simp: answered_def answered_with_def undecided_def)
  moreover have "exactly_once (disconnected s) s' = exactly_once s s'"
    "exactly_once s' (disconnected s) = exactly_once s' s" for s s'
    by (simp_all add: exactly_once_def disconnected_def)
  ultimately show ?thesis
    using ways_exactly_once [of "disconnected (here (stations ses))" "there (stations ses)"]
      ways_exactly_once [of "there (stations ses)" "disconnected (here (stations ses))"]
    by (auto simp: ways_def untouched_def at_rest_def)
next
  assume "settled ses"
  then show ?thesis using net_inv_exactly_once by (auto simp: settled_def)
qed

section \<open>From initialisation on\<close>

definition new_session :: "DeadcomL2 \<Rightarrow> DeadcomL2 \<Rightarrow> session" where
  "new_session d d' = \<lparr>stations = new_net d d', asked = False, connecting = False, answer = None\<rparr>"

lemma initialised_station:
  assumes "dcInit env (Some d0) m c t x ctx e = (DC_OK, Some d, e')"
  shows "untouched (new_station d)" "state d = DC_DISCONNECTED"
proof -
  have d: "d = (resetLink dc_zero)\<lparr>transmitBytes_p := x, mutex_p := m, condvar_p := c, t_p := t,
      transmission_context_p := ctx,
      yahdlc_state := yahdlc_reset_state (yahdlc_state (resetLink dc_zero)) DEADCOM_MAX_FRAME_LEN\<rparr>"
    using assms by (auto simp: dcInit_def Let_def case_prod_beta resetLink_def split: if_splits)
  then show st: "state d = DC_DISCONNECTED" by (simp add: resetLink_def)
  have "link_idle d"
    using d dcInit_inv [OF assms] by (simp add: link_idle_def parser_idle_def)
  then show "untouched (new_station d)"
    using st d by (simp add: untouched_def at_rest_def new_station_def resetLink_def dc_zero_def)
qed

definition initialised_link :: DeadcomL2 where
  "initialised_link = the (fst (snd (dcInit (thread_env True) (Some dc_zero) (Some 1) (Some 2) (Some 3)
     (Some 4) None quiet)))"

lemma initialised_link:
  "dcInit (thread_env True) (Some dc_zero) (Some 1) (Some 2) (Some 3) (Some 4) None quiet =
     (DC_OK, Some initialised_link, quiet)"
  by (simp add: initialised_link_def dcInit_def thread_env_def)

lemma new_session_inv:
  assumes "untouched (new_station d)" "state d = DC_DISCONNECTED"
    and "untouched (new_station d')" "state d' = DC_DISCONNECTED"
  shows "session_inv (new_session d d')"
proof -
  have "unanswered (new_session d d')"
    using assms by (simp add: unanswered_def undecided_def new_session_def new_net_def new_station_def)
  then show ?thesis by (simp add: session_inv_def)
qed

text \<open>
  C2. Two link objects from \<open>dcInit\<close> on.  One of them connects, and before, during and after
  \<open>dcConnect\<close> both stations take their steps in any order: the CONN frame cannot be transmitted
  (then the call may be repeated), it or the answer is lost or late, the wait times out with
  the answer on its way, the side that was asked is connected already and sends while the
  other still waits, picks up or disconnects, and messages and acknowledgments reach a station
  that is not connected.  The conditions are those of \<open>async_exactly_once\<close>: messages of other
  lengths than 248 and 249 octets (\<open>long_message_overflows\<close>), retransmissions that can be
  transmitted (\<open>failed_retransmission_reuses_number\<close>), and one handshake only, as no station
  calls \<open>dcConnect\<close> once a CONN frame has been transmitted (\<open>late_conn_ack_loses_message\<close>).
  Then no step is undefined behaviour, in both directions messages are received in order and
  without duplicates, every message whose \<open>dcSendMessage\<close> returned \<open>DC_OK\<close> has been received,
  and the connecting side has sent or received something only if its \<open>dcConnect\<close> returned
  \<open>DC_OK\<close>.
\<close>

theorem session_exactly_once:
  assumes "dcInit env (Some d0) m c t x ctx e = (DC_OK, Some d, e1)"
    and "dcInit env' (Some d0') m' c' t' x' ctx' e' = (DC_OK, Some d', e1')"
    and "list_all session_ok acts"
  shows "\<exists>ses. session_run acts (new_session d d') = Some ses \<and>
    exactly_once (here (stations ses)) (there (stations ses)) \<and>
    exactly_once (there (stations ses)) (here (stations ses)) \<and>
    (begun (here (stations ses)) \<noteq> [] \<or> taken (here (stations ses)) \<noteq> [] \<longrightarrow> answer ses = Some DC_OK)"
  using session_run_keeps [OF new_session_inv [OF initialised_station [OF assms(1)]
      initialised_station [OF assms(2)]] assms(3)] session_inv_exactly_once by blast

text \<open>
  The station that was asked sends at once; its message arrives while \<open>dcConnect\<close> still waits,
  is ignored, and is received when it is retransmitted.
\<close>

theorem session_exactly_once_witness:
  "\<exists>ses. session_run [StationStep False (NetSend [9]), CallConnect False, CallConnect True,
       StationStep False NetReceive, StationStep False (NetSend [5]), StationStep True NetReceive,
       StationStep True NetReceive, EndConnect False, StationStep False (NetResume True),
       StationStep True NetReceive, StationStep True NetPickUp]
     (new_session initialised_link initialised_link) = Some ses \<and>
   answer ses = Some DC_OK \<and> taken (here (stations ses)) = [[5]] \<and>
   exactly_once (there (stations ses)) (here (stations ses))"
proof -
  let ?acts = "[StationStep False (NetSend [9]), CallConnect False, CallConnect True,
       StationStep False NetReceive, StationStep False (NetSend [5]), StationStep True NetReceive,
       StationStep True NetReceive, EndConnect False, StationStep False (NetResume True),
       StationStep True NetReceive, StationStep True NetPickUp]"
  have "map_option (\<lambda>ses. answer ses = Some DC_OK \<and> taken (here (stations ses)) = [[5]])
      (session_run ?acts (new_session initialised_link initialised_link)) = Some True"
    by code_simp
  then obtain ses where
    s: "session_run ?acts (new_session initialised_link initialised_link) = Some ses"
      "answer ses = Some DC_OK" "taken (here (stations ses)) = [[5]]"
    by (auto simp del: session_run.simps)
  have "list_all session_ok ?acts" by simp
  then show ?thesis
    using session_exactly_once [OF initialised_link initialised_link, of ?acts] s by auto
qed

end
