(* ===== verification/Dcl2_Mutex.thy ===== *)
theory Dcl2_Mutex
  imports Dcl2_Refine
begin

text \<open>
  The locking discipline of \<open>dcl2/lib/src/dcl2.c\<close>: every operation that acquires the mutex
  gives it up exactly once, as its last callback, transmits, waits and signals only while it
  holds the mutex, and does not report success when giving it up failed.
\<close>

section \<open>Callbacks under the mutex\<close>

text \<open>A property of the environment that the callbacks between lock and unlock keep.\<close>

locale callback_invariant =
  fixes env :: "'e dcl2_env" and J :: "'e \<Rightarrow> bool"
  assumes transmit_keeps: "J e \<Longrightarrow> transmitBytes env b p e = (x, e') \<Longrightarrow> J e'"
    and wait_keeps: "J e \<Longrightarrow> condvarWait env p ms t d e = (w, t', d', e') \<Longrightarrow> J e'"
    and signal_keeps: "J e \<Longrightarrow> condvarSignal env p e = (y, e') \<Longrightarrow> J e'"

text \<open>The end of an operation that holds the mutex, and an operation as a whole.\<close>

definition closed_by :: "'e dcl2_env \<Rightarrow> ('e \<Rightarrow> bool) \<Rightarrow> DeadcomL2Result \<Rightarrow> 'e \<Rightarrow> bool" where
  "closed_by env J r e' \<longleftrightarrow>
     (\<exists>p e1 u. J e1 \<and> mutexUnlock env p e1 = (u, e') \<and> (r \<noteq> DC_FAILURE \<longrightarrow> u))"

definition locked_section ::
  "'e dcl2_env \<Rightarrow> ('e \<Rightarrow> bool) \<Rightarrow> 'e \<Rightarrow> DeadcomL2Result \<Rightarrow> 'e \<Rightarrow> bool" where
  "locked_section env J e r e' \<longleftrightarrow>
     r = DC_FAILURE \<and> e' = e \<or>
     (\<exists>p l e0. mutexLock env p e = (l, e0) \<and>
        (if l then J e0 \<longrightarrow> closed_by env J r e' else r = DC_FAILURE \<and> e' = e0))"

lemma leave_closed: "J e \<Longrightarrow> leave env r d e = Some (r', d', e') \<Longrightarrow> closed_by env J r' e'"
  by (auto simp: leave_def closed_by_def Let_def split: prod.splits if_splits)

lemma unlock_closed:
  "J e \<Longrightarrow> mutexUnlock env p e = (u, e') \<Longrightarrow> (r \<noteq> DC_FAILURE \<Longrightarrow> u) \<Longrightarrow> closed_by env J r e'"
  by (auto simp: closed_by_def)

lemma locked_sectionI:
  assumes "mutexLock env p e = (l, e0)" "\<not> l \<Longrightarrow> r = DC_FAILURE \<and> e' = e0"
    "l \<Longrightarrow> J e0 \<Longrightarrow> closed_by env J r e'"
  shows "locked_section env J e r e'"
proof -
  have "if l then J e0 \<longrightarrow> closed_by env J r e' else r = DC_FAILURE \<and> e' = e0"
    using assms(2,3) by simp
  then show ?thesis unfolding locked_section_def using assms(1) by blast
qed

lemma unlock_closed_snd:
  "J e \<Longrightarrow> (r \<noteq> DC_FAILURE \<Longrightarrow> fst (mutexUnlock env p e)) \<Longrightarrow>
     closed_by env J r (snd (mutexUnlock env p e))"
  by (rule unlock_closed [where u = "fst (mutexUnlock env p e)"]) auto

context callback_invariant
begin

lemma callback_keeps:
  assumes "J e"
  shows "J (snd (transmitBytes env b p e))" and "J (snd (condvarSignal env p e))"
  using transmit_keeps [OF assms surjective_pairing] signal_keeps [OF assms surjective_pairing]
  by simp_all

lemma connect_finish_closed:
  "J e \<Longrightarrow> connect_finish env w t d e = Some (r, d', e') \<Longrightarrow> closed_by env J r e'"
  by (auto simp: connect_finish_def Let_def intro: leave_closed unlock_closed
      split: if_splits prod.splits)

lemma connect_section:
  assumes "dcConnect env (Some d) e = Some (r, d', e')"
  shows "locked_section env J e r e'"
proof -
  obtain l e0 where l: "mutexLock env (mutex_p d) e = (l, e0)" by fastforce
  show ?thesis
  proof (rule locked_sectionI [OF l])
    assume "\<not> l"
    then show "r = DC_FAILURE \<and> e' = e0" using assms l by (simp add: dcConnect_def)
  next
    assume "l" "J e0"
    show "closed_by env J r e'"
    proof (cases "state d = DC_CONNECTED \<or> state d = DC_CONNECTING")
      case True
      then show ?thesis
        using assms l \<open>l\<close> \<open>J e0\<close> by (auto simp: dcConnect_def intro: leave_closed split: if_splits)
    next
      case False
      let ?d = "d\<lparr>state := DC_CONNECTING\<rparr>"
      let ?f = "frame_bytes conn_control []"
      obtain x e1 where x: "transmitBytes env ?f (transmission_context_p d) e0 = (x, e1)" by fastforce
      obtain w t d2 e2 where w: "condvarWait env (condvar_p d) DEADCOM_CONN_TIMEOUT_MS (Some False) ?d e1
          = (w, t, d2, e2)" using prod_cases4 by blast
      have J: "J e1" "J e2" using transmit_keeps [OF \<open>J e0\<close> x] wait_keeps [OF _ w] by blast+
      show ?thesis
        using assms l \<open>l\<close> False x w J
        by (auto simp: dcConnect_def Let_def build_conn bind_eq_Some_conv
            intro: leave_closed connect_finish_closed split: if_splits)
    qed
  qed
qed

lemma disconnect_section:
  assumes "dcDisconnect env (Some d) e = Some (r, d', e')"
  shows "locked_section env J e r e'"
proof -
  obtain l e0 where l: "mutexLock env (mutex_p d) e = (l, e0)" by fastforce
  then show ?thesis
    using assms by (intro locked_sectionI [OF l])
      (auto simp: dcDisconnect_def Let_def intro: leave_closed split: if_splits)
qed

lemma send_loop_keeps:
  "send_loop env f d e = Some (x, d', e') \<Longrightarrow> J e \<Longrightarrow> J e'"
  by (induction rule: send_loop_induct) (blast intro: transmit_keeps wait_keeps)+

lemma send_section:
  assumes "dcSendMessage env (Some d) m n e = Some (r, d', e')"
  shows "locked_section env J e r e'"
proof (cases "m = None \<or> n = 0 \<or> DEADCOM_PAYLOAD_MAX_LEN < n")
  case True
  then show ?thesis using assms by (auto simp: dcSendMessage_def locked_section_def)
next
  case False
  obtain l e0 where l: "mutexLock env (mutex_p d) e = (l, e0)" by fastforce
  show ?thesis
  proof (rule locked_sectionI [OF l])
    assume "\<not> l"
    then show "r = DC_FAILURE \<and> e' = e0" using assms l False by (simp add: dcSendMessage_def)
  next
    assume "l" "J e0"
    show "closed_by env J r e'"
    proof (cases "state d = DC_CONNECTED")
      case False
      then show ?thesis
        using assms l \<open>l\<close> \<open>J e0\<close> \<open>\<not> (m = None \<or> n = 0 \<or> DEADCOM_PAYLOAD_MAX_LEN < n)\<close>
        by (auto simp: dcSendMessage_def intro: leave_closed split: if_splits)
    next
      case True
      let ?d = "d\<lparr>send_number := (send_number d + 1) mod 8, failure_count := 0, state := DC_TRANSMITTING\<rparr>"
      obtain s f where f: "build_frame (data_control d) m n = Some (s, f)"
        using assms l \<open>l\<close> True False by (auto simp: dcSendMessage_def Let_def bind_eq_Some_conv)
      show ?thesis
      proof (cases "s = Inl EINVAL")
        case True
        then show ?thesis
          using assms l \<open>l\<close> \<open>J e0\<close> False \<open>state d = DC_CONNECTED\<close> f
          by (auto simp: dcSendMessage_def Let_def intro: leave_closed)
      next
        case ok: False
        then obtain x d1 e1 where loop: "send_loop env f ?d e0 = Some (x, d1, e1)"
          and exit: "(case x of SendFailed \<Rightarrow> leave env DC_FAILURE d1 e1
              | SendAcked \<Rightarrow> leave env DC_OK (d1\<lparr>state := DC_CONNECTED\<rparr>) e1
              | SendDropped \<Rightarrow> leave env DC_LINK_RESET (resetLink d1) e1) = Some (r, d', e')"
          using assms l \<open>l\<close> False \<open>state d = DC_CONNECTED\<close> f
          by (auto simp: dcSendMessage_def Let_def bind_eq_Some_conv)
        have "J e1" by (rule send_loop_keeps [OF loop \<open>J e0\<close>])
        then show ?thesis using exit by (cases x) (auto intro: leave_closed)
      qed
    qed
  qed
qed

lemma receive_section:
  assumes "dcGetReceivedMsg env (Some d) b n e = Some (r, b', n', d', e')"
  shows "locked_section env J e r e'"
proof (cases n)
  case None
  then show ?thesis using assms by (auto simp: dcGetReceivedMsg_def locked_section_def)
next
  case (Some k)
  obtain l e0 where l: "mutexLock env (mutex_p d) e = (l, e0)" by fastforce
  show ?thesis
    using assms l Some
    by (intro locked_sectionI [OF l])
      (auto simp: dcGetReceivedMsg_def Let_def bind_eq_Some_conv
        case_prod_beta intro!: unlock_closed_snd callback_keeps split: if_splits option.splits)
qed

lemma handle_frame_keeps:
  assumes "handle_frame env c n d e = Some (ok, d', e')" "J e"
  shows "J e'"
  using assms
  by (cases "frame c")
    (auto simp: handle_frame_def handle_data_def handle_ack_def handle_nack_def handle_conn_def
      handle_conn_ack_def signal_waiter_def Let_def bind_eq_Some_conv case_prod_beta
      intro: callback_keeps split: if_splits)

lemma process_once_keeps:
  assumes "process_once env d e data = Some (x, d', e')" "J e"
  shows "J e'"
proof -
  obtain r where r: "get_data (yahdlc_state d) control_zero data (scratchpadBuffer d) = Some r"
    using assms(1) by (auto simp: process_once_def bind_eq_Some_conv)
  show ?thesis
  proof (cases "ret r")
    case (Inl a)
    then show ?thesis using assms r by (cases a) (auto simp: process_once_def)
  next
    case (Inr k)
    then show ?thesis
      using assms r by (auto simp: process_once_def bind_eq_Some_conv intro: handle_frame_keeps)
  qed
qed

lemma process_loop_keeps:
  "process_loop env d e data = Some (ok, d', e') \<Longrightarrow> J e \<Longrightarrow> J e'"
proof (induction "length data * 2 + (if start_index (yahdlc_state d) < 0 then 0 else 1)"
    arbitrary: d e data rule: less_induct)
  case less
  show ?case
  proof (cases "data = []")
    case False
    then obtain x d1 e1 where once: "process_once env d e data = Some (x, d1, e1)"
      using less.prems(1) by (subst (asm) process_loop.simps) (auto split: option.splits)
    have J1: "J e1" by (rule process_once_keeps [OF once less.prems(2)])
    show ?thesis
    proof (cases x)
      case (Inl b)
      then show ?thesis
        using less.prems(1) once False J1 by (subst (asm) process_loop.simps) simp
    next
      case (Inr k)
      then have "process_loop env d1 e1 (drop k data) = Some (ok, d', e')"
        using less.prems(1) once False by (subst (asm) process_loop.simps) simp
      moreover have "length (drop k data) * 2 + (if start_index (yahdlc_state d1) < 0 then 0 else 1) <
          length data * 2 + (if start_index (yahdlc_state d) < 0 then 0 else (1 :: nat))"
        using process_once_progress [OF once [unfolded Inr] False] by auto
      ultimately show ?thesis using less.hyps J1 by blast
    qed
  qed (use less.prems in \<open>subst (asm) process_loop.simps, simp\<close>)
qed

lemma process_section:
  assumes "dcProcessData env (Some d) b n e = Some (r, d', e')"
  shows "locked_section env J e r e'"
proof (cases "b = None \<or> n = 0")
  case True
  then show ?thesis using assms by (auto simp: dcProcessData_def locked_section_def)
next
  case False
  obtain l e0 where l: "mutexLock env (mutex_p d) e = (l, e0)" by fastforce
  show ?thesis
    using assms l False
    by (intro locked_sectionI [OF l])
      (auto simp: dcProcessData_def Let_def bind_eq_Some_conv
        intro: leave_closed process_loop_keeps split: if_splits)
qed

lemma api_section:
  assumes "api_run env call d e = Some (r, d', e')"
  shows "locked_section env J e r e'"
  using assms
  by (cases call) (auto intro: connect_section disconnect_section send_section receive_section
      process_section)

end

section \<open>The discipline\<close>

text \<open>
  An environment that watches the order of the callbacks: how often the mutex is held, and
  whether a callback came at the wrong moment (a lock while it is held, anything else while
  it is not).
\<close>

definition watch :: "bool \<Rightarrow> nat \<Rightarrow> ('a \<times> 'e) \<Rightarrow> 'a \<times> 'e \<times> nat \<times> bool" where
  "watch good depth r = (fst r, snd r, depth, good)"

definition guarded :: "'e dcl2_env \<Rightarrow> ('e \<times> nat \<times> bool) dcl2_env" where
  "guarded env =
     \<lparr>mutexInit = \<lambda>p (e, k, g). watch g k (mutexInit env p e),
      mutexLock = \<lambda>p (e, k, g).
        let r = mutexLock env p e in watch (g \<and> k = 0) (if fst r then k + 1 else k) r,
      mutexUnlock = \<lambda>p (e, k, g). watch (g \<and> k = 1) (k - 1) (mutexUnlock env p e),
      condvarInit = \<lambda>p (e, k, g). watch g k (condvarInit env p e),
      condvarWait = \<lambda>p ms t d (e, k, g).
        (case condvarWait env p ms t d e of (w, t, d, e) \<Rightarrow> (w, t, d, e, k, g \<and> k = 1)),
      condvarSignal = \<lambda>p (e, k, g). watch (g \<and> k = 1) k (condvarSignal env p e),
      transmitBytes = \<lambda>b p (e, k, g). watch (g \<and> k = 1) k (transmitBytes env b p e)\<rparr>"

interpretation guard: callback_invariant "guarded env" "\<lambda>(e, k, g). k = 1 \<and> g"
  by unfold_locales (auto simp: guarded_def watch_def split: prod.splits)

text \<open>
  C14.  Mutex discipline.  Whatever the callbacks answer, an operation that returns has
  released the mutex as often as it acquired it; it acquires it only while it does not hold
  it, and releases it, transmits, waits and signals only while it holds it, on every branch
  and in every iteration of its loops.
\<close>

theorem mutex_discipline:
  assumes "api_run (guarded env) call d (e, 0, True) = Some (r, d', (e', k, g))"
  shows "k = 0 \<and> g"
proof -
  have "locked_section (guarded env) (\<lambda>(e, k, g). k = 1 \<and> g) (e, 0, True) r (e', k, g)"
    by (rule guard.api_section [OF assms])
  then show ?thesis
    by (auto simp: locked_section_def closed_by_def guarded_def watch_def Let_def
        split: if_splits)
qed

theorem mutex_discipline_witness:
  "\<exists>r d' e'. api_run (guarded log_env) Connect dc_zero ([], 0, True) = Some (r, d', (e', 0, True)) \<and>
     length e' = 1"
proof -
  obtain r d' e' k g where c:
    "api_run (guarded log_env) Connect dc_zero ([], 0, True) = Some (r, d', (e', k, g))" "length e' = 1"
    by (simp add: dcConnect_def dc_zero_def guarded_def watch_def log_env_def build_conn Let_def
        connect_finish_def leave_def)
  have "k = 0 \<and> g" by (rule mutex_discipline [OF c(1)])
  then have k: "k = 0" "g = True" by simp_all
  show ?thesis using c unfolding k by blast
qed

end
