(* ===== verification/Dcl2_Python.thy ===== *)
theory Dcl2_Python
  imports Dcl2_Mutex
begin

text \<open>
  The Python bindings, \<open>dcl2/py3-bindings/dcl2/_dcl2_bridgefunctions.c\<close> (the callbacks the
  library is given, which call Python objects), \<open>_dcl2_type_methods.c\<close> (the methods a Python
  program calls) and \<open>Dc_Py_InitDeadcomL2\<close> of \<open>_dcl2_type.c\<close>.  The Python objects and the
  functions of the CPython API that may fail are parameters; the error indicator of the
  thread and the references the C code takes and gives back are part of the state.
\<close>

section \<open>The interpreter\<close>

text \<open>
  The exceptions the bindings set, and those that come out of a call of a Python object.
\<close>

datatype py_exc =
    PyExc_RuntimeError | PyExc_BrokenPipeError | PyExc_ConnectionError | PyExc_TypeError
  | PyExc_AttributeError
  | FromPython nat

text \<open>
  The objects whose references matter: \<open>self\<close>, the argument tuple, the \<open>bytes\<close> argument,
  \<open>self->condvar\<close>, the returned object, the \<open>bytes\<close> made for a transmission, and the
  results of the calls.
\<close>

datatype py_ref = Self | Args | Data | Condvar | Result | TransmitBytes | CallResult

record 'p py_state =
  py_err :: "py_exc option"
  refs :: "py_ref \<Rightarrow> int"
  world :: 'p

definition py_incref :: "py_ref \<Rightarrow> 'p py_state \<Rightarrow> 'p py_state" where
  "py_incref obj s = s\<lparr>refs := (refs s)(obj := refs s obj + 1)\<rparr>"

definition py_decref :: "py_ref \<Rightarrow> 'p py_state \<Rightarrow> 'p py_state" where
  "py_decref obj s = s\<lparr>refs := (refs s)(obj := refs s obj - 1)\<rparr>"

definition py_set :: "py_exc \<Rightarrow> 'p py_state \<Rightarrow> 'p py_state" where
  "py_set x s = s\<lparr>py_err := Some x\<rparr>"

text \<open>
  The callables the object holds.  A call returns an object (\<open>None\<close> here) or raises.  What
  the waiting callable returns has a truth value, or fails to have one
  (\<open>PyObject_IsTrue\<close> is -1 then, with the indicator set).  \<open>bytes_from\<close> is the allocation in
  \<open>PyBytes_FromStringAndSize\<close>.
\<close>

datatype py_truth = Truth bool | TruthFails nat

record 'p py_methods =
  tvmt_mutexInit :: "'p \<Rightarrow> nat option \<times> 'p"
  tvmt_mutexLock :: "'p \<Rightarrow> nat option \<times> 'p"
  tvmt_mutexUnlock :: "'p \<Rightarrow> nat option \<times> 'p"
  tvmt_condvarInit :: "'p \<Rightarrow> nat option \<times> 'p"
  tvmt_condvarWait :: "nat \<Rightarrow> DeadcomL2 \<Rightarrow> 'p \<Rightarrow> (nat + py_truth) \<times> DeadcomL2 \<times> 'p"
  tvmt_condvarSignal :: "'p \<Rightarrow> nat option \<times> 'p"
  transmitFunction :: "byte list \<Rightarrow> 'p \<Rightarrow> nat option \<times> 'p"
  bytes_from :: "byte list \<Rightarrow> 'p \<Rightarrow> nat option \<times> 'p"

section \<open>The bridge\<close>

text \<open>
  Five of the callbacks differ only in the callable: nothing is called while an exception is
  pending, and a result is released again.
\<close>

definition call_bridge :: "('p \<Rightarrow> nat option \<times> 'p) \<Rightarrow> 'p py_state \<Rightarrow> bool \<times> 'p py_state" where
  "call_bridge f s =
     (if py_err s \<noteq> None then (False, s)
      else (case f (world s) of
              (Some x, w) \<Rightarrow> (False, py_set (FromPython x) (s\<lparr>world := w\<rparr>))
            | (None, w) \<Rightarrow> (True, py_decref CallResult (py_incref CallResult (s\<lparr>world := w\<rparr>)))))"

definition pyBridge_mutexInit :: "'p py_methods \<Rightarrow> 'p py_state \<Rightarrow> bool \<times> 'p py_state" where
  "pyBridge_mutexInit obj = call_bridge (tvmt_mutexInit obj)"

definition pyBridge_mutexLock :: "'p py_methods \<Rightarrow> 'p py_state \<Rightarrow> bool \<times> 'p py_state" where
  "pyBridge_mutexLock obj = call_bridge (tvmt_mutexLock obj)"

definition pyBridge_mutexUnock :: "'p py_methods \<Rightarrow> 'p py_state \<Rightarrow> bool \<times> 'p py_state" where
  "pyBridge_mutexUnock obj = call_bridge (tvmt_mutexUnlock obj)"

definition pyBridge_condvarInit :: "'p py_methods \<Rightarrow> 'p py_state \<Rightarrow> bool \<times> 'p py_state" where
  "pyBridge_condvarInit obj = call_bridge (tvmt_condvarInit obj)"

definition pyBridge_condvarSignal :: "'p py_methods \<Rightarrow> 'p py_state \<Rightarrow> bool \<times> 'p py_state" where
  "pyBridge_condvarSignal obj = call_bridge (tvmt_condvarSignal obj)"

text \<open>The references to \<open>self\<close> and to the condition variable are not given back.\<close>

definition pyBridge_condvarWait ::
  "'p py_methods \<Rightarrow> nat \<Rightarrow> bool option \<Rightarrow> DeadcomL2 \<Rightarrow> 'p py_state
     \<Rightarrow> bool \<times> bool option \<times> DeadcomL2 \<times> 'p py_state" where
  "pyBridge_condvarWait obj milliseconds timed_out d s =
     (if py_err s \<noteq> None then (False, timed_out, d, s)
      else
        let s = py_incref Condvar (py_incref Self s);
            (r, d, w) = tvmt_condvarWait obj milliseconds d (world s);
            s = s\<lparr>world := w\<rparr>
        in (case r of
              Inl x \<Rightarrow> (False, timed_out, d, py_set (FromPython x) s)
            | Inr t \<Rightarrow>
                let s = py_incref CallResult s;
                    (b, s) = (case t of
                        Truth b \<Rightarrow> (b, s)
                      | TruthFails x \<Rightarrow> (True, py_set (FromPython x) s))
                in (True, Some b, d, py_decref CallResult s)))"

text \<open>Neither the \<open>bytes\<close> object nor the result of the call is released.\<close>

definition Dc_Py_BridgeTransmit ::
  "'p py_methods \<Rightarrow> byte list \<Rightarrow> 'p py_state \<Rightarrow> bool \<times> 'p py_state" where
  "Dc_Py_BridgeTransmit obj bytes s =
     (if py_err s \<noteq> None then (False, s)
      else (case bytes_from obj bytes (world s) of
              (Some x, w) \<Rightarrow> (False, py_set (FromPython x) (s\<lparr>world := w\<rparr>))
            | (None, w) \<Rightarrow>
                let s = py_incref TransmitBytes (s\<lparr>world := w\<rparr>)
                in (case transmitFunction obj bytes (world s) of
                      (Some x, w) \<Rightarrow> (False, py_set (FromPython x) (s\<lparr>world := w\<rparr>))
                    | (None, w) \<Rightarrow> (True, py_incref CallResult (s\<lparr>world := w\<rparr>)))))"

definition Dc_Py_BridgeThreadingMethods :: "'p py_methods \<Rightarrow> 'p py_state dcl2_env" where
  "Dc_Py_BridgeThreadingMethods obj =
     \<lparr>mutexInit = \<lambda>p. pyBridge_mutexInit obj,
      mutexLock = \<lambda>p. pyBridge_mutexLock obj,
      mutexUnlock = \<lambda>p. pyBridge_mutexUnock obj,
      condvarInit = \<lambda>p. pyBridge_condvarInit obj,
      condvarWait = \<lambda>p. pyBridge_condvarWait obj,
      condvarSignal = \<lambda>p. pyBridge_condvarSignal obj,
      transmitBytes = \<lambda>b p. Dc_Py_BridgeTransmit obj b\<rparr>"

section \<open>The methods\<close>

text \<open>
  A method returns an object, or \<open>NULL\<close> (\<open>None\<close>).  A call with \<open>NULL\<close> where it is not
  allowed and undefined behaviour of the library make the outer result \<open>None\<close>.  The
  assertions are those of a build with \<open>NDEBUG\<close>, which the flags of CPython define and
  \<open>setup.py\<close> does not undo: they test nothing, and that they would hold is shown.
\<close>

datatype py_value = Py_None | Py_True | Py_False | PyBytes "byte list"

type_synonym 'p py_result = "(py_value option \<times> DeadcomL2 \<times> 'p py_state) option"

definition py_return :: "py_value \<Rightarrow> DeadcomL2 \<Rightarrow> 'p py_state \<Rightarrow> 'p py_result" where
  "py_return v d s = Some (Some v, d, py_incref Result s)"

text \<open>The label \<open>except\<close>; \<open>held\<close> says whether \<open>ret\<close> is not \<open>NULL\<close>.\<close>

definition py_except :: "bool \<Rightarrow> DeadcomL2 \<Rightarrow> 'p py_state \<Rightarrow> 'p py_result" where
  "py_except held d s =
     Some (None, d, if held then py_decref Result s else s)"

definition py_finally :: "py_ref list \<Rightarrow> 'p py_result \<Rightarrow> 'p py_result" where
  "py_finally os r = map_option (\<lambda>(v, d, s). (v, d, fold py_decref os s)) r"

text \<open>\<open>DC_FAILURE\<close> with an exception pending keeps it; otherwise the method sets its own.\<close>

definition py_failure :: "DeadcomL2Result \<Rightarrow> py_exc \<Rightarrow> DeadcomL2 \<Rightarrow> 'p py_state \<Rightarrow> 'p py_result" where
  "py_failure r x d s =
     (if r = DC_FAILURE \<and> py_err s \<noteq> None then py_except False d s
      else py_except False d (py_set x s))"

definition method_connect :: "'p py_methods \<Rightarrow> DeadcomL2 \<Rightarrow> 'p py_state \<Rightarrow> 'p py_result" where
  "method_connect obj d s =
     py_finally [Self] (do {
        (r, d, s) \<leftarrow> api_run (Dc_Py_BridgeThreadingMethods obj) Connect d (py_incref Self s);
        (case r of
           DC_OK \<Rightarrow> py_return Py_True d s
         | DC_NOT_CONNECTED \<Rightarrow> py_return Py_False d s
         | _ \<Rightarrow> py_failure r PyExc_RuntimeError d s)
      })"

definition method_disconnect :: "'p py_methods \<Rightarrow> DeadcomL2 \<Rightarrow> 'p py_state \<Rightarrow> 'p py_result" where
  "method_disconnect obj d s =
     py_finally [Self] (do {
        (r, d, s) \<leftarrow> api_run (Dc_Py_BridgeThreadingMethods obj) Disconnect d (py_incref Self s);
        let s = py_incref Result s;
        if r = DC_FAILURE \<and> py_err s \<noteq> None then py_except True d s
        else if r \<noteq> DC_OK then py_except True d (py_set PyExc_RuntimeError s)
        else Some (Some Py_None, d, s)
      })"

text \<open>
  The argument of the tuple when it is one \<open>bytes\<close> object (\<open>"S"\<close>), else \<open>None\<close>, and then
  parsing sets \<open>TypeError\<close>.  The size of a \<open>bytes\<close> object is never negative.
\<close>

definition method_sendMessage ::
  "'p py_methods \<Rightarrow> byte list option \<Rightarrow> DeadcomL2 \<Rightarrow> 'p py_state \<Rightarrow> 'p py_result" where
  "method_sendMessage obj args d s =
     (let s = py_incref Args (py_incref Self s)
        in (case args of
              None \<Rightarrow> py_finally [Self, Args] (py_except False d (py_set PyExc_TypeError s))
            | Some data \<Rightarrow> py_finally [Self, Data, Args] (do {
                (r, d, s) \<leftarrow> api_run (Dc_Py_BridgeThreadingMethods obj)
                               (Send (Some data) (length data)) d (py_incref Data s);
                (case r of
                   DC_OK \<Rightarrow> py_return Py_None d s
                 | DC_NOT_CONNECTED \<Rightarrow> py_except False d (py_set PyExc_BrokenPipeError s)
                 | DC_LINK_RESET \<Rightarrow> py_except False d (py_set PyExc_ConnectionError s)
                 | DC_FAILURE \<Rightarrow> py_failure r PyExc_RuntimeError d s)
              })))"

text \<open>
  Between the two calls of the library the mutex is free; \<open>others\<close> is what the other threads
  make of the object until it is locked again.  The first value of \<open>msg_len\<close>, which is
  indeterminate in the code, is not read: the library stores the length or reports a
  failure.  The array \<open>buf\<close> has the length the first call reported.
\<close>

definition getMessage_fetch ::
  "'p py_methods \<Rightarrow> nat \<Rightarrow> DeadcomL2 \<Rightarrow> 'p py_state \<Rightarrow> 'p py_result" where
  "getMessage_fetch obj n d s = do {
     (r, buf, msg_len, d, s) \<leftarrow> dcGetReceivedMsg (Dc_Py_BridgeThreadingMethods obj) (Some d)
                                (Some (replicate n 0)) (Some n) s;
     let d = the d;
     (case r of
        DC_NOT_CONNECTED \<Rightarrow> py_return Py_None d s
      | DC_OK \<Rightarrow> do {
          buf \<leftarrow> buf;
          n \<leftarrow> msg_len;
          b \<leftarrow> buf_read n buf;
          (case bytes_from obj b (world s) of
             (Some x, w) \<Rightarrow> None
           | (None, w) \<Rightarrow> py_return (PyBytes b) d (py_incref Result (s\<lparr>world := w\<rparr>)))
        }
      | _ \<Rightarrow> py_failure r PyExc_RuntimeError d s)
   }"

definition method_getMessage ::
  "'p py_methods \<Rightarrow> (DeadcomL2 \<Rightarrow> DeadcomL2) \<Rightarrow> DeadcomL2 \<Rightarrow> 'p py_state \<Rightarrow> 'p py_result" where
  "method_getMessage obj others d s =
     py_finally [Self] (do {
        (r, _, msg_len, d, s) \<leftarrow> dcGetReceivedMsg (Dc_Py_BridgeThreadingMethods obj) (Some d)
                                  None (Some 0) (py_incref Self s);
        let d = the d;
        (case r of
           DC_NOT_CONNECTED \<Rightarrow> py_return Py_None d s
         | DC_FAILURE \<Rightarrow> py_failure r PyExc_RuntimeError d s
         | _ \<Rightarrow>
             if msg_len = Some 0 then py_return Py_None d s
             else do {
               n \<leftarrow> msg_len;
               getMessage_fetch obj n (others d) s
             })
      })"

text \<open>
  The method takes no reference to the argument tuple and gives one back, and gives back
  the reference to the \<open>bytes\<close> object even where there is none (\<open>Py_DECREF(NULL)\<close>).
\<close>

definition method_processData ::
  "'p py_methods \<Rightarrow> byte list option \<Rightarrow> DeadcomL2 \<Rightarrow> 'p py_state \<Rightarrow> 'p py_result" where
  "method_processData obj args d s =
     (let s = py_incref Self s
        in (case args of
              None \<Rightarrow> None
            | Some data \<Rightarrow>
                let s = py_incref Data s
                in py_finally [Data, Args, Self]
                  (if length data = 0 then py_return Py_None d s
                   else do {
                     (r, d, s) \<leftarrow> api_run (Dc_Py_BridgeThreadingMethods obj)
                                    (Process (Some data) (length data)) d s;
                     if r = DC_OK then py_return Py_None d s
                     else py_failure r PyExc_TypeError d s
                   })))"

section \<open>The constructor\<close>

text \<open>
  \<open>args\<close> is \<open>None\<close> when the tuple does not have nine objects; otherwise it says which of the
  arguments 3 to 9 are callable and holds the objects, which replace those of \<open>self\<close>
  (\<open>old\<close>).  \<open>self_p\<close>, \<open>vmt_p\<close> and \<open>transmit_p\<close> are the addresses of \<open>self\<close>, the method table
  and \<open>Dc_Py_BridgeTransmit\<close>.  The references to the nine objects are not counted here.
\<close>

definition Dc_Py_InitDeadcomL2 ::
  "nat \<Rightarrow> nat \<Rightarrow> nat \<Rightarrow> 'p py_methods \<Rightarrow> DeadcomL2 \<Rightarrow> (bool list \<times> 'p py_methods) option
     \<Rightarrow> 'p py_state \<Rightarrow> int \<times> 'p py_methods \<times> DeadcomL2 \<times> 'p py_state" where
  "Dc_Py_InitDeadcomL2 self_p vmt_p transmit_p old d args s =
     (case args of
        None \<Rightarrow> (-1, old, d, py_set PyExc_TypeError s)
      | Some (callable, new) \<Rightarrow>
          if False \<in> set callable then (-1, old, d, py_set PyExc_TypeError s)
          else
            let (r, d, s) = dcInit (Dc_Py_BridgeThreadingMethods new) (Some d) (Some self_p)
                  (Some self_p) (Some vmt_p) (Some transmit_p) (Some self_p) s;
                d = the d
            in if r = DC_FAILURE \<and> py_err s \<noteq> None then (-1, new, d, s)
               else if r \<noteq> DC_OK then (-1, new, d, py_set PyExc_RuntimeError s)
               else (0, new, d, s))"

text \<open>A call of one of the methods.\<close>

datatype py_call =
    PyConnect
  | PyDisconnect
  | PySendMessage "byte list option"
  | PyGetMessage "DeadcomL2 \<Rightarrow> DeadcomL2"
  | PyProcessData "byte list option"

fun py_run :: "'p py_methods \<Rightarrow> py_call \<Rightarrow> DeadcomL2 \<Rightarrow> 'p py_state \<Rightarrow> 'p py_result" where
  "py_run obj PyConnect d s = method_connect obj d s"
| "py_run obj PyDisconnect d s = method_disconnect obj d s"
| "py_run obj (PySendMessage args) d s = method_sendMessage obj args d s"
| "py_run obj (PyGetMessage others) d s = method_getMessage obj others d s"
| "py_run obj (PyProcessData args) d s = method_processData obj args d s"

section \<open>What the bridge keeps\<close>

lemma py_state_simps [simp]:
  "py_err (py_incref r s) = py_err s" "world (py_incref r s) = world s"
  "py_err (py_decref r s) = py_err s" "world (py_decref r s) = world s"
  "py_err (py_set x s) = Some x" "world (py_set x s) = world s" "refs (py_set x s) = refs s"
  "refs (py_incref r s) = (refs s)(r := refs s r + 1)"
  "refs (py_decref r s) = (refs s)(r := refs s r - 1)"
  by (simp_all add: py_incref_def py_decref_def py_set_def)

lemmas bridge_defs = call_bridge_def pyBridge_mutexInit_def pyBridge_mutexLock_def
  pyBridge_mutexUnock_def pyBridge_condvarInit_def pyBridge_condvarSignal_def
  pyBridge_condvarWait_def Dc_Py_BridgeTransmit_def Dc_Py_BridgeThreadingMethods_def

text \<open>A successful call of a bridge function means that no exception is pending.\<close>

lemma lock_result:
  assumes "mutexLock (Dc_Py_BridgeThreadingMethods obj) p s = (l, s')"
  shows "l \<longleftrightarrow> py_err s' = None"
  using assms by (auto simp: bridge_defs split: if_splits prod.splits option.splits)

lemma unlock_result:
  assumes "mutexUnlock (Dc_Py_BridgeThreadingMethods obj) p s = (u, s')"
  shows "u \<longleftrightarrow> py_err s' = None"
  using assms by (auto simp: bridge_defs split: if_splits prod.splits option.splits)

text \<open>
  References: what the callbacks leak, and what they leave alone.  \<open>waits\<close> and \<open>sends\<close> count the
  calls of the waiting and of the transmitting callable.
\<close>

definition counts_calls :: "'p py_methods \<Rightarrow> ('p \<Rightarrow> nat) \<Rightarrow> ('p \<Rightarrow> nat) \<Rightarrow> bool" where
  "counts_calls obj waits sends \<longleftrightarrow>
     (\<forall>w x w'. tvmt_mutexLock obj w = (x, w') \<longrightarrow> waits w' = waits w \<and> sends w' = sends w) \<and>
     (\<forall>w x w'. tvmt_mutexUnlock obj w = (x, w') \<longrightarrow> waits w' = waits w \<and> sends w' = sends w) \<and>
     (\<forall>w x w'. tvmt_condvarSignal obj w = (x, w') \<longrightarrow> waits w' = waits w \<and> sends w' = sends w) \<and>
     (\<forall>b w x w'. bytes_from obj b w = (x, w') \<longrightarrow> waits w' = waits w \<and> sends w' = sends w) \<and>
     (\<forall>ms d w y d' w'. tvmt_condvarWait obj ms d w = (y, d', w') \<longrightarrow>
        waits w' = Suc (waits w) \<and> sends w' = sends w) \<and>
     (\<forall>b w x w'. transmitFunction obj b w = (x, w') \<longrightarrow> waits w' = waits w \<and> sends w' = Suc (sends w))"

lemma counts_callsD:
  assumes "counts_calls obj waits sends"
  shows "tvmt_mutexLock obj w = (x, w') \<Longrightarrow> waits w' = waits w \<and> sends w' = sends w"
    and "tvmt_mutexUnlock obj w = (x, w') \<Longrightarrow> waits w' = waits w \<and> sends w' = sends w"
    and "tvmt_condvarSignal obj w = (x, w') \<Longrightarrow> waits w' = waits w \<and> sends w' = sends w"
    and "bytes_from obj b w = (x, w') \<Longrightarrow> waits w' = waits w \<and> sends w' = sends w"
    and "tvmt_condvarWait obj ms d w = (y, d', w') \<Longrightarrow> waits w' = Suc (waits w) \<and> sends w' = sends w"
    and "transmitFunction obj b w = (x, w') \<Longrightarrow> waits w' = waits w \<and> sends w' = Suc (sends w)"
  using assms unfolding counts_calls_def by metis+

text \<open>
  The references of \<open>s\<close> are those of \<open>f\<close>, but for one to the object and one to the condition
  variable for each wait, and one to the octets of each transmission.
\<close>

definition refs_kept ::
  "'p py_methods \<Rightarrow> ('p \<Rightarrow> nat) \<Rightarrow> ('p \<Rightarrow> nat) \<Rightarrow> (py_ref \<Rightarrow> int) \<Rightarrow> 'p py_state \<Rightarrow> bool" where
  "refs_kept obj waits sends f s \<longleftrightarrow>
     refs s Args = f Args \<and> refs s Data = f Data \<and> refs s Result = f Result \<and>
     (counts_calls obj waits sends \<longrightarrow>
        refs s Self = f Self + int (waits (world s)) \<and>
        refs s Condvar = f Condvar + int (waits (world s)) \<and>
        refs s TransmitBytes = f TransmitBytes + int (sends (world s)))"

definition refs_base :: "('p \<Rightarrow> nat) \<Rightarrow> ('p \<Rightarrow> nat) \<Rightarrow> 'p py_state \<Rightarrow> py_ref \<Rightarrow> int" where
  "refs_base waits sends s = (refs s)
     (Self := refs s Self - int (waits (world s)),
      Condvar := refs s Condvar - int (waits (world s)),
      TransmitBytes := refs s TransmitBytes - int (sends (world s)))"

lemma refs_kept_refl: "refs_kept obj waits sends (refs_base waits sends s) s"
  by (simp add: refs_kept_def refs_base_def)

interpretation kept_refs: callback_invariant "Dc_Py_BridgeThreadingMethods obj"
  "refs_kept obj waits sends f"
proof unfold_locales
  fix s b p x and s' :: "'a py_state"
  assume J: "refs_kept obj waits sends f s"
    and t: "transmitBytes (Dc_Py_BridgeThreadingMethods obj) b p s = (x, s')"
  obtain r1 w1 where r1: "bytes_from obj b (world s) = (r1, w1)" by fastforce
  obtain r2 w2 where r2: "transmitFunction obj b w1 = (r2, w2)" by fastforce
  show "refs_kept obj waits sends f s'"
    using J t r1 r2 counts_callsD(4) [OF _ r1, of waits sends] counts_callsD(6) [OF _ r2, of waits sends]
    by (auto simp: bridge_defs refs_kept_def Let_def split: if_splits option.splits)
next
  fix s p ms t d w t' d' and s' :: "'a py_state"
  assume J: "refs_kept obj waits sends f s"
    and t: "condvarWait (Dc_Py_BridgeThreadingMethods obj) p ms t d s = (w, t', d', s')"
  obtain y d1 w1 where y: "tvmt_condvarWait obj ms d (world s) = (y, d1, w1)"
    using prod_cases3 by blast
  show "refs_kept obj waits sends f s'"
    using J t y counts_callsD(5) [OF _ y, of waits sends]
    by (auto simp: bridge_defs refs_kept_def Let_def split: if_splits sum.splits py_truth.splits)
next
  fix s p y and s' :: "'a py_state"
  assume J: "refs_kept obj waits sends f s"
    and t: "condvarSignal (Dc_Py_BridgeThreadingMethods obj) p s = (y, s')"
  obtain r w where r: "tvmt_condvarSignal obj (world s) = (r, w)" by fastforce
  show "refs_kept obj waits sends f s'"
    using J t r counts_callsD(3) [OF _ r, of waits sends]
    by (auto simp: bridge_defs refs_kept_def split: if_splits option.splits)
qed

text \<open>
  What the callables have to be for the object to be protected: the lock is taken and given
  back without an exception, and nothing else changes who holds it.
\<close>

definition real_mutex :: "'p py_methods \<Rightarrow> ('p \<Rightarrow> bool) \<Rightarrow> bool" where
  "real_mutex obj held \<longleftrightarrow>
     (\<forall>w x w'. tvmt_mutexLock obj w = (x, w') \<longrightarrow> \<not> held w \<longrightarrow> x = None \<and> held w') \<and>
     (\<forall>w x w'. tvmt_mutexUnlock obj w = (x, w') \<longrightarrow> held w \<longrightarrow> x = None \<and> \<not> held w') \<and>
     (\<forall>ms d w y d' w'. tvmt_condvarWait obj ms d w = (y, d', w') \<longrightarrow> held w' = held w) \<and>
     (\<forall>w x w'. tvmt_condvarSignal obj w = (x, w') \<longrightarrow> held w' = held w) \<and>
     (\<forall>b w x w'. transmitFunction obj b w = (x, w') \<longrightarrow> held w' = held w) \<and>
     (\<forall>b w x w'. bytes_from obj b w = (x, w') \<longrightarrow> held w' = held w)"

lemma real_mutexD:
  assumes "real_mutex obj held"
  shows "tvmt_mutexLock obj w = (x, w') \<Longrightarrow> \<not> held w \<Longrightarrow> x = None \<and> held w'"
    and "tvmt_mutexUnlock obj w = (x, w') \<Longrightarrow> held w \<Longrightarrow> x = None \<and> \<not> held w'"
    and "tvmt_condvarWait obj ms d w = (y, d', w') \<Longrightarrow> held w' = held w"
    and "tvmt_condvarSignal obj w = (x, w') \<Longrightarrow> held w' = held w"
    and "transmitFunction obj b w = (x, w') \<Longrightarrow> held w' = held w"
    and "bytes_from obj b w = (x, w') \<Longrightarrow> held w' = held w"
  using assms unfolding real_mutex_def by metis+

definition from_python :: "'p py_state \<Rightarrow> bool" where
  "from_python s \<longleftrightarrow> (\<forall>x. py_err s = Some x \<longrightarrow> (\<exists>n. x = FromPython n))"

definition locked_by_python :: "'p py_methods \<Rightarrow> ('p \<Rightarrow> bool) \<Rightarrow> 'p py_state \<Rightarrow> bool" where
  "locked_by_python obj held s \<longleftrightarrow> from_python s \<and> (real_mutex obj held \<longrightarrow> held (world s))"

interpretation kept_lock: callback_invariant "Dc_Py_BridgeThreadingMethods obj"
  "locked_by_python obj held"
proof unfold_locales
  fix s b p x and s' :: "'a py_state"
  assume J: "locked_by_python obj held s"
    and t: "transmitBytes (Dc_Py_BridgeThreadingMethods obj) b p s = (x, s')"
  obtain r1 w1 where r1: "bytes_from obj b (world s) = (r1, w1)" by fastforce
  obtain r2 w2 where r2: "transmitFunction obj b w1 = (r2, w2)" by fastforce
  show "locked_by_python obj held s'"
    using J t r1 r2 real_mutexD(6) [OF _ r1, of held] real_mutexD(5) [OF _ r2, of held]
    by (auto simp: bridge_defs locked_by_python_def from_python_def Let_def
        split: if_splits option.splits)
next
  fix s p ms t d w t' d' and s' :: "'a py_state"
  assume J: "locked_by_python obj held s"
    and t: "condvarWait (Dc_Py_BridgeThreadingMethods obj) p ms t d s = (w, t', d', s')"
  obtain y d1 w1 where y: "tvmt_condvarWait obj ms d (world s) = (y, d1, w1)"
    using prod_cases3 by blast
  show "locked_by_python obj held s'"
    using J t y real_mutexD(3) [OF _ y, of held]
    by (auto simp: bridge_defs locked_by_python_def from_python_def Let_def
        split: if_splits sum.splits py_truth.splits)
next
  fix s p y and s' :: "'a py_state"
  assume J: "locked_by_python obj held s"
    and t: "condvarSignal (Dc_Py_BridgeThreadingMethods obj) p s = (y, s')"
  obtain r w where r: "tvmt_condvarSignal obj (world s) = (r, w)" by fastforce
  show "locked_by_python obj held s'"
    using J t r real_mutexD(4) [OF _ r, of held]
    by (auto simp: bridge_defs locked_by_python_def from_python_def split: if_splits option.splits)
qed

section \<open>Calls of the library through the bridge\<close>

text \<open>
  A call that does not fail leaves no exception; one that starts with the mutex free ends
  with the mutex held exactly when a Python object raised.
\<close>

lemma section_refs:
  assumes "locked_section (Dc_Py_BridgeThreadingMethods obj) (refs_kept obj waits sends f) s r s'"
    and "refs_kept obj waits sends f s"
  shows "refs_kept obj waits sends f s' \<and> (r \<noteq> DC_FAILURE \<longrightarrow> py_err s' = None)"
proof -
  let ?env = "Dc_Py_BridgeThreadingMethods obj" and ?J = "refs_kept obj waits sends f"
  have same: "?J s1" if l: "mutexLock ?env p s0 = (l, s1) \<or> mutexUnlock ?env p s0 = (l, s1)" and J: "?J s0"
    for p s0 l s1
  proof -
    obtain x1 w1 where x1: "tvmt_mutexLock obj (world s0) = (x1, w1)" by fastforce
    obtain x2 w2 where x2: "tvmt_mutexUnlock obj (world s0) = (x2, w2)" by fastforce
    show ?thesis
      using l J x1 x2 counts_callsD(1) [OF _ x1, of waits sends] counts_callsD(2) [OF _ x2, of waits sends]
      by (auto simp: bridge_defs refs_kept_def split: if_splits option.splits)
  qed
  consider "r = DC_FAILURE" "s' = s"
    | p l s0 where "mutexLock ?env p s = (l, s0)"
        "if l then ?J s0 \<longrightarrow> closed_by ?env ?J r s' else r = DC_FAILURE \<and> s' = s0"
    using assms(1) unfolding locked_section_def by blast
  then show ?thesis
  proof cases
    case 2
    then have s0: "?J s0" using same assms(2) by blast
    show ?thesis
    proof (cases l)
      case True
      then obtain p1 s1 u where u: "?J s1" "mutexUnlock ?env p1 s1 = (u, s')" "r \<noteq> DC_FAILURE \<longrightarrow> u"
        using 2 s0 by (auto simp: closed_by_def)
      then show ?thesis using same unlock_result [OF u(2)] by blast
    qed (use 2 s0 in simp)
  qed (use assms(2) in simp)
qed

lemma section_lock:
  assumes "locked_section (Dc_Py_BridgeThreadingMethods obj) (locked_by_python obj held) s r s'"
    and m: "real_mutex obj held" and s: "py_err s = None" "\<not> held (world s)"
  shows "from_python s' \<and> (held (world s') \<longleftrightarrow> py_err s' \<noteq> None)"
proof -
  have lock: "l \<and> held (world s1) \<and> py_err s1 = None"
    if "mutexLock (Dc_Py_BridgeThreadingMethods obj) p s = (l, s1)" for p l s1
    using that s real_mutexD(1) [OF m, of "world s"]
    by (cases "tvmt_mutexLock obj (world s)") (auto simp: bridge_defs)
  have unlock: "from_python s1 \<and> (held (world s1) \<longleftrightarrow> py_err s1 \<noteq> None)"
    if "mutexUnlock (Dc_Py_BridgeThreadingMethods obj) p s0 = (u, s1)" "locked_by_python obj held s0"
    for p s0 u s1
    using that m real_mutexD(2) [OF m, of "world s0"]
    by (cases "tvmt_mutexUnlock obj (world s0)")
      (auto simp: bridge_defs locked_by_python_def from_python_def split: if_splits)
  let ?env = "Dc_Py_BridgeThreadingMethods obj" and ?J = "locked_by_python obj held"
  consider "r = DC_FAILURE" "s' = s"
    | p l s0 where "mutexLock ?env p s = (l, s0)"
        "if l then ?J s0 \<longrightarrow> closed_by ?env ?J r s' else r = DC_FAILURE \<and> s' = s0"
    using assms(1) unfolding locked_section_def by blast
  then show ?thesis
  proof cases
    case 1
    then show ?thesis using s by (simp add: from_python_def)
  next
    case 2
    then have "?J s0" "l" using lock by (auto simp: locked_by_python_def from_python_def)
    then obtain p1 s1 u where "?J s1" "mutexUnlock ?env p1 s1 = (u, s')"
      using 2 by (auto simp: closed_by_def)
    then show ?thesis using unlock by blast
  qed
qed

lemma api_refs:
  assumes "api_run (Dc_Py_BridgeThreadingMethods obj) call d s = Some (r, d', s')"
  shows "refs_kept obj waits sends (refs_base waits sends s) s' \<and> (r \<noteq> DC_FAILURE \<longrightarrow> py_err s' = None)"
  by (rule section_refs [OF kept_refs.api_section [OF assms] refs_kept_refl])

lemma receive_refs:
  assumes "dcGetReceivedMsg (Dc_Py_BridgeThreadingMethods obj) (Some d) b n s = Some (r, b', n', d', s')"
  shows "refs_kept obj waits sends (refs_base waits sends s) s' \<and> (r \<noteq> DC_FAILURE \<longrightarrow> py_err s' = None)"
  by (rule section_refs [OF kept_refs.receive_section [OF assms] refs_kept_refl])

lemmas api_lock = section_lock [OF kept_lock.api_section]
lemmas receive_lock = section_lock [OF kept_lock.receive_section]

lemma py_failure_cases:
  assumes "py_failure r x d s = Some (v, d', s')"
  shows "v = None \<and> d' = d \<and> refs s' = refs s \<and> world s' = world s \<and> py_err s' \<noteq> None \<and>
    (if r = DC_FAILURE \<and> py_err s \<noteq> None then py_err s' = py_err s else py_err s' = Some x)"
  using assms by (auto simp: py_failure_def py_except_def split: if_splits)

text \<open>
  How a method ends.  \<open>ended\<close> relates the state after its calls of the library to the value
  and the state at the label \<open>finally\<close>.
\<close>

definition ended :: "'p py_state \<Rightarrow> py_value option \<Rightarrow> 'p py_state \<Rightarrow> bool" where
  "ended s v s' \<longleftrightarrow>
     (v = None \<longleftrightarrow> py_err s' \<noteq> None) \<and> (\<forall>b. v \<noteq> Some (PyBytes b)) \<and>
     refs s' = (refs s)(Result := refs s Result + (if v = None then 0 else 1)) \<and>
     world s' = world s \<and>
     (py_err s' = py_err s \<or> py_err s = None \<and> \<not> from_python s')"

lemma ended_return:
  "py_return v d s = Some (w, d', s') \<Longrightarrow> py_err s = None \<Longrightarrow> \<forall>b. v \<noteq> PyBytes b \<Longrightarrow> ended s w s'"
  by (auto simp: py_return_def ended_def)

lemma ended_failure:
  "py_failure r x d s = Some (w, d', s') \<Longrightarrow> \<forall>n. x \<noteq> FromPython n \<Longrightarrow>
     r = DC_FAILURE \<or> py_err s = None \<Longrightarrow> ended s w s'"
  by (auto simp: ended_def from_python_def dest!: py_failure_cases split: if_splits)

lemma ended_except:
  "py_except False d (py_set x s) = Some (w, d', s') \<Longrightarrow> \<forall>n. x \<noteq> FromPython n \<Longrightarrow>
     py_err s = None \<Longrightarrow> ended s w s'"
  by (auto simp: ended_def from_python_def py_except_def)

lemma connect_ended:
  assumes "method_connect obj d s = Some (v, d', s')"
  obtains r d1 s1 s2 where "api_run (Dc_Py_BridgeThreadingMethods obj) Connect d (py_incref Self s)
      = Some (r, d1, s1)" "ended s1 v s2" "s' = py_decref Self s2"
proof -
  obtain r d1 s1 where call: "api_run (Dc_Py_BridgeThreadingMethods obj) Connect d (py_incref Self s)
      = Some (r, d1, s1)"
    using assms by (auto simp: method_connect_def py_finally_def bind_eq_Some_conv split: if_splits)
  then obtain s2 where s2: "s' = py_decref Self s2"
    "(case r of DC_OK \<Rightarrow> py_return Py_True d1 s1 | DC_NOT_CONNECTED \<Rightarrow> py_return Py_False d1 s1
       | _ \<Rightarrow> py_failure r PyExc_RuntimeError d1 s1) = Some (v, d', s2)"
    using assms by (auto simp: method_connect_def py_finally_def split: if_splits)
  have "ended s1 v s2"
    using s2(2) api_refs [OF call]
    by (cases r) (auto intro: ended_return ended_failure)
  then show ?thesis using that call s2(1) by blast
qed

lemma disconnect_ended:
  assumes "method_disconnect obj d s = Some (v, d', s')"
  obtains r d1 s1 s2 where "api_run (Dc_Py_BridgeThreadingMethods obj) Disconnect d (py_incref Self s)
      = Some (r, d1, s1)" "ended s1 v s2" "s' = py_decref Self s2"
proof -
  obtain r d1 s1 where call: "api_run (Dc_Py_BridgeThreadingMethods obj) Disconnect d (py_incref Self s)
      = Some (r, d1, s1)"
    using assms by (auto simp: method_disconnect_def py_finally_def bind_eq_Some_conv split: if_splits)
  then obtain s2 where s2: "s' = py_decref Self s2"
    "(let s = py_incref Result s1 in
        if r = DC_FAILURE \<and> py_err s \<noteq> None then py_except True d1 s
        else if r \<noteq> DC_OK then py_except True d1 (py_set PyExc_RuntimeError s)
        else Some (Some Py_None, d1, s)) = Some (v, d', s2)"
    using assms by (auto simp: method_disconnect_def py_finally_def split: if_splits)
  have "ended s1 v s2"
    using s2(2) api_refs [OF call]
    by (cases "r = DC_OK")
      (auto simp: ended_def py_except_def Let_def from_python_def split: if_splits)
  then show ?thesis using that call s2(1) by blast
qed

lemma send_ended:
  assumes "method_sendMessage obj args d s = Some (v, d', s')"
  obtains (parse) "v = None" "py_err s' = Some PyExc_TypeError" "refs s' = refs s" "world s' = world s"
    | (call) data r d1 s1 s2 where "api_run (Dc_Py_BridgeThreadingMethods obj)
        (Send (Some data) (length data)) d (py_incref Data (py_incref Args (py_incref Self s)))
      = Some (r, d1, s1)" "ended s1 v s2" "s' = py_decref Args (py_decref Data (py_decref Self s2))"
proof (cases args)
  case None
  then show ?thesis
    using assms by (intro parse)
      (auto simp: method_sendMessage_def py_finally_def py_except_def fun_eq_iff split: if_splits)
next
  case (Some data)
  let ?s = "py_incref Data (py_incref Args (py_incref Self s))"
  obtain r d1 s1 where call1: "api_run (Dc_Py_BridgeThreadingMethods obj)
      (Send (Some data) (length data)) d ?s = Some (r, d1, s1)"
    using assms Some
    by (auto simp: method_sendMessage_def py_finally_def bind_eq_Some_conv split: if_splits)
  then obtain s2 where s2: "s' = py_decref Args (py_decref Data (py_decref Self s2))"
    "(case r of DC_OK \<Rightarrow> py_return Py_None d1 s1
       | DC_NOT_CONNECTED \<Rightarrow> py_except False d1 (py_set PyExc_BrokenPipeError s1)
       | DC_LINK_RESET \<Rightarrow> py_except False d1 (py_set PyExc_ConnectionError s1)
       | DC_FAILURE \<Rightarrow> py_failure r PyExc_RuntimeError d1 s1) = Some (v, d', s2)"
    using assms Some by (auto simp: method_sendMessage_def py_finally_def split: if_splits)
  have "ended s1 v s2"
    using s2(2) api_refs [OF call1]
    by (cases r) (auto intro: ended_return ended_failure ended_except)
  then show ?thesis using call call1 s2(1) by blast
qed

lemma process_ended:
  assumes "method_processData obj args d s = Some (v, d', s')" "py_err s = None"
  obtains (empty) "v = Some Py_None" "py_err s' = None"
      "refs s' = (refs s)(Args := refs s Args - 1, Result := refs s Result + 1)" "world s' = world s"
    | (call) data r d1 s1 s2 where "api_run (Dc_Py_BridgeThreadingMethods obj)
        (Process (Some data) (length data)) d (py_incref Data (py_incref Self s))
      = Some (r, d1, s1)" "ended s1 v s2" "s' = py_decref Self (py_decref Args (py_decref Data s2))"
proof -
  obtain data where data: "args = Some data"
    using assms(1) by (cases args) (auto simp: method_processData_def)
  note err = assms(2)
  show ?thesis
  proof (cases "data = []")
    case True
    then show ?thesis
      using assms data err by (intro empty)
        (auto simp: method_processData_def py_finally_def py_return_def fun_eq_iff)
  next
    case False
    let ?s = "py_incref Data (py_incref Self s)"
    obtain r d1 s1 where call1: "api_run (Dc_Py_BridgeThreadingMethods obj)
        (Process (Some data) (length data)) d ?s = Some (r, d1, s1)"
      using assms data err False
      by (auto simp: method_processData_def py_finally_def bind_eq_Some_conv)
    then obtain s2 where s2: "s' = py_decref Self (py_decref Args (py_decref Data s2))"
      "(if r = DC_OK then py_return Py_None d1 s1 else py_failure r PyExc_TypeError d1 s1)
         = Some (v, d', s2)"
      using assms data err False
      by (auto simp: method_processData_def py_finally_def)
    have "ended s1 v s2"
      using s2(2) api_refs [OF call1]
      by (auto intro: ended_return ended_failure split: if_splits)
    then show ?thesis using call call1 s2(1) by blast
  qed
qed

definition called :: "'p py_methods \<Rightarrow> 'p py_state \<Rightarrow> DeadcomL2Result \<Rightarrow> 'p py_state \<Rightarrow> bool" where
  "called obj s r s' \<longleftrightarrow>
     (\<forall>waits sends f. locked_section (Dc_Py_BridgeThreadingMethods obj)
        (refs_kept obj waits sends f) s r s') \<and>
     (\<forall>held. locked_section (Dc_Py_BridgeThreadingMethods obj) (locked_by_python obj held) s r s')"

lemma api_called:
  "api_run (Dc_Py_BridgeThreadingMethods obj) call d s = Some (r, d', s') \<Longrightarrow> called obj s r s'"
  using kept_refs.api_section kept_lock.api_section by (auto simp: called_def)

lemma receive_called:
  "dcGetReceivedMsg (Dc_Py_BridgeThreadingMethods obj) (Some d) b n s = Some (r, b', n', d', s') \<Longrightarrow>
     called obj s r s'"
  using kept_refs.receive_section kept_lock.receive_section by (auto simp: called_def)

lemma fetch_ended:
  assumes "getMessage_fetch obj n d s = Some (v, d', s')"
  obtains r s1 where "called obj s r s1"
      "ended s1 v s' \<or> r = DC_OK \<and> (\<exists>m w. v = Some (PyBytes m) \<and>
         bytes_from obj m (world s1) = (None, w) \<and>
         s' = py_incref Result (py_incref Result (s1\<lparr>world := w\<rparr>)))"
proof -
  obtain r b k d1 s1 where call: "dcGetReceivedMsg (Dc_Py_BridgeThreadingMethods obj) (Some d)
      (Some (replicate n 0)) (Some n) s = Some (r, b, k, d1, s1)"
    using assms by (auto simp: getMessage_fetch_def bind_eq_Some_conv)
  have "ended s1 v s' \<or> r = DC_OK \<and> (\<exists>m w. v = Some (PyBytes m) \<and>
         bytes_from obj m (world s1) = (None, w) \<and>
         s' = py_incref Result (py_incref Result (s1\<lparr>world := w\<rparr>)))"
  proof (cases "r = DC_OK")
    case True
    then obtain m where m: "(case bytes_from obj m (world s1) of (Some x, w) \<Rightarrow> None
        | (None, w) \<Rightarrow> py_return (PyBytes m) (the d1) (py_incref Result (s1\<lparr>world := w\<rparr>)))
        = Some (v, d', s')"
      using assms call by (auto simp: getMessage_fetch_def bind_eq_Some_conv)
    obtain x w where "bytes_from obj m (world s1) = (x, w)" by fastforce
    then show ?thesis using m True by (cases x) (auto simp: py_return_def)
  next
    case False
    then show ?thesis
      using assms call receive_refs [OF call]
      by (cases r) (auto simp: getMessage_fetch_def Let_def intro: ended_return ended_failure)
  qed
  then show ?thesis using that receive_called [OF call] by blast
qed

lemma get_ended:
  assumes "method_getMessage obj others d s = Some (v, d', s')"
  obtains r d1 s1 s2 where "called obj (py_incref Self s) r s1" "s' = py_decref Self s2"
      "ended s1 v s2 \<or> r \<noteq> DC_FAILURE \<and> (\<exists>k. getMessage_fetch obj k (others d1) s1 = Some (v, d', s2))"
proof -
  obtain r b n d1 s1 where call: "dcGetReceivedMsg (Dc_Py_BridgeThreadingMethods obj) (Some d) None
      (Some 0) (py_incref Self s) = Some (r, b, n, d1, s1)"
    using assms by (auto simp: method_getMessage_def py_finally_def bind_eq_Some_conv split: if_splits)
  then obtain s2 where s2: "s' = py_decref Self s2"
    "(case r of DC_NOT_CONNECTED \<Rightarrow> py_return Py_None (the d1) s1
       | DC_FAILURE \<Rightarrow> py_failure r PyExc_RuntimeError (the d1) s1
       | _ \<Rightarrow> if n = Some 0 then py_return Py_None (the d1) s1
             else Option.bind n (\<lambda>n. getMessage_fetch obj n (others (the d1)) s1)) = Some (v, d', s2)"
    using assms by (auto simp: method_getMessage_def py_finally_def Let_def split: if_splits)
  have "ended s1 v s2 \<or> r \<noteq> DC_FAILURE \<and> (\<exists>k. getMessage_fetch obj k (others (the d1)) s1 = Some (v, d', s2))"
    using s2(2) receive_refs [OF call]
    by (cases r) (auto simp: bind_eq_Some_conv intro: ended_return ended_failure split: if_splits)
  then show ?thesis using that receive_called [OF call] s2(1) by blast
qed

text \<open>What a method does to the error indicator and the world, in one view.\<close>

lemma called_success: "called obj s r s' \<Longrightarrow> r \<noteq> DC_FAILURE \<Longrightarrow> py_err s' = None"
  using section_refs [OF _ refs_kept_refl, of obj "\<lambda>_. 0" "\<lambda>_. 0" s r s'] by (auto simp: called_def)

lemma called_lock:
  assumes "called obj s r s'" "real_mutex obj held" "py_err s = None" "\<not> held (world s)"
  shows "from_python s' \<and> (held (world s') \<longleftrightarrow> py_err s' \<noteq> None)"
  using assms by (intro section_lock) (auto simp: called_def)

definition same_view :: "'p py_state \<Rightarrow> 'p py_state \<Rightarrow> bool" where
  "same_view s s' \<longleftrightarrow> py_err s' = py_err s \<and> world s' = world s"

lemma py_run_view:
  assumes "py_run obj call d s = Some (v, d', s')" "py_err s = None"
  obtains (none) "world s' = world s" "v = None \<longleftrightarrow> py_err s' \<noteq> None" "\<And>n. py_err s' \<noteq> Some (FromPython n)"
    | (one) s0 r s1 s2 where "same_view s s0" "called obj s0 r s1" "ended s1 v s2" "same_view s2 s'"
    | (two) s0 r s1 r' s2 m where "same_view s s0" "called obj s0 r s1" "r \<noteq> DC_FAILURE"
        "called obj s1 r' s2" "r' = DC_OK" "v \<noteq> None" "py_err s' = py_err s2"
        "bytes_from obj m (world s2) = (None, world s')"
    | (retry) s0 r s1 r' s2 s3 where "same_view s s0" "called obj s0 r s1" "r \<noteq> DC_FAILURE"
        "called obj s1 r' s2" "ended s2 v s3" "same_view s3 s'"
proof (cases call)
  case PyConnect
  then have "method_connect obj d s = Some (v, d', s')" using assms(1) by simp
  then show ?thesis
    by (rule connect_ended) (rule one [OF _ api_called, rotated], assumption, assumption, auto simp: same_view_def)
next
  case PyDisconnect
  then have "method_disconnect obj d s = Some (v, d', s')" using assms(1) by simp
  then show ?thesis
    by (rule disconnect_ended) (rule one [OF _ api_called, rotated], assumption, assumption, auto simp: same_view_def)
next
  case (PySendMessage args)
  then have "method_sendMessage obj args d s = Some (v, d', s')" using assms(1) by simp
  then show ?thesis
  proof (cases rule: send_ended)
    case parse
    then show ?thesis by (intro none) auto
  next
    case (call data r d1 s1 s2)
    then show ?thesis
      by - (rule one [OF _ api_called, rotated], assumption, assumption, auto simp: same_view_def)
  qed
next
  case (PyProcessData args)
  then have "method_processData obj args d s = Some (v, d', s')" using assms(1) by simp
  then show ?thesis
    using assms(2)
  proof (cases rule: process_ended)
    case empty
    then show ?thesis by (intro none) auto
  next
    case (call data r d1 s1 s2)
    then show ?thesis
      by - (rule one [OF _ api_called, rotated], assumption, assumption, auto simp: same_view_def)
  qed
next
  case (PyGetMessage others)
  then have "method_getMessage obj others d s = Some (v, d', s')" using assms(1) by simp
  then obtain r d1 s1 s2 where
    first: "called obj (py_incref Self s) r s1" and s2: "s' = py_decref Self s2"
    and rest: "ended s1 v s2 \<or>
      r \<noteq> DC_FAILURE \<and> (\<exists>k. getMessage_fetch obj k (others d1) s1 = Some (v, d', s2))"
    by (rule get_ended)
  have view: "same_view s (py_incref Self s)" "same_view s2 s'" by (auto simp: same_view_def s2)
  show ?thesis
  proof (cases "ended s1 v s2")
    case True
    then show ?thesis using one first view by blast
  next
    case False
    then obtain k where r: "r \<noteq> DC_FAILURE"
      and fetch: "getMessage_fetch obj k (others d1) s1 = Some (v, d', s2)"
      using rest by blast
    obtain r' s3 where second: "called obj s1 r' s3"
      and fin: "ended s3 v s2 \<or> r' = DC_OK \<and> (\<exists>m w. v = Some (PyBytes m) \<and>
         bytes_from obj m (world s3) = (None, w) \<and>
         s2 = py_incref Result (py_incref Result (s3\<lparr>world := w\<rparr>)))"
      using fetch by (rule fetch_ended)
    show ?thesis
    proof (cases "ended s3 v s2")
      case True
      then show ?thesis using retry first r second view by blast
    next
      case False
      then obtain m w where "r' = DC_OK" "v = Some (PyBytes m)" "bytes_from obj m (world s3) = (None, w)"
        "s2 = py_incref Result (py_incref Result (s3\<lparr>world := w\<rparr>))"
        using fin by blast
      then show ?thesis using first r second view by (intro two) (auto simp: same_view_def)
    qed
  qed
qed

text \<open>What a run of a method does to the error indicator and to the lock.\<close>

lemma py_run_result:
  assumes "py_run obj call d s = Some (v, d', s')" "py_err s = None"
  shows "v = None \<longleftrightarrow> py_err s' \<noteq> None"
  using assms
proof (cases rule: py_run_view)
  case (two s0 r s1 r' s2 m)
  then show ?thesis using called_success by fastforce
qed (auto simp: ended_def same_view_def)

lemma py_run_lock:
  assumes m: "real_mutex obj held" and s: "py_err s = None" "\<not> held (world s)"
    and run: "py_run obj call d s = Some (v, d', s')"
  shows "held (world s') \<longleftrightarrow> (\<exists>n. py_err s' = Some (FromPython n))"
  using run s(1)
proof (cases rule: py_run_view)
  case none
  then show ?thesis using s by simp
next
  case (one s0 r s1 s2)
  then have "from_python s1 \<and> (held (world s1) \<longleftrightarrow> py_err s1 \<noteq> None)"
    using called_lock [OF one(2) m] s by (simp add: same_view_def)
  then show ?thesis using one(3,4) by (auto simp: ended_def same_view_def from_python_def)
next
  case (two s0 r s1 r' s2 b)
  then have "py_err s1 = None" "\<not> held (world s1)"
    using called_lock [OF two(2) m] called_success [OF two(2)] s by (auto simp: same_view_def)
  then have "py_err s2 = None" "\<not> held (world s2)"
    using called_lock [OF two(4) m] called_success [OF two(4)] two(5) by auto
  then show ?thesis using two(7) real_mutexD(6) [OF m two(8)] by simp
next
  case (retry s0 r s1 r' s2 s3)
  then have "py_err s1 = None" "\<not> held (world s1)"
    using called_lock [OF retry(2) m] called_success [OF retry(2)] s by (auto simp: same_view_def)
  then have "from_python s2 \<and> (held (world s2) \<longleftrightarrow> py_err s2 \<noteq> None)"
    using called_lock [OF retry(4) m] by blast
  then show ?thesis using retry(5,6) by (auto simp: ended_def same_view_def from_python_def)
qed

section \<open>Properties\<close>

text \<open>The constructor keeps the same contract, and establishes the invariant of the link.\<close>

lemma constructor_contract:
  assumes "py_err s = None"
    and "Dc_Py_InitDeadcomL2 self_p vmt_p transmit_p old d args s = (k, obj, d', s')"
  shows "(k = 0 \<longleftrightarrow> py_err s' = None) \<and> (k = 0 \<or> k = -1) \<and> (k = 0 \<longrightarrow> link_inv d')"
proof (cases args)
  case None
  then show ?thesis using assms(2) by (auto simp: Dc_Py_InitDeadcomL2_def)
next
  case (Some a)
  obtain callable new where a: "a = (callable, new)" by fastforce
  obtain r d1 s1 where init: "dcInit (Dc_Py_BridgeThreadingMethods new) (Some d) (Some self_p)
      (Some self_p) (Some vmt_p) (Some transmit_p) (Some self_p) s = (r, d1, s1)"
    using prod_cases3 by blast
  have ok: "py_err s1 = None" if "r = DC_OK"
    using init that assms(1)
    by (auto simp: dcInit_def Let_def bridge_defs split: if_splits prod.splits option.splits)
  have inv: "link_inv (the d1)" if "r = DC_OK"
  proof -
    obtain d2 where "d1 = Some d2" using init that by (auto simp: dcInit_def Let_def split: if_splits prod.splits)
    then show ?thesis using dcInit_inv [OF init [unfolded that \<open>d1 = Some d2\<close>]] by simp
  qed
  show ?thesis
    using assms(2) Some a init ok inv
    by (auto simp: Dc_Py_InitDeadcomL2_def Let_def split: if_splits)
qed

text \<open>
  Objects for the examples: the world is whether the lock is held, the transmitting function
  raises or not, and every wait times out.
\<close>

definition sample_methods :: "nat option \<Rightarrow> bool py_methods" where
  "sample_methods raised =
     \<lparr>tvmt_mutexInit = \<lambda>w. (None, w), tvmt_mutexLock = \<lambda>w. (None, True),
      tvmt_mutexUnlock = \<lambda>w. (None, False), tvmt_condvarInit = \<lambda>w. (None, w),
      tvmt_condvarWait = \<lambda>ms d w. (Inr (Truth True), d, w), tvmt_condvarSignal = \<lambda>w. (None, w),
      transmitFunction = \<lambda>b w. (raised, w), bytes_from = \<lambda>b w. (None, w)\<rparr>"

definition idle_state :: "bool py_state" where
  "idle_state = \<lparr>py_err = None, refs = \<lambda>_. 1, world = False\<rparr>"

lemma sample_mutex: "real_mutex (sample_methods r) (\<lambda>w. w)"
  by (auto simp: real_mutex_def sample_methods_def)

lemma sample_raise:
  "\<exists>d' s'. py_run (sample_methods (Some 7)) PyConnect dc_zero idle_state = Some (None, d', s') \<and>
     py_err s' = Some (FromPython 7)"
  by (simp add: method_connect_def dcConnect_def dc_zero_def bridge_defs sample_methods_def
      idle_state_def build_conn Let_def leave_def py_failure_def py_except_def py_finally_def)

lemma connect_returns: "api_run (Dc_Py_BridgeThreadingMethods obj) Connect d s \<noteq> None"
proof -
  have wait: "t \<noteq> None" if "condvarWait (Dc_Py_BridgeThreadingMethods obj) p ms (Some b) d s = (w, t, d', s')"
    for p ms b d s w t d' s'
    using that by (auto simp: bridge_defs Let_def split: if_splits prod.splits sum.splits)
  show ?thesis
    by (auto simp: dcConnect_def build_conn Let_def leave_def connect_finish_def dest!: wait
        split: prod.split)
qed

lemma disconnect_returns: "api_run (Dc_Py_BridgeThreadingMethods obj) Disconnect d s \<noteq> None"
  by (auto simp: dcDisconnect_def leave_def split: prod.split)

lemma py_failure_defined: "py_failure r x d s \<noteq> None"
  by (simp add: py_failure_def py_except_def)

text \<open>
  C18.  The contract of the interpreter: started without a pending exception, a method that
  returns gives an object exactly when no exception is pending, and \<open>NULL\<close> exactly when one
  is, whatever the Python objects it calls do: no failing callback is lost between the
  library and the program, every failure of the library is given an exception, and the
  assertions at the label \<open>except\<close> would hold.  \<open>connect\<close> and \<open>disconnect\<close> always return.
\<close>

theorem python_contract:
  assumes "py_err s = None"
  shows "(\<forall>v d' s'. py_run obj call d s = Some (v, d', s') \<longrightarrow> (v = None \<longleftrightarrow> py_err s' \<noteq> None)) \<and>
    (call = PyConnect \<or> call = PyDisconnect \<longrightarrow> py_run obj call d s \<noteq> None)"
proof (intro conjI allI impI)
  fix v d' s'
  assume "py_run obj call d s = Some (v, d', s')"
  then show "v = None \<longleftrightarrow> py_err s' \<noteq> None"
    using assms by (rule py_run_result)
next
  assume "call = PyConnect \<or> call = PyDisconnect"
  then show "py_run obj call d s \<noteq> None"
    using connect_returns [of obj d "py_incref Self s"] disconnect_returns [of obj d "py_incref Self s"]
      assms py_failure_defined
    by (auto simp: method_connect_def method_disconnect_def py_finally_def py_return_def
        py_except_def Let_def split: DeadcomL2Result.split)
qed

theorem python_contract_witness:
  "\<exists>d' s'. py_run (sample_methods (Some 7)) PyConnect dc_zero idle_state = Some (None, d', s') \<and>
     py_err s' \<noteq> None"
proof -
  obtain d' s' where run: "py_run (sample_methods (Some 7)) PyConnect dc_zero idle_state = Some (None, d', s')"
    using sample_raise by blast
  have "(None :: py_value option) = None \<longleftrightarrow> py_err s' \<noteq> None"
    using python_contract [of idle_state "sample_methods (Some 7)" PyConnect dc_zero] run
    by (simp add: idle_state_def)
  then show ?thesis using run by blast
qed


text \<open>
  C16.  Exceptions and the mutex.  With a Python lock that works, a method started with the
  mutex free leaves it locked exactly when it ends with an exception that came out of a
  Python object: the bridge refuses to call the unlocking function while that exception is
  pending.  The next call that locks then waits for ever.
\<close>

theorem exception_leaves_mutex_locked:
  assumes m: "real_mutex obj held" and s: "py_err s = None" "\<not> held (world s)"
    and run: "py_run obj call d s = Some (v, d', s')"
  shows "held (world s') \<longleftrightarrow> (\<exists>n. py_err s' = Some (FromPython n))"
  by (rule py_run_lock [OF assms])





text \<open>The transmitting function raises, and the lock stays taken.\<close>

theorem exception_leaves_mutex_locked_witness:
  "\<exists>d' s'. py_run (sample_methods (Some 7)) PyConnect dc_zero idle_state = Some (None, d', s') \<and>
     world s'"
proof -
  obtain d' s' where run: "py_run (sample_methods (Some 7)) PyConnect dc_zero idle_state = Some (None, d', s')"
    and x: "py_err s' = Some (FromPython 7)"
    using sample_raise by blast
  have "world s' \<longleftrightarrow> (\<exists>n. py_err s' = Some (FromPython n))"
    by (rule exception_leaves_mutex_locked [OF sample_mutex _ _ run]) (simp_all add: idle_state_def)
  then show ?thesis using run x by blast
qed





text \<open>
  C38.  \<open>getMessage\<close> asks for the length, gives up the mutex and then receives into an array
  of that length: when another thread replaces the pending message by a longer one in
  between (the link is reset, reconnects and a message arrives), the message is copied over
  the end of the array.
\<close>

theorem getMessage_overflows:
  assumes "py_err s = None"
    and "tvmt_mutexLock obj (world s) = (None, w1)" "tvmt_mutexUnlock obj w1 = (None, w2)"
    and "tvmt_mutexLock obj w2 = (None, w3)"
    and "state d = DC_CONNECTED" "extractionComplete d" "size_of_int16 (extractionBufferSize d) = n" "0 < n"
    and "state (others d) = DC_CONNECTED" "extractionComplete (others d)"
    and "n < size_of_int16 (extractionBufferSize (others d))"
  shows "method_getMessage obj others d s = None"
proof -
  obtain s1 where first: "dcGetReceivedMsg (Dc_Py_BridgeThreadingMethods obj) (Some d) None (Some 0)
      (py_incref Self s) = Some (DC_OK, None, Some n, Some d, s1)" "py_err s1 = None" "world s1 = w2"
    using assms(1-3,5-7) by (simp add: dcGetReceivedMsg_def bridge_defs Let_def)
  have "getMessage_fetch obj n (others d) s1 = None"
    using first(2,3) assms(4,9-11)
    by (simp add: getMessage_fetch_def dcGetReceivedMsg_def bridge_defs Let_def buf_copy_def)
  then show ?thesis
    using first assms(1,8) by (simp add: method_getMessage_def py_finally_def)
qed

theorem getMessage_overflows_witness:
  "method_getMessage (sample_methods None) (\<lambda>d. d\<lparr>extractionBufferSize := 5\<rparr>)
     (dc_zero\<lparr>state := DC_CONNECTED, extractionComplete := True, extractionBufferSize := 2\<rparr>)
     idle_state = None"
  by (rule getMessage_overflows [where ?w1.0 = True and ?w2.0 = False and ?w3.0 = True and n = 2])
    (simp_all add: idle_state_def sample_methods_def size_of_int16_def)

end
