(* ===== verification/Dcl2_PyObject.thy ===== *)
theory Dcl2_PyObject
  imports Dcl2_Python
begin

text \<open>
  The life of a Python link object, \<open>dcl2/py3-bindings/dcl2/_dcl2_type.c\<close>: allocation, the
  nine objects its constructor stores, and release, over the reference counts of all objects;
  the method table of \<open>_dcl2_type_methods.c\<close> and the type; and the initialisation of the
  module, \<open>_dcl2_module.c\<close>.  \<open>Dcl2_Python\<close> models what the
  constructor does after it has stored them.
\<close>

section \<open>References\<close>

text \<open>
  An object is an address.  It is alive while references to it exist; taking a reference to
  a dead object, or giving one back, is undefined.
\<close>

type_synonym ref_counts = "nat \<Rightarrow> nat"

definition Py_INCREF :: "nat \<Rightarrow> ref_counts \<Rightarrow> ref_counts option" where
  "Py_INCREF obj rc = (if rc obj = 0 then None else Some (rc(obj := rc obj + 1)))"

definition Py_XDECREF :: "nat option \<Rightarrow> ref_counts \<Rightarrow> ref_counts option" where
  "Py_XDECREF p rc =
     (case p of None \<Rightarrow> Some rc
      | Some obj \<Rightarrow> if rc obj = 0 then None else Some (rc(obj := rc obj - 1)))"

section \<open>The object\<close>

text \<open>The nine members of \<open>Dc_Py_ObjDeadcomL2\<close> that hold Python objects.\<close>

datatype py_member =
    Py_mutex | Py_condvar | Py_transmitFunction | Py_mutexInit | Py_mutexLock | Py_mutexUnlock
  | Py_condvarInit | Py_condvarWait | Py_condvarSignal

type_synonym py_members = "py_member \<Rightarrow> nat option"

text \<open>The order of \<open>Dc_Py_NewDeadcomL2\<close>, the constructor and \<open>Dc_Py_DeallocDeadcomL2\<close>.\<close>

definition members :: "py_member list" where
  "members = [Py_mutex, Py_condvar, Py_transmitFunction, Py_mutexInit, Py_mutexLock,
     Py_mutexUnlock, Py_condvarInit, Py_condvarWait, Py_condvarSignal]"

text \<open>The macros \<open>Dc_Py_Helper_PresetToPyNone\<close> and \<open>Dc_Py_Helper_InitAssignArgIfAny\<close>.\<close>

definition preset_none ::
  "nat \<Rightarrow> py_member \<Rightarrow> py_members \<times> ref_counts \<Rightarrow> (py_members \<times> ref_counts) option" where
  "preset_none none f = (\<lambda>(ms, rc). do {
     let ms = ms(f \<mapsto> none);
     rc \<leftarrow> Py_INCREF none rc;
     Some (ms, rc)
   })"

definition assign_arg ::
  "(py_member \<Rightarrow> nat) \<Rightarrow> py_member \<Rightarrow> py_members \<times> ref_counts \<Rightarrow> (py_members \<times> ref_counts) option" where
  "assign_arg src f = (\<lambda>(ms, rc).
     if ms f = None then Some (ms, rc)
     else do {
       let tmp = ms f;
       rc \<leftarrow> Py_INCREF (src f) rc;
       let ms = ms(f \<mapsto> src f);
       rc \<leftarrow> Py_XDECREF tmp rc;
       Some (ms, rc)
     })"

fun each :: "('a \<Rightarrow> 's \<Rightarrow> 's option) \<Rightarrow> 'a list \<Rightarrow> 's \<Rightarrow> 's option" where
  "each f [] s = Some s"
| "each f (x # xs) s = Option.bind (f x s) (each f xs)"

text \<open>
  \<open>alloc\<close> says whether \<open>tp_alloc\<close>, which zeroes the members, succeeds; \<open>none\<close> is the address of
  \<open>Py_None\<close>.
\<close>

definition Dc_Py_NewDeadcomL2 ::
  "nat \<Rightarrow> bool \<Rightarrow> ref_counts \<Rightarrow> (py_members option \<times> ref_counts) option" where
  "Dc_Py_NewDeadcomL2 none alloc rc =
     (if \<not> alloc then Some (None, rc)
      else map_option (\<lambda>(ms, rc). (Some ms, rc)) (each (preset_none none) members (\<lambda>_. None, rc)))"

text \<open>
  Arguments 3 to 9 have to be callable.  The macro returns from the constructor at the first
  that is not, with its number in the message of the \<open>TypeError\<close>: here the number raised.
\<close>

definition Dc_Py_Helper_RaiseIfNotCallable :: "(nat \<Rightarrow> bool) \<Rightarrow> nat \<Rightarrow> nat \<Rightarrow> nat option" where
  "Dc_Py_Helper_RaiseIfNotCallable callable obj arg_no =
     (if callable obj then None else Some arg_no)"

fun first_raised :: "nat option list \<Rightarrow> nat option" where
  "first_raised [] = None"
| "first_raised (Some n # _) = Some n"
| "first_raised (None # rs) = first_raised rs"

definition callable_error :: "(nat \<Rightarrow> bool) \<Rightarrow> (py_member \<Rightarrow> nat) \<Rightarrow> nat option" where
  "callable_error callable src =
     first_raised
       [Dc_Py_Helper_RaiseIfNotCallable callable (src Py_mutexInit) 3,
        Dc_Py_Helper_RaiseIfNotCallable callable (src Py_mutexLock) 4,
        Dc_Py_Helper_RaiseIfNotCallable callable (src Py_mutexUnlock) 5,
        Dc_Py_Helper_RaiseIfNotCallable callable (src Py_condvarInit) 6,
        Dc_Py_Helper_RaiseIfNotCallable callable (src Py_condvarWait) 7,
        Dc_Py_Helper_RaiseIfNotCallable callable (src Py_condvarSignal) 8,
        Dc_Py_Helper_RaiseIfNotCallable callable (src Py_transmitFunction) 9]"

definition arguments_callable :: "(nat \<Rightarrow> bool) \<Rightarrow> (py_member \<Rightarrow> nat) \<Rightarrow> bool" where
  "arguments_callable callable src \<longleftrightarrow> callable_error callable src = None"

text \<open>The link's objects 1 and 2, the mutex and the condition variable, may be anything.\<close>

lemma arguments_callable_iff:
  "arguments_callable callable src \<longleftrightarrow>
     (\<forall>f\<in>set [Py_mutexInit, Py_mutexLock, Py_mutexUnlock, Py_condvarInit, Py_condvarWait,
        Py_condvarSignal, Py_transmitFunction]. callable (src f))"
  by (simp add: arguments_callable_def callable_error_def Dc_Py_Helper_RaiseIfNotCallable_def)

text \<open>
  The constructor up to the call of \<open>dcInit\<close> (lines 59 to 87): \<open>args\<close> is \<open>None\<close> when the tuple
  does not have nine objects.  The result is \<open>False\<close> where it returns -1 with \<open>TypeError\<close>.
\<close>

definition init_members ::
  "(nat \<Rightarrow> bool) \<Rightarrow> (py_member \<Rightarrow> nat) option \<Rightarrow> py_members \<times> ref_counts
     \<Rightarrow> (bool \<times> py_members \<times> ref_counts) option" where
  "init_members callable args s =
     (case args of
        None \<Rightarrow> Some (False, s)
      | Some src \<Rightarrow>
          if \<not> arguments_callable callable src
          then Some (False, s)
          else map_option (Pair True) (each (assign_arg src) members s))"

definition Dc_Py_DeallocDeadcomL2 :: "py_members \<Rightarrow> ref_counts \<Rightarrow> ref_counts option" where
  "Dc_Py_DeallocDeadcomL2 ms rc = each (\<lambda>f. Py_XDECREF (ms f)) members rc"

section \<open>The method table\<close>

datatype py_flags = METH_NOARGS | METH_VARARGS

record PyMethodDef =
  ml_name :: string
  ml_meth :: "byte list option \<Rightarrow> py_call"
  ml_flags :: py_flags
  ml_doc :: string

text \<open>\<open>others\<close> is what other threads do between the two calls \<open>getMessage\<close> makes.\<close>

definition Dc_Py_MethodsDeadcomL2 :: "(DeadcomL2 \<Rightarrow> DeadcomL2) \<Rightarrow> PyMethodDef list" where
  "Dc_Py_MethodsDeadcomL2 others =
     [\<lparr>ml_name = ''connect'', ml_meth = \<lambda>_. PyConnect, ml_flags = METH_NOARGS,
       ml_doc = ''Try to establish a connection with the other size''\<rparr>,
      \<lparr>ml_name = ''disconnect'', ml_meth = \<lambda>_. PyDisconnect, ml_flags = METH_NOARGS,
       ml_doc = ''Disconnect link''\<rparr>,
      \<lparr>ml_name = ''sendMessage'', ml_meth = PySendMessage, ml_flags = METH_VARARGS,
       ml_doc = ''Send a message over open link''\<rparr>,
      \<lparr>ml_name = ''getMessage'', ml_meth = \<lambda>_. PyGetMessage others, ml_flags = METH_NOARGS,
       ml_doc = ''Get received message''\<rparr>,
      \<lparr>ml_name = ''processData'', ml_meth = PyProcessData, ml_flags = METH_VARARGS,
       ml_doc = ''Process incoming data''\<rparr>]"

text \<open>
  A call by name: the interpreter looks the name up in the table of the type and refuses
  arguments of a method that takes none.  Parsing the tuple with the format \<open>S\<close> succeeds
  for one \<open>bytes\<close> object.
\<close>

datatype py_arg = ArgBytes "byte list" | ArgOther

fun parse_bytes :: "py_arg list \<Rightarrow> byte list option" where
  "parse_bytes [ArgBytes b] = Some b"
| "parse_bytes _ = None"

definition call_method ::
  "'p py_methods \<Rightarrow> (DeadcomL2 \<Rightarrow> DeadcomL2) \<Rightarrow> string \<Rightarrow> py_arg list \<Rightarrow> DeadcomL2 \<Rightarrow> 'p py_state
     \<Rightarrow> 'p py_result" where
  "call_method obj others name args d s =
     (case find (\<lambda>m. ml_name m = name) (Dc_Py_MethodsDeadcomL2 others) of
        None \<Rightarrow> Some (None, d, py_set PyExc_AttributeError s)
      | Some m \<Rightarrow>
          if ml_flags m = METH_NOARGS \<and> args \<noteq> [] then Some (None, d, py_set PyExc_TypeError s)
          else py_run obj (ml_meth m (parse_bytes args)) d s)"

section \<open>The type and the module\<close>

text \<open>
  The type object with its slots.  The interpreter calls a type by allocating an object and
  running the constructor on it (\<open>link_ok\<close> is the outcome of the call of \<open>dcInit\<close> in it); when
  that fails the object is released.
\<close>

record py_type =
  tp_name :: string
  tp_doc :: string
  tp_itemsize :: nat
  tp_basetype :: bool
  tp_new :: "nat \<Rightarrow> bool \<Rightarrow> ref_counts \<Rightarrow> (py_members option \<times> ref_counts) option"
  tp_init :: "(nat \<Rightarrow> bool) \<Rightarrow> (py_member \<Rightarrow> nat) option \<Rightarrow> py_members \<times> ref_counts
    \<Rightarrow> (bool \<times> py_members \<times> ref_counts) option"
  tp_dealloc :: "py_members \<Rightarrow> ref_counts \<Rightarrow> ref_counts option"
  tp_methods :: "(DeadcomL2 \<Rightarrow> DeadcomL2) \<Rightarrow> PyMethodDef list"

definition Dc_Py_TypeDeadcomL2 :: py_type where
  "Dc_Py_TypeDeadcomL2 =
     \<lparr>tp_name = ''_dcl2.DeadcomL2'', tp_doc = ''Deadcom Layer 2'', tp_itemsize = 0, tp_basetype = True,
      tp_new = Dc_Py_NewDeadcomL2, tp_init = init_members, tp_dealloc = Dc_Py_DeallocDeadcomL2,
      tp_methods = Dc_Py_MethodsDeadcomL2\<rparr>"

definition type_call ::
  "py_type \<Rightarrow> nat \<Rightarrow> bool \<Rightarrow> (nat \<Rightarrow> bool) \<Rightarrow> (py_member \<Rightarrow> nat) option \<Rightarrow> bool \<Rightarrow> ref_counts
     \<Rightarrow> (py_members option \<times> ref_counts) option" where
  "type_call ty none alloc callable args link_ok rc = do {
     (obj, rc) \<leftarrow> tp_new ty none alloc rc;
     (case obj of
        None \<Rightarrow> Some (None, rc)
      | Some ms \<Rightarrow> do {
          (ok, ms, rc) \<leftarrow> tp_init ty callable args (ms, rc);
          if ok \<and> link_ok then Some (Some ms, rc)
          else map_option (Pair None) (tp_dealloc ty ms rc)
        })
   }"

text \<open>
  The module: \<open>type_p\<close> is the address of the type object; \<open>ready\<close>, \<open>module\<close> and \<open>added\<close> are the
  results of \<open>PyType_Ready\<close>, \<open>PyModule_Create\<close> and \<open>PyModule_AddObject\<close>.  The last takes over
  the reference only when it succeeds, and its result is not looked at: \<open>owned\<close> says whether
  the module has it.
\<close>

definition PyInit_dcl2 ::
  "nat \<Rightarrow> bool \<Rightarrow> nat option \<Rightarrow> bool \<Rightarrow> ref_counts \<Rightarrow> (nat option \<times> bool \<times> ref_counts) option" where
  "PyInit_dcl2 type_p ready module added rc =
     (if \<not> ready then Some (None, False, rc)
      else if module = None then Some (None, False, rc)
      else do {
        rc \<leftarrow> Py_INCREF type_p rc;
        let owned = added;
        Some (module, owned, rc)
      })"

section \<open>What the object holds\<close>

text \<open>How many members hold an object, and counts that are made up of those and the rest.\<close>

definition held :: "py_members \<Rightarrow> nat \<Rightarrow> nat" where
  "held ms obj = length (filter (\<lambda>f. ms f = Some obj) members)"

definition counted :: "ref_counts \<Rightarrow> py_members \<times> ref_counts \<Rightarrow> bool" where
  "counted ext = (\<lambda>(ms, rc). \<forall>obj. rc obj = ext obj + held ms obj)"

text \<open>Between the calls other code takes and gives back references of its own.\<close>

datatype py_life =
    World ref_counts
  | Init "(py_member \<Rightarrow> nat) option"

fun life_run ::
  "(nat \<Rightarrow> bool) \<Rightarrow> py_life list \<Rightarrow> ref_counts \<times> py_members \<times> ref_counts
     \<Rightarrow> (ref_counts \<times> py_members \<times> ref_counts) option" where
  "life_run callable [] s = Some s"
| "life_run callable (World ext' # ops) (ext, ms, rc) =
     life_run callable ops (ext', ms, \<lambda>obj. rc obj - ext obj + ext' obj)"
| "life_run callable (Init args # ops) (ext, s) =
     Option.bind (init_members callable args s) (\<lambda>(ok, s). life_run callable ops (ext, s))"

text \<open>The caller of the constructor holds references to the arguments.\<close>

fun args_alive :: "ref_counts \<Rightarrow> py_life list \<Rightarrow> bool" where
  "args_alive ext [] = True"
| "args_alive ext (World ext' # ops) = args_alive ext' ops"
| "args_alive ext (Init args # ops) =
     ((\<forall>src f. args = Some src \<longrightarrow> 0 < ext (src f)) \<and> args_alive ext ops)"

fun last_world :: "ref_counts \<Rightarrow> py_life list \<Rightarrow> ref_counts" where
  "last_world ext [] = ext"
| "last_world ext (World ext' # ops) = last_world ext' ops"
| "last_world ext (Init args # ops) = last_world ext ops"

lemma members_all [simp]: "set members = UNIV" and members_distinct [simp]: "distinct members"
  by (auto simp: members_def) (metis py_member.exhaust)+

lemma held_update:
  "held (ms(f \<mapsto> new)) obj + (if ms f = Some obj then 1 else 0) = held ms obj + (if new = obj then 1 else 0)"
proof -
  have "length (filter P (xs :: py_member list)) = length (filter (\<lambda>g. g \<noteq> f \<and> P g) xs) + (if P f then 1 else 0)"
    if "distinct xs" "f \<in> set xs" for P xs
    using that
  proof (induction xs)
    case (Cons x xs)
    then show ?case
      by (cases "x = f") (auto intro: arg_cong [where f = length] filter_cong)
  qed simp
  from this [of members "\<lambda>g. ms g = Some obj"] this [of members "\<lambda>g. (ms(f \<mapsto> new)) g = Some obj"]
  have "held ms obj = length (filter (\<lambda>g. g \<noteq> f \<and> ms g = Some obj) members) + (if ms f = Some obj then 1 else 0)"
    and "held (ms(f \<mapsto> new)) obj =
      length (filter (\<lambda>g. g \<noteq> f \<and> (ms(f \<mapsto> new)) g = Some obj) members) + (if new = obj then 1 else 0)"
    by (simp_all add: held_def)
  moreover have "filter (\<lambda>g. g \<noteq> f \<and> (ms(f \<mapsto> new)) g = Some obj) members =
      filter (\<lambda>g. g \<noteq> f \<and> ms g = Some obj) members"
    by (rule filter_cong) auto
  ultimately show ?thesis by simp
qed

lemma held_pos: "ms f = Some obj \<Longrightarrow> 0 < held ms obj"
  by (auto simp: held_def filter_empty_conv)

lemma each_keeps:
  assumes "\<And>x s. x \<in> set xs \<Longrightarrow> I s \<Longrightarrow> \<exists>s'. f x s = Some s' \<and> I s'" and "I s"
  shows "\<exists>s'. each f xs s = Some s' \<and> I s'"
  using assms
proof (induction xs arbitrary: s)
  case (Cons x xs)
  then obtain s1 where "f x s = Some s1" "I s1" by fastforce
  then show ?case using Cons.IH [of s1] Cons.prems(1) by auto
qed simp

lemma assign_arg_counted:
  assumes "counted ext s" "0 < ext (src f)"
  shows "\<exists>s'. assign_arg src f s = Some s' \<and> counted ext s'"
proof -
  obtain ms rc where s: "s = (ms, rc)" by (rule prod.exhaust)
  have rc: "rc obj = ext obj + held ms obj" for obj using assms(1) s by (simp add: counted_def)
  show ?thesis
  proof (cases "ms f")
    case None
    then show ?thesis using assms(1) s by (simp add: assign_arg_def)
  next
    case (Some tmp)
    let ?rc1 = "rc(src f := rc (src f) + 1)"
    let ?rc2 = "?rc1(tmp := ?rc1 tmp - 1)" and ?ms = "ms(f \<mapsto> src f)"
    have pos: "0 < rc tmp" "0 < rc (src f)" using held_pos [of ms f, OF Some] rc assms(2) by simp_all
    have "?rc2 obj = ext obj + held ?ms obj" for obj
      using held_update [of ms f "src f" obj] Some pos rc [of obj] by (auto split: if_splits)
    then show ?thesis
      using pos Some s by (auto simp: assign_arg_def Py_INCREF_def Py_XDECREF_def counted_def)
  qed
qed

lemma init_members_counted:
  assumes "counted ext s" "\<And>src f. args = Some src \<Longrightarrow> 0 < ext (src f)"
  shows "\<exists>ok s'. init_members callable args s = Some (ok, s') \<and> counted ext s' \<and> (\<not> ok \<longrightarrow> s' = s)"
proof (cases args)
  case (Some src)
  have "\<exists>s'. each (assign_arg src) members s = Some s' \<and> counted ext s'"
  proof (rule each_keeps)
    show "\<exists>s'. assign_arg src f s = Some s' \<and> counted ext s'" if "counted ext s" for f s
      by (rule assign_arg_counted [OF that assms(2) [OF Some]])
  qed (rule assms(1))
  then obtain s' where s': "each (assign_arg src) members s = Some s'" "counted ext s'" by blast
  show ?thesis
  proof (cases "arguments_callable callable src")
    case True
    then show ?thesis using s' Some by (intro exI [of _ True] exI [of _ s']) (simp add: init_members_def)
  next
    case False
    then show ?thesis
      using assms(1) Some by (intro exI [of _ False] exI [of _ s]) (simp add: init_members_def)
  qed
next
  case None
  then show ?thesis
    using assms(1) by (intro exI [of _ False] exI [of _ s]) (simp add: init_members_def)
qed

lemma life_run_counted:
  assumes "counted ext (ms, rc)" "args_alive ext ops"
  shows "\<exists>s'. life_run callable ops (ext, ms, rc) = Some (last_world ext ops, s') \<and>
    counted (last_world ext ops) s'"
  using assms
proof (induction ops arbitrary: ext ms rc)
  case (Cons a ops)
  show ?case
  proof (cases a)
    case (World ext')
    have "counted ext' (ms, \<lambda>obj. rc obj - ext obj + ext' obj)"
      using Cons.prems(1) by (simp add: counted_def)
    from Cons.IH [OF this] Cons.prems(2) World show ?thesis by simp
  next
    case (Init args)
    obtain ok ms1 rc1 where i: "init_members callable args (ms, rc) = Some (ok, ms1, rc1)"
      "counted ext (ms1, rc1)"
      using init_members_counted [OF Cons.prems(1), of args callable] Cons.prems(2) Init by auto
    from Cons.IH [OF i(2)] Cons.prems(2) Init i(1) show ?thesis by simp
  qed
qed simp

lemma new_counted:
  assumes "0 < ext none"
  shows "\<exists>ms rc. Dc_Py_NewDeadcomL2 none True ext = Some (Some ms, rc) \<and> counted ext (ms, rc)"
proof -
  have "each (preset_none none) members (\<lambda>_. None, ext) =
      Some ((\<lambda>_. None)(Py_mutex \<mapsto> none, Py_condvar \<mapsto> none, Py_transmitFunction \<mapsto> none,
        Py_mutexInit \<mapsto> none, Py_mutexLock \<mapsto> none, Py_mutexUnlock \<mapsto> none,
        Py_condvarInit \<mapsto> none, Py_condvarWait \<mapsto> none, Py_condvarSignal \<mapsto> none),
        ext(none := ext none + 9))"
    using assms by (simp add: members_def preset_none_def Py_INCREF_def eval_nat_numeral)
  then show ?thesis by (auto simp: Dc_Py_NewDeadcomL2_def counted_def held_def members_def)
qed

lemma new_members:
  assumes "0 < ext none" "Dc_Py_NewDeadcomL2 none True ext = Some (Some ms, rc)"
  shows "ms f = Some none"
  using assms
  by (cases f) (auto simp: Dc_Py_NewDeadcomL2_def members_def preset_none_def Py_INCREF_def)

lemma dealloc_counted:
  assumes "counted ext (ms, rc)"
  shows "Dc_Py_DeallocDeadcomL2 ms rc = Some ext"
proof -
  have "each (\<lambda>f. Py_XDECREF (ms f)) fs rc = Some ext"
    if "\<forall>obj. rc obj = ext obj + length (filter (\<lambda>f. ms f = Some obj) fs)" for fs
    using that
  proof (induction fs arbitrary: rc)
    case (Cons f fs)
    let ?rc = "case ms f of None \<Rightarrow> rc | Some obj \<Rightarrow> rc(obj := rc obj - 1)"
    have "Py_XDECREF (ms f) rc = Some ?rc"
      using Cons.prems by (auto simp: Py_XDECREF_def split: option.split)
    moreover have "\<forall>obj. ?rc obj = ext obj + length (filter (\<lambda>f. ms f = Some obj) fs)"
      using Cons.prems by (auto split: option.split)
    then have "each (\<lambda>f. Py_XDECREF (ms f)) fs ?rc = Some ext" by (rule Cons.IH)
    ultimately show ?case by (simp only: each.simps bind.bind_lunit)
  qed auto
  then show ?thesis using assms by (simp add: Dc_Py_DeallocDeadcomL2_def counted_def held_def)
qed

text \<open>A lookup is one of the five methods, or an exception of the interpreter.\<close>

lemma call_method_run:
  "call_method obj others name args d s = Some (None, d, py_set PyExc_AttributeError s) \<or>
   call_method obj others name args d s = Some (None, d, py_set PyExc_TypeError s) \<or>
   (\<exists>call. call_method obj others name args d s = py_run obj call d s)"
  by (auto simp: call_method_def split: option.split)

lemma call_method_disconnect [simp]: "call_method obj others ''disconnect'' [] = py_run obj PyDisconnect"
  by (intro ext) (simp add: call_method_def Dc_Py_MethodsDeadcomL2_def)

text \<open>A call of the type that fails leaves every reference count as it was.\<close>

lemma type_call_counted:
  assumes "0 < ext none" "\<And>src f. args = Some src \<Longrightarrow> 0 < ext (src f)"
  shows "type_call Dc_Py_TypeDeadcomL2 none alloc callable args link_ok ext = Some (None, ext) \<or>
    (\<exists>ms rc. type_call Dc_Py_TypeDeadcomL2 none alloc callable args link_ok ext = Some (Some ms, rc) \<and>
       counted ext (ms, rc))"
proof (cases alloc)
  case True
  obtain ms rc where new: "Dc_Py_NewDeadcomL2 none True ext = Some (Some ms, rc)" "counted ext (ms, rc)"
    using new_counted [of ext none] assms(1) by blast
  obtain ok ms' rc' where init: "init_members callable args (ms, rc) = Some (ok, ms', rc')"
      "counted ext (ms', rc')"
    using init_members_counted [OF new(2), of args callable] assms(2) by auto
  then show ?thesis
    using True new(1) dealloc_counted [OF init(2)]
    by (cases "ok \<and> link_ok") (simp_all add: type_call_def Dc_Py_TypeDeadcomL2_def)
qed (simp add: type_call_def Dc_Py_TypeDeadcomL2_def Dc_Py_NewDeadcomL2_def)

lemma assign_all:
  "each (assign_arg src) fs (ms, rc) = Some (ms', rc') \<Longrightarrow> (\<And>f. ms f \<noteq> None) \<Longrightarrow>
   ms' f = (if f \<in> set fs then Some (src f) else ms f)"
proof (induction fs arbitrary: ms rc)
  case (Cons g fs)
  obtain ms1 rc1 where step: "assign_arg src g (ms, rc) = Some (ms1, rc1)"
    and rest: "each (assign_arg src) fs (ms1, rc1) = Some (ms', rc')"
    using Cons.prems(1) by (auto simp: bind_eq_Some_conv)
  have "ms1 = ms(g \<mapsto> src g)"
    using step Cons.prems(2) [of g] by (auto simp: assign_arg_def Let_def bind_eq_Some_conv)
  then show ?case using Cons.IH [OF rest] Cons.prems(2) by auto
qed simp

text \<open>
  An object whose constructor was given the object itself keeps itself alive, whatever the
  rest of the program still holds (the class of \<open>__init__.py\<close> does so, and the type takes no
  part in the collection of cycles).
\<close>

lemma self_reference:
  assumes "0 < ext none" "\<And>f. 0 < ext (src f)"
    and "Dc_Py_NewDeadcomL2 none True ext = Some (Some ms, rc)"
    and "init_members callable (Some src) (ms, rc) = Some (True, ms1, rc1)" "src f = self_p"
    and "life_run callable [World ext'] (ext, ms1, rc1) = Some (ext', ms2, rc2)"
  shows "0 < rc2 self_p"
proof -
  have new: "ms g \<noteq> None" "counted ext (ms, rc)" for g
    using assms(3) new_counted [of ext none] assms(1) new_members [OF assms(1, 3), of g] by auto
  have "each (assign_arg src) members (ms, rc) = Some (ms1, rc1)"
    using assms(4) by (auto simp: init_members_def split: if_splits)
  then have "ms1 f = Some self_p" using assign_all [of src members ms rc ms1 rc1 f] new(1) assms(5) by simp
  moreover have "counted ext (ms1, rc1)"
    using init_members_counted [OF new(2), of "Some src" callable] assms(2, 4) by auto
  then have "counted ext' (ms1, \<lambda>obj. rc1 obj - ext obj + ext' obj)" by (simp add: counted_def)
  ultimately show ?thesis
    using assms(6) held_pos [of ms1 f self_p] by (auto simp: counted_def)
qed

section \<open>Properties\<close>

text \<open>
  C20.  The references of a link object balance: after its creation, any number of calls of
  the constructor (successful or refused, with any arguments, also the objects it already
  holds) between which other code takes and gives back its own references, every object it
  holds is alive, no reference is taken to or given back on a dead object, and releasing it
  leaves of every reference count exactly what the other code holds.
\<close>

theorem object_lifecycle:
  assumes "0 < ext none" "args_alive ext ops"
  shows "\<exists>ms rc ms' rc'. Dc_Py_NewDeadcomL2 none True ext = Some (Some ms, rc) \<and>
    life_run callable ops (ext, ms, rc) = Some (last_world ext ops, ms', rc') \<and>
    (\<forall>f obj. ms' f = Some obj \<longrightarrow> 0 < rc' obj) \<and>
    Dc_Py_DeallocDeadcomL2 ms' rc' = Some (last_world ext ops)"
proof -
  obtain ms rc where new: "Dc_Py_NewDeadcomL2 none True ext = Some (Some ms, rc)" "counted ext (ms, rc)"
    using new_counted [of ext none] assms(1) by blast
  obtain ms' rc' where run: "life_run callable ops (ext, ms, rc) = Some (last_world ext ops, ms', rc')"
    "counted (last_world ext ops) (ms', rc')"
    using life_run_counted [OF new(2) assms(2), of callable] by auto
  have "\<forall>f obj. ms' f = Some obj \<longrightarrow> 0 < rc' obj"
    using run(2) held_pos by (simp add: counted_def)
  then show ?thesis using new(1) run(1) dealloc_counted [OF run(2)] by blast
qed

text \<open>
  Two calls of the constructor with the same nine objects, of which the caller keeps none,
  and one that is refused.
\<close>

theorem object_lifecycle_witness:
  "\<exists>ms rc ms' rc'. Dc_Py_NewDeadcomL2 0 True (\<lambda>_. 1) = Some (Some ms, rc) \<and>
    life_run (\<lambda>obj. obj \<noteq> 5) [Init (Some (\<lambda>_. 7)), Init (Some (\<lambda>_. 7)), Init (Some (\<lambda>_. 5)),
        World (\<lambda>obj. if obj = 0 then 1 else 0)] (\<lambda>_. 1, ms, rc) =
      Some (\<lambda>obj. if obj = 0 then 1 else 0, ms', rc') \<and>
    Dc_Py_DeallocDeadcomL2 ms' rc' = Some (\<lambda>obj. if obj = 0 then 1 else 0)"
  using object_lifecycle [of "\<lambda>_. 1" 0 "[Init (Some (\<lambda>_. 7)), Init (Some (\<lambda>_. 7)),
      Init (Some (\<lambda>_. 5)), World (\<lambda>obj. if obj = 0 then 1 else 0)]" "\<lambda>obj. obj \<noteq> 5"]
  by auto

text \<open>
  The module is returned even when the type could not be added to it, and then the reference
  is lost.
\<close>

lemma module_reference:
  assumes "0 < rc type_p"
  shows "PyInit_dcl2 type_p ready module added rc =
    (if ready \<and> module \<noteq> None then Some (module, added, rc(type_p := rc type_p + 1))
     else Some (None, False, rc))"
  using assms by (simp add: PyInit_dcl2_def Py_INCREF_def)

end
