(* ===== verification/Dcl2_Wrapper.thy ===== *)
theory Dcl2_Wrapper
  imports Dcl2_PyObject
begin

text \<open>
  The class \<open>DeadcomL2\<close> of \<open>dcl2/py3-bindings/dcl2/__init__.py\<close>, derived from the type of the
  bindings: it passes a \<open>threading.Lock\<close>, a \<open>threading.Condition\<close> over it and the \<open>write\<close>
  method of a pipe to the object, and runs a thread that feeds it what the pipe reads.
\<close>

section \<open>The class\<close>

text \<open>
  What the class relies on: the pipe, the other threads (what they do during a wait with a
  timeout, and whether one of them notifies), starting and joining the receiving thread, and
  the allocation of \<open>bytes\<close> objects.
\<close>

record 'w surroundings =
  pipe_write :: "byte list \<Rightarrow> 'w \<Rightarrow> nat option \<times> 'w"
  others_wait :: "nat \<Rightarrow> DeadcomL2 \<Rightarrow> 'w \<Rightarrow> bool \<times> DeadcomL2 \<times> 'w"
  pipe_close :: "'w \<Rightarrow> 'w"
  thread_start :: "'w \<Rightarrow> 'w"
  thread_join :: "'w \<Rightarrow> 'w"
  new_bytes :: "byte list \<Rightarrow> 'w \<Rightarrow> nat option \<times> 'w"

text \<open>
  The lock \<open>self.mutex\<close>, and how often a thread had to wait for it: \<open>acquire\<close> of a held lock
  returns only after another thread has released it.
\<close>

record 'w wrapper_world =
  lock_held :: bool
  contended :: nat
  outside :: 'w

definition lock_not_held_error :: nat where "lock_not_held_error = 1"

definition lock_acquire :: "'w wrapper_world \<Rightarrow> 'w wrapper_world" where
  "lock_acquire w =
     w\<lparr>lock_held := True, contended := (if lock_held w then contended w + 1 else contended w)\<rparr>"

definition lock_release :: "'w wrapper_world \<Rightarrow> nat option \<times> 'w wrapper_world" where
  "lock_release w =
     (if lock_held w then (None, w\<lparr>lock_held := False\<rparr>) else (Some lock_not_held_error, w))"

text \<open>The methods of the class; the attributes of \<open>self\<close> are objects after \<open>_mutexInit\<close>.\<close>

definition mutexInit_py :: "'w wrapper_world \<Rightarrow> nat option \<times> 'w wrapper_world" where
  "mutexInit_py w = (None, w\<lparr>lock_held := False\<rparr>)"

definition condvarInit_py :: "'w wrapper_world \<Rightarrow> nat option \<times> 'w wrapper_world" where
  "condvarInit_py w = (None, w)"

definition mutexLock_py :: "'w wrapper_world \<Rightarrow> nat option \<times> 'w wrapper_world" where
  "mutexLock_py w = (None, lock_acquire w)"

definition mutexUnlock_py :: "'w wrapper_world \<Rightarrow> nat option \<times> 'w wrapper_world" where
  "mutexUnlock_py w = lock_release w"

text \<open>\<open>wait\<close> and \<open>notify\<close> refuse when the lock is not held; \<open>wait\<close> gives it up and takes it again.\<close>

definition condvarWait_py ::
  "'w surroundings \<Rightarrow> nat \<Rightarrow> DeadcomL2 \<Rightarrow> 'w wrapper_world
     \<Rightarrow> (nat + py_truth) \<times> DeadcomL2 \<times> 'w wrapper_world" where
  "condvarWait_py sur milliseconds d w =
     (if \<not> lock_held w then (Inl lock_not_held_error, d, w)
      else let (notified, d, x) = others_wait sur milliseconds d (outside w)
           in (Inr (Truth (\<not> notified)), d, w\<lparr>outside := x\<rparr>))"

definition condvarSignal_py :: "'w wrapper_world \<Rightarrow> nat option \<times> 'w wrapper_world" where
  "condvarSignal_py w = (if \<not> lock_held w then (Some lock_not_held_error, w) else (None, w))"

definition transmitFunction_py ::
  "'w surroundings \<Rightarrow> byte list \<Rightarrow> 'w wrapper_world \<Rightarrow> nat option \<times> 'w wrapper_world" where
  "transmitFunction_py sur b w =
     (let (x, y) = pipe_write sur b (outside w) in (x, w\<lparr>outside := y\<rparr>))"

text \<open>The nine arguments the constructor passes on.\<close>

definition wrapper_methods :: "'w surroundings \<Rightarrow> 'w wrapper_world py_methods" where
  "wrapper_methods sur =
     \<lparr>tvmt_mutexInit = mutexInit_py, tvmt_mutexLock = mutexLock_py,
      tvmt_mutexUnlock = mutexUnlock_py, tvmt_condvarInit = condvarInit_py,
      tvmt_condvarWait = condvarWait_py sur, tvmt_condvarSignal = condvarSignal_py,
      transmitFunction = transmitFunction_py sur,
      bytes_from = \<lambda>b w. (let (x, y) = new_bytes sur b (outside w) in (x, w\<lparr>outside := y\<rparr>))\<rparr>"

text \<open>The receiving thread is started only when the constructor of the base class returned.\<close>

definition DeadcomL2_init ::
  "nat \<Rightarrow> nat \<Rightarrow> nat \<Rightarrow> 'w surroundings \<Rightarrow> DeadcomL2 \<Rightarrow> 'w wrapper_world py_state
     \<Rightarrow> int \<times> DeadcomL2 \<times> 'w wrapper_world py_state" where
  "DeadcomL2_init self_p vmt_p transmit_p sur d s =
     (let (r, _, d, s) = Dc_Py_InitDeadcomL2 self_p vmt_p transmit_p (wrapper_methods sur) d
            (Some (replicate 7 True, wrapper_methods sur)) s
      in (r, d, if r = 0 then s\<lparr>world := (world s)\<lparr>outside := thread_start sur (outside (world s))\<rparr>\<rparr> else s))"

definition stop :: "'w surroundings \<Rightarrow> 'w wrapper_world \<Rightarrow> 'w wrapper_world" where
  "stop sur w = w\<lparr>outside := thread_join sur (pipe_close sur (outside w))\<rparr>"

text \<open>
  The receiving thread: \<open>reads\<close> are the octets the pipe gives it until it is closed.  An
  exception ends the thread.
\<close>

fun receiveFunction ::
  "'p py_methods \<Rightarrow> byte list \<Rightarrow> DeadcomL2 \<Rightarrow> 'p py_state \<Rightarrow> (DeadcomL2 \<times> 'p py_state) option" where
  "receiveFunction obj [] d s = Some (d, s)"
| "receiveFunction obj (b # reads) d s = do {
     (v, d, s) \<leftarrow> py_run obj (PyProcessData (Some [b])) d s;
     if v = None then Some (d, s) else receiveFunction obj reads d s
   }"

lemmas wrapper_defs = wrapper_methods_def mutexInit_py_def condvarInit_py_def mutexLock_py_def
  mutexUnlock_py_def condvarWait_py_def condvarSignal_py_def transmitFunction_py_def
  lock_acquire_def lock_release_def

section \<open>The lock\<close>

text \<open>The class provides what the bindings need of a lock.\<close>

lemma wrapper_mutex: "real_mutex (wrapper_methods sur) lock_held"
  unfolding real_mutex_def
  by (intro conjI allI impI) (auto simp: wrapper_defs Let_def split: prod.splits if_splits)

lemma wrapper_init_ok:
  assumes "py_err s = None" "DeadcomL2_init self_p vmt_p transmit_p sur d s = (k, d', s')"
  shows "k = 0 \<and> py_err s' = None \<and> \<not> lock_held (world s') \<and> link_inv d' \<and>
    state d' = DC_DISCONNECTED"
  using assms
  by (auto simp: DeadcomL2_init_def Dc_Py_InitDeadcomL2_def dcInit_def bridge_defs wrapper_defs
      Let_def link_inv_def resetLink_def dc_zero_def parser_inv_reset)

lemma call_method_lock:
  assumes "py_err s = None" "\<not> lock_held (world s)"
    and "call_method (wrapper_methods sur) others name args d s = Some (v, d', s')"
  shows "lock_held (world s') \<longleftrightarrow> (\<exists>n. py_err s' = Some (FromPython n))"
proof -
  consider "s' = py_set PyExc_AttributeError s" | "s' = py_set PyExc_TypeError s"
    | call where "py_run (wrapper_methods sur) call d s = Some (v, d', s')"
    using call_method_run [of "wrapper_methods sur" others name args d s] assms(3) by auto
  then show ?thesis
  proof cases
    case (3 call)
    then show ?thesis by (rule py_run_lock [OF wrapper_mutex assms(1, 2)])
  qed (use assms(2) in simp_all)
qed

lemma receiveFunction_lock:
  assumes "py_err s = None" "\<not> lock_held (world s)"
    and "receiveFunction (wrapper_methods sur) reads d s = Some (d', s')"
  shows "lock_held (world s') \<longleftrightarrow> (\<exists>n. py_err s' = Some (FromPython n))"
  using assms
proof (induction reads arbitrary: d s)
  case (Cons b reads)
  then obtain v d1 s1 where run: "py_run (wrapper_methods sur) (PyProcessData (Some [b])) d s = Some (v, d1, s1)"
    and rest: "(if v = None then Some (d1, s1) else receiveFunction (wrapper_methods sur) reads d1 s1)
      = Some (d', s')"
    by (auto simp: bind_eq_Some_conv)
  have lock: "lock_held (world s1) \<longleftrightarrow> (\<exists>n. py_err s1 = Some (FromPython n))"
    by (rule py_run_lock [OF wrapper_mutex Cons.prems(1, 2) run])
  show ?case
  proof (cases "v = None")
    case True
    then show ?thesis using lock rest by simp
  next
    case False
    then have "py_err s1 = None" using py_run_result [OF run Cons.prems(1)] by simp
    then show ?thesis using Cons.IH [of s1 d1] lock rest False by simp
  qed
qed simp

lemma disconnect_blocks:
  assumes "lock_held (world s)"
  shows "\<exists>v d' s'. py_run (wrapper_methods sur) PyDisconnect d (s\<lparr>py_err := None\<rparr>) = Some (v, d', s') \<and>
    contended (world s') = Suc (contended (world s))"
  using assms
  by (auto simp: method_disconnect_def dcDisconnect_def leave_def bridge_defs wrapper_defs Let_def
      py_finally_def py_except_def)

section \<open>Properties\<close>

text \<open>
  C17.  The class and a pipe that raises: a call of any name with any arguments, and the
  receiving thread on anything the pipe reads, started with the lock free, leave the lock
  held exactly when they end with an exception out of \<open>pipe.write\<close> or another Python object;
  and when the program handles that exception and disconnects, it waits for the lock, which
  nobody is left to release.
\<close>

theorem wrapper_blocks_after_exception:
  assumes "py_err s = None" "\<not> lock_held (world s)"
    and "call_method (wrapper_methods sur) others name args d s = Some (v, d', s') \<or>
      receiveFunction (wrapper_methods sur) reads d s = Some (d', s')"
  shows "(lock_held (world s') \<longleftrightarrow> (\<exists>n. py_err s' = Some (FromPython n))) \<and>
    (lock_held (world s') \<longrightarrow>
      (\<exists>v d2 s2. call_method (wrapper_methods sur) others ''disconnect'' [] d' (s'\<lparr>py_err := None\<rparr>)
         = Some (v, d2, s2) \<and> contended (world s2) = contended (world s') + 1))"
proof
  show "lock_held (world s') \<longleftrightarrow> (\<exists>n. py_err s' = Some (FromPython n))"
    using assms(3)
    by (elim disjE) (rule call_method_lock [OF assms(1, 2)] receiveFunction_lock [OF assms(1, 2)], assumption)+
  show "lock_held (world s') \<longrightarrow>
      (\<exists>v d2 s2. call_method (wrapper_methods sur) others ''disconnect'' [] d' (s'\<lparr>py_err := None\<rparr>)
         = Some (v, d2, s2) \<and> contended (world s2) = contended (world s') + 1)"
    using disconnect_blocks [of s' sur d'] by simp
qed

text \<open>The pipe is closed at the other end: connecting raises and leaves the lock held.\<close>

definition broken_pipe :: "unit surroundings" where
  "broken_pipe =
     \<lparr>pipe_write = \<lambda>b w. (Some 32, w), others_wait = \<lambda>ms d w. (False, d, w),
      pipe_close = \<lambda>w. w, thread_start = \<lambda>w. w, thread_join = \<lambda>w. w, new_bytes = \<lambda>b w. (None, w)\<rparr>"

definition fresh_wrapper :: "unit wrapper_world py_state" where
  "fresh_wrapper =
     \<lparr>py_err = None, refs = \<lambda>_. 1, world = \<lparr>lock_held = False, contended = 0, outside = ()\<rparr>\<rparr>"

theorem wrapper_blocks_after_exception_witness:
  "\<exists>d' s' v d2 s2. call_method (wrapper_methods broken_pipe) id ''connect'' [] dc_zero fresh_wrapper
      = Some (None, d', s') \<and> lock_held (world s') \<and>
    call_method (wrapper_methods broken_pipe) id ''disconnect'' [] d' (s'\<lparr>py_err := None\<rparr>)
      = Some (v, d2, s2) \<and> contended (world s2) = contended (world s') + 1"
proof -
  have "\<exists>d' s'. call_method (wrapper_methods broken_pipe) id ''connect'' [] dc_zero fresh_wrapper
      = Some (None, d', s') \<and> py_err s' = Some (FromPython 32)"
    by (simp add: call_method_def Dc_Py_MethodsDeadcomL2_def method_connect_def dcConnect_def dc_zero_def
        bridge_defs wrapper_defs broken_pipe_def fresh_wrapper_def build_conn Let_def leave_def
        py_failure_def py_except_def py_finally_def)
  then obtain d' s' where run: "call_method (wrapper_methods broken_pipe) id ''connect'' [] dc_zero
      fresh_wrapper = Some (None, d', s')" "py_err s' = Some (FromPython 32)" by blast
  show ?thesis
    using wrapper_blocks_after_exception [of fresh_wrapper broken_pipe id "''connect''" "[]" dc_zero None
        d' s' "[]"] run
    by (auto simp: fresh_wrapper_def)
qed

end
