(* ===== verification/Dcl2_Pthreads.thy ===== *)
theory Dcl2_Pthreads
  imports Dcl2_Link "HOL-Library.Signed_Division"
begin

text \<open>
  The threading methods for POSIX threads, \<open>dcl2/helper-pthreads/src/dcl2-pthreads.c\<close>:
  the deadline and the waiting loop of \<open>dcl_pthreads_condvarWait\<close> with its filter for
  spurious wake-ups, the signal, and the allocation and release of the synchronisation
  objects.  \<open>clock_gettime\<close>, \<open>pthread_cond_timedwait\<close> and the allocator are parameters.
\<close>

section \<open>The deadline\<close>

record timespec =
  tv_sec :: int
  tv_nsec :: int

text \<open>Lines 42 to 45; the division of signed integers truncates.\<close>

definition wait_deadline :: "timespec \<Rightarrow> 32 word \<Rightarrow> timespec" where
  "wait_deadline ts milliseconds =
     (let ts = ts\<lparr>tv_sec := tv_sec ts + uint (milliseconds div 1000)\<rparr>;
          ts = ts\<lparr>tv_nsec := tv_nsec ts + uint ((milliseconds mod 1000) * 1000000)\<rparr>;
          ts = ts\<lparr>tv_sec := tv_sec ts + tv_nsec ts sdiv 1000000000\<rparr>
      in ts\<lparr>tv_nsec := tv_nsec ts smod 1000000000\<rparr>)"

lemma ms_nanoseconds: "uint (((ms :: 32 word) mod 1000) * 1000000) = uint ms mod 1000 * 1000000"
proof -
  have "uint (ms mod 1000) = uint ms mod 1000" by (simp add: uint_mod)
  moreover have "uint ms mod 1000 * 1000000 < 2 ^ 32"
    using pos_mod_bound [of 1000 "uint ms"] by simp
  moreover have "0 \<le> uint ms mod 1000" by simp
  ultimately show ?thesis by (simp add: uint_word_ariths)
qed

section \<open>Waiting and signalling\<close>

record dcl2_pthread_cond_t =
  cond :: ptr
  mutx :: ptr
  wakeup_is_spurious :: bool

definition ETIMEDOUT :: int where "ETIMEDOUT = 110"

text \<open>
  \<open>pthread_cond_timedwait\<close> returns its error number and, since the mutex is free
  meanwhile, the condition object as the other threads leave it.
\<close>

type_synonym 's timedwait =
  "timespec \<Rightarrow> dcl2_pthread_cond_t \<Rightarrow> 's \<Rightarrow> int \<times> dcl2_pthread_cond_t \<times> 's"

text \<open>The loop of lines 49 to 56; \<open>ret\<close> (\<open>err\<close> here) is indeterminate (\<open>None\<close>) before the first call.\<close>

partial_function (option) wait_loop ::
  "'s timedwait \<Rightarrow> timespec \<Rightarrow> int option \<Rightarrow> dcl2_pthread_cond_t \<Rightarrow> 's
     \<Rightarrow> (int option \<times> dcl2_pthread_cond_t \<times> 's) option" where
  "wait_loop timedwait ts err c s =
     (if wakeup_is_spurious c then
        let (r, c, s) = timedwait ts c s in
        if r = ETIMEDOUT then Some (Some r, c, s)
        else wait_loop timedwait ts (Some r) c s
      else Some (err, c, s))"

text \<open>The result: the return value, \<open>*timed_out\<close>, the condition object.\<close>

definition dcl_pthreads_condvarWait ::
  "('s \<Rightarrow> timespec) \<Rightarrow> 's timedwait \<Rightarrow> dcl2_pthread_cond_t \<Rightarrow> 32 word \<Rightarrow> 's
     \<Rightarrow> (bool \<times> bool \<times> dcl2_pthread_cond_t \<times> 's) option" where
  "dcl_pthreads_condvarWait clock timedwait c milliseconds s = do {
     let ts = wait_deadline (clock s) milliseconds;
     let c = c\<lparr>wakeup_is_spurious := True\<rparr>;
     (ret, c, s) \<leftarrow> wait_loop timedwait ts None c s;
     ret \<leftarrow> ret;
     Some (True, ret = ETIMEDOUT, c, s)
   }"

definition dcl_pthreads_condvarSignal ::
  "(ptr \<Rightarrow> 's \<Rightarrow> 's) \<Rightarrow> dcl2_pthread_cond_t \<Rightarrow> 's \<Rightarrow> bool \<times> dcl2_pthread_cond_t \<times> 's" where
  "dcl_pthreads_condvarSignal signal c s =
     (let c = c\<lparr>wakeup_is_spurious := False\<rparr>
      in (True, c, signal (cond c) s))"

text \<open>
  The attribute objects are local to the initialisers: set to the default, given one
  attribute each, and passed on; that is the argument of the initialisation here.
\<close>

datatype mutex_type = PTHREAD_MUTEX_NORMAL | PTHREAD_MUTEX_RECURSIVE

datatype clockid = CLOCK_REALTIME | CLOCK_MONOTONIC

definition dcl_pthreads_condvarInit ::
  "(ptr \<Rightarrow> clockid \<Rightarrow> 's \<Rightarrow> int \<times> 's) \<Rightarrow> dcl2_pthread_cond_t \<Rightarrow> 's
     \<Rightarrow> bool \<times> dcl2_pthread_cond_t \<times> 's" where
  "dcl_pthreads_condvarInit init c s =
     (let (_, s) = init (cond c) CLOCK_MONOTONIC s
      in (True, c\<lparr>wakeup_is_spurious := True\<rparr>, s))"

definition dcl_pthreads_mutexInit ::
  "(ptr \<Rightarrow> mutex_type \<Rightarrow> 's \<Rightarrow> int \<times> 's) \<Rightarrow> ptr \<Rightarrow> 's \<Rightarrow> bool \<times> 's" where
  "dcl_pthreads_mutexInit init m s = (let (_, s) = init m PTHREAD_MUTEX_RECURSIVE s in (True, s))"

text \<open>The mutex methods discard the result of the call they wrap.\<close>

definition dcl_pthreads_mutex :: "(ptr \<Rightarrow> 's \<Rightarrow> int \<times> 's) \<Rightarrow> ptr \<Rightarrow> 's \<Rightarrow> bool \<times> 's" where
  "dcl_pthreads_mutex call m s = (let (_, s) = call m s in (True, s))"

section \<open>What the service guarantees\<close>

text \<open>
  The contract of a condition variable with a log of signals: the flag is cleared by a
  signal only, and signals are not forgotten.
\<close>

definition signalled_wait :: "'s timedwait \<Rightarrow> ('s \<Rightarrow> nat) \<Rightarrow> bool" where
  "signalled_wait timedwait signals \<longleftrightarrow>
     (\<forall>ts c s r c' s'. timedwait ts c s = (r, c', s') \<longrightarrow>
        signals s \<le> signals s' \<and>
        (wakeup_is_spurious c \<longrightarrow> \<not> wakeup_is_spurious c' \<longrightarrow> signals s < signals s'))"

lemma wait_loop_signalled:
  assumes "signalled_wait timedwait signals"
    and "wait_loop timedwait ts err c s = Some (ret', c', s')"
  shows "signals s \<le> signals s' \<and>
    (ret' \<noteq> Some ETIMEDOUT \<longrightarrow> \<not> wakeup_is_spurious c' \<and> (wakeup_is_spurious c \<longrightarrow> signals s < signals s'))"
proof -
  let ?R = "\<lambda>c s y. signals s \<le> signals (snd (snd y)) \<and>
    (fst y \<noteq> Some ETIMEDOUT \<longrightarrow> \<not> wakeup_is_spurious (fst (snd y)) \<and>
      (wakeup_is_spurious c \<longrightarrow> signals s < signals (snd (snd y))))"
  let ?P = "\<lambda>tw ts err c s y. tw = timedwait \<longrightarrow> ?R c s y"
  have "?P timedwait ts err c s (ret', c', s')"
  proof (rule wait_loop.raw_induct [of ?P, OF _ assms(2)], intro impI)
    fix loop tw ts err c s y
    assume IH: "\<And>tw ts err c s y. loop tw ts err c s = Some y \<Longrightarrow> ?P tw ts err c s y"
      and body: "(if wakeup_is_spurious c then
          let (r, c, s) = tw ts c s in
          if r = ETIMEDOUT then Some (Some r, c, s) else loop tw ts (Some r) c s
        else Some (err, c, s)) = Some y"
      and tw: "tw = timedwait"
    obtain r c1 s1 where r: "timedwait ts c s = (r, c1, s1)" using prod_cases3 by blast
    have s1: "signals s \<le> signals s1"
      "wakeup_is_spurious c \<longrightarrow> \<not> wakeup_is_spurious c1 \<longrightarrow> signals s < signals s1"
      using assms(1) r unfolding signalled_wait_def by blast+
    show "?R c s y"
    proof (cases "wakeup_is_spurious c \<and> r \<noteq> ETIMEDOUT")
      case True
      then have "loop timedwait ts (Some r) c1 s1 = Some y" using body tw r by simp
      then have "?R c1 s1 y" using IH by blast
      then show ?thesis using s1 True by (cases "wakeup_is_spurious c1") auto
    next
      case False
      then show ?thesis using body tw r s1 by (cases "wakeup_is_spurious c") auto
    qed
  qed
  then show ?thesis by simp
qed

text \<open>A scripted service: each call consumes one outcome; \<open>True\<close> signals, \<open>False\<close> does not.\<close>

type_synonym script = "nat \<times> (int \<times> bool) list"

fun script_wait :: "script timedwait" where
  "script_wait ts c (n, []) = (ETIMEDOUT, c, (n, []))"
| "script_wait ts c (n, (r, sig) # xs) =
     (if sig then let (_, c, s) = dcl_pthreads_condvarSignal (\<lambda>_ (n, xs). (Suc n, xs)) c (n, xs)
                  in (r, c, s)
      else (r, c, (n, xs)))"

lemma script_signalled: "signalled_wait script_wait fst"
  unfolding signalled_wait_def
proof (intro allI impI)
  fix ts c r c' and s s' :: script
  assume "script_wait ts c s = (r, c', s')"
  then show "fst s \<le> fst s' \<and>
      (wakeup_is_spurious c \<longrightarrow> \<not> wakeup_is_spurious c' \<longrightarrow> fst s < fst s')"
    by (cases "(ts, c, s)" rule: script_wait.cases)
      (auto simp: dcl_pthreads_condvarSignal_def split: if_splits)
qed

text \<open>
  Time passes: every call that returns without a timeout and without a signal brings the
  deadline nearer.
\<close>

definition time_passes :: "'s timedwait \<Rightarrow> ('s \<Rightarrow> nat) \<Rightarrow> bool" where
  "time_passes timedwait remaining \<longleftrightarrow>
     (\<forall>ts c s r c' s'. timedwait ts c s = (r, c', s') \<longrightarrow> wakeup_is_spurious c' \<longrightarrow>
        r \<noteq> ETIMEDOUT \<longrightarrow> remaining s' < remaining s)"

lemma wait_loop_returns:
  assumes "time_passes timedwait remaining"
  shows "\<exists>ret' c' s'. wait_loop timedwait ts err c s = Some (ret', c', s') \<and>
    (wakeup_is_spurious c \<or> err \<noteq> None \<longrightarrow> ret' \<noteq> None)"
proof (induction "remaining s" arbitrary: err c s rule: less_induct)
  case less
  obtain r c1 s1 where r: "timedwait ts c s = (r, c1, s1)" using prod_cases3 by blast
  show ?case
  proof (cases "wakeup_is_spurious c \<and> r \<noteq> ETIMEDOUT")
    case False
    then show ?thesis using r by (subst wait_loop.simps) auto
  next
    case True
    then have step: "wait_loop timedwait ts err c s = wait_loop timedwait ts (Some r) c1 s1"
      using r by (subst wait_loop.simps) simp
    show ?thesis
    proof (cases "wakeup_is_spurious c1")
      case True
      then show ?thesis
        using less.hyps [of s1 "Some r" c1] assms r \<open>wakeup_is_spurious c \<and> r \<noteq> ETIMEDOUT\<close> step
        unfolding time_passes_def by auto
    next
      case False
      then show ?thesis unfolding step by (subst wait_loop.simps) simp
    qed
  qed
qed

lemma script_time_passes: "time_passes script_wait (\<lambda>s. length (snd s))"
  unfolding time_passes_def
proof (intro allI impI)
  fix ts c r c' and s s' :: script
  assume "script_wait ts c s = (r, c', s')" "r \<noteq> ETIMEDOUT"
  then show "length (snd s') < length (snd s)"
    by (cases "(ts, c, s)" rule: script_wait.cases)
      (auto simp: dcl_pthreads_condvarSignal_def split: if_splits)
qed

section \<open>Allocation\<close>

text \<open>
  The live objects of the allocator and the contents of the combined condition objects.
  \<open>malloc\<close> chooses an address or \<open>NULL\<close>.
\<close>

record heap =
  live :: "nat set"
  combined :: "nat \<Rightarrow> dcl2_pthread_cond_t option"

type_synonym malloc = "heap \<Rightarrow> ptr"

definition allocate :: "malloc \<Rightarrow> heap \<Rightarrow> ptr \<times> heap" where
  "allocate malloc h =
     (case malloc h of None \<Rightarrow> (None, h) | Some a \<Rightarrow> (Some a, h\<lparr>live := insert a (live h)\<rparr>))"

text \<open>\<open>free(NULL)\<close> does nothing; releasing what is not live is undefined.\<close>

definition release :: "ptr \<Rightarrow> heap \<Rightarrow> heap option" where
  "release p h =
     (case p of None \<Rightarrow> Some h
      | Some a \<Rightarrow> if a \<in> live h then Some (h\<lparr>live := live h - {a}\<rparr>) else None)"

text \<open>
  The combined object is written without a test for \<open>NULL\<close>; its flag is indeterminate
  until \<open>condvarInit\<close>, here \<open>True\<close>.  \<open>pthreadsDeadcom\<close> is the address of the method table.
\<close>

definition dcPthreadsInit ::
  "'e dcl2_env \<Rightarrow> malloc \<Rightarrow> nat \<Rightarrow> DeadcomL2 option \<Rightarrow> ptr \<Rightarrow> ptr \<Rightarrow> heap \<Rightarrow> 'e
     \<Rightarrow> ((DeadcomL2Result \<times> DeadcomL2 option \<times> 'e) \<times> heap) option" where
  "dcPthreadsInit env malloc pthreadsDeadcom deadcom transmit transmissionContext h e =
     (let (mutx, h) = allocate malloc h;
          (cond, h) = allocate malloc h;
          (combined_cond, h) = allocate malloc h
      in case combined_cond of
           None \<Rightarrow> None
         | Some a \<Rightarrow>
             let h = h\<lparr>combined := (combined h)(a \<mapsto>
                       \<lparr>cond = cond, mutx = mutx, wakeup_is_spurious = True\<rparr>)\<rparr>
             in Some (dcInit env deadcom mutx combined_cond (Some pthreadsDeadcom) transmit
                        transmissionContext e, h))"

definition dcPthreadsFree :: "DeadcomL2 \<Rightarrow> heap \<Rightarrow> heap option" where
  "dcPthreadsFree deadcom h = do {
     a \<leftarrow> condvar_p deadcom;
     combined_cond \<leftarrow> (if a \<in> live h then combined h a else None);
     h \<leftarrow> release (mutx combined_cond) h;
     h \<leftarrow> release (cond combined_cond) h;
     release (Some a) h
   }"

definition fresh_malloc :: "malloc \<Rightarrow> bool" where
  "fresh_malloc malloc \<longleftrightarrow> (\<forall>h a. malloc h = Some a \<longrightarrow> a \<notin> live h)"

lemma allocate_cases:
  assumes "fresh_malloc malloc" "allocate malloc h = (p, h')"
  shows "p = None \<and> h' = h \<or> (\<exists>a. p = Some a \<and> live h' = insert a (live h) \<and> a \<notin> live h)"
proof (cases "malloc h")
  case None
  then show ?thesis using assms(2) by (simp add: allocate_def)
next
  case (Some a)
  then have "p = Some a" "live h' = insert a (live h)" "a \<notin> live h"
    using assms by (auto simp: allocate_def fresh_malloc_def)
  then show ?thesis by simp
qed

section \<open>Properties\<close>

text \<open>
  The deadline of a wait is exact and normalised: from a normalised current time it
  lies exactly \<open>milliseconds\<close> later, with the nanoseconds between 0 and 999999999; the
  32-bit product of line 43 does not wrap for any argument.
\<close>

theorem wait_deadline_exact:
  assumes "0 \<le> tv_nsec ts" "tv_nsec ts < 1000000000"
  shows "0 \<le> tv_nsec (wait_deadline ts ms) \<and> tv_nsec (wait_deadline ts ms) < 1000000000 \<and>
    tv_sec (wait_deadline ts ms) * 1000000000 + tv_nsec (wait_deadline ts ms) =
      tv_sec ts * 1000000000 + tv_nsec ts + uint ms * 1000000"
proof -
  let ?n = "tv_nsec ts + uint ms mod 1000 * 1000000"
  have "0 \<le> ?n" using assms(1) by simp
  then have "?n sdiv 1000000000 = ?n div 1000000000" "?n smod 1000000000 = ?n mod 1000000000"
    by (simp_all add: signed_divide_int_def signed_modulo_int_def sgn_if)
  moreover have "uint ms div 1000 * 1000000000 + uint ms mod 1000 * 1000000 = uint ms * 1000000"
    using div_mult_mod_eq [of "uint ms" 1000] by linarith
  moreover have "?n div 1000000000 * 1000000000 + ?n mod 1000000000 = ?n" by simp
  ultimately show ?thesis
    by (simp add: wait_deadline_def Let_def ms_nanoseconds uint_div)
qed

theorem wait_deadline_exact_witness:
  "tv_sec (wait_deadline \<lparr>tv_sec = 7, tv_nsec = 950000000\<rparr> 100) * 1000000000 +
     tv_nsec (wait_deadline \<lparr>tv_sec = 7, tv_nsec = 950000000\<rparr> 100) = 8050000000"
  using wait_deadline_exact [of "\<lparr>tv_sec = 7, tv_nsec = 950000000\<rparr>" 100] by simp

text \<open>
  The wait returns and filters spurious wake-ups: provided only signals clear the
  flag and time passes, \<open>dcl_pthreads_condvarWait\<close> returns success with \<open>timed_out\<close> set,
  and when it reports no timeout a signal was given after the wait began, however often
  the system woke it before.
\<close>

theorem wait_returns_signalled:
  assumes "signalled_wait timedwait signals" "time_passes timedwait remaining"
  shows "\<exists>timed_out c' s'. dcl_pthreads_condvarWait clock timedwait c ms s
      = Some (True, timed_out, c', s') \<and>
    (timed_out \<or> signals s < signals s' \<and> \<not> wakeup_is_spurious c')"
proof -
  let ?c = "c\<lparr>wakeup_is_spurious := True\<rparr>"
  obtain err c' s' where loop: "wait_loop timedwait (wait_deadline (clock s) ms) None ?c s
      = Some (Some err, c', s')"
    using wait_loop_returns [OF assms(2), of "wait_deadline (clock s) ms" None ?c s] by auto
  then have "dcl_pthreads_condvarWait clock timedwait c ms s = Some (True, err = ETIMEDOUT, c', s')"
    by (simp add: dcl_pthreads_condvarWait_def)
  then show ?thesis using wait_loop_signalled [OF assms(1) loop] by auto
qed

text \<open>Two spurious wake-ups, then a signal.\<close>

theorem wait_returns_signalled_witness:
  "\<exists>timed_out c' s'. dcl_pthreads_condvarWait (\<lambda>s. \<lparr>tv_sec = 0, tv_nsec = 0\<rparr>) script_wait
       \<lparr>cond = None, mutx = None, wakeup_is_spurious = False\<rparr> 100 (0, [(0, False), (0, False), (0, True)])
     = Some (True, timed_out, c', s') \<and> (timed_out \<or> 0 < fst s')"
proof -
  from wait_returns_signalled [OF script_signalled script_time_passes, of "\<lambda>s. \<lparr>tv_sec = 0, tv_nsec = 0\<rparr>"
      "\<lparr>cond = None, mutx = None, wakeup_is_spurious = False\<rparr>" 100 "(0, [(0, False), (0, False), (0, True)])"]
  show ?thesis by auto
qed

text \<open>
  Initialisation and release balance: when \<open>dcPthreadsInit\<close> succeeds, releasing the
  link with \<open>dcPthreadsFree\<close> is defined and leaves exactly the objects live that were
  live before.
\<close>

theorem pthreads_init_free:
  assumes "fresh_malloc malloc"
    and "dcPthreadsInit env malloc vt (Some d0) x ctx h e = Some ((DC_OK, Some d, e'), h')"
  shows "\<exists>h''. dcPthreadsFree d h' = Some h'' \<and> live h'' = live h"
proof -
  obtain m h1 where m: "allocate malloc h = (m, h1)" by fastforce
  obtain c h2 where c: "allocate malloc h1 = (c, h2)" by fastforce
  obtain b h3 where b: "allocate malloc h2 = (b, h3)" by fastforce
  obtain a where a: "b = Some a"
    using assms(2) m c b by (cases b) (auto simp: dcPthreadsInit_def)
  let ?cc = "\<lparr>cond = c, mutx = m, wakeup_is_spurious = True\<rparr>"
  have init: "dcInit env (Some d0) m (Some a) (Some vt) x ctx e = (DC_OK, Some d, e')"
    and h': "h' = h3\<lparr>combined := (combined h3)(a \<mapsto> ?cc)\<rparr>"
    using assms(2) m c b a by (auto simp: dcPthreadsInit_def)
  have "m \<noteq> None" and d: "condvar_p d = Some a"
    using init by (auto simp: dcInit_def Let_def case_prod_beta split: if_splits)
  then obtain am where am: "m = Some am" by auto
  have h1: "live h1 = insert am (live h)" "am \<notin> live h"
    using allocate_cases [OF assms(1) m] am by auto
  have h2: "c = None \<and> h2 = h1 \<or> (\<exists>ac. c = Some ac \<and> live h2 = insert ac (live h1) \<and> ac \<notin> live h1)"
    by (rule allocate_cases [OF assms(1) c])
  have h3: "live h3 = insert a (live h2)" "a \<notin> live h2"
    using allocate_cases [OF assms(1) b] a by auto
  show ?thesis
    using h2 h1 h3 am
    by (auto simp: dcPthreadsFree_def d h' release_def)
qed

text \<open>An allocator with three addresses.\<close>

definition three_addresses :: malloc where
  "three_addresses h = (if 0 \<notin> live h then Some 0 else if 1 \<notin> live h then Some 1
     else if 2 \<notin> live h then Some 2 else None)"

theorem pthreads_init_free_witness:
  "\<exists>d h' h''. dcPthreadsInit log_env three_addresses 9 (Some dc_zero) (Some 4) None
      \<lparr>live = {}, combined = \<lambda>_. None\<rparr> [] = Some ((DC_OK, Some d, []), h') \<and>
    dcPthreadsFree d h' = Some h'' \<and> live h'' = {}"
proof -
  have "fresh_malloc three_addresses"
    by (simp add: fresh_malloc_def three_addresses_def)
  moreover have "\<exists>d h'. dcPthreadsInit log_env three_addresses 9 (Some dc_zero) (Some 4) None
      \<lparr>live = {}, combined = \<lambda>_. None\<rparr> [] = Some ((DC_OK, Some d, []), h')"
    by (simp add: dcPthreadsInit_def allocate_def three_addresses_def dcInit_def log_env_def
        resetLink_def)
  ultimately show ?thesis using pthreads_init_free by fastforce
qed

end
