(* ===== verification/Dcl2_Posix.thy ===== *)
theory Dcl2_Posix
  imports Dcl2_Mutex Dcl2_Pthreads
begin

text \<open>
  The link over POSIX threads: the table \<open>pthreadsDeadcom\<close> of
  \<open>dcl2/helper-pthreads/src/dcl2-pthreads.c\<close>, with the methods of \<open>Dcl2_Pthreads\<close>, as the
  callbacks of \<open>dcl2.c\<close>, and what the filter for spurious wake-ups gives the operations that
  wait.
\<close>

section \<open>The method table\<close>

text \<open>
  The calls of the POSIX service, over a world \<open>'w\<close>.  While a thread waits the others may
  change the link, so that \<open>pthread_cond_timedwait\<close> acts on it too.  \<open>user_transmit\<close> is the
  function the application passes to \<open>dcPthreadsInit\<close>.
\<close>

record 'w pthread_lib =
  clock_gettime :: "'w \<Rightarrow> timespec"
  pthread_mutex_init :: "ptr \<Rightarrow> mutex_type \<Rightarrow> 'w \<Rightarrow> int \<times> 'w"
  pthread_mutex_lock :: "ptr \<Rightarrow> 'w \<Rightarrow> int \<times> 'w"
  pthread_mutex_unlock :: "ptr \<Rightarrow> 'w \<Rightarrow> int \<times> 'w"
  pthread_cond_init :: "ptr \<Rightarrow> clockid \<Rightarrow> 'w \<Rightarrow> int \<times> 'w"
  pthread_cond_timedwait :: "(DeadcomL2 \<times> 'w) timedwait"
  pthread_cond_signal :: "ptr \<Rightarrow> 'w \<Rightarrow> 'w"
  user_transmit :: "byte list \<Rightarrow> ptr \<Rightarrow> 'w \<Rightarrow> bool \<times> 'w"

text \<open>
  The world of the callbacks is the combined condition object, which \<open>condvar_p\<close> points to,
  and the world of the service.  A wait that never returns, which the laws below exclude,
  has no place in the type of a callback and is made a failure.
\<close>

definition posix_wait ::
  "'w pthread_lib \<Rightarrow> nat \<Rightarrow> bool option \<Rightarrow> DeadcomL2 \<Rightarrow> dcl2_pthread_cond_t \<times> 'w
     \<Rightarrow> bool \<times> bool option \<times> DeadcomL2 \<times> dcl2_pthread_cond_t \<times> 'w" where
  "posix_wait lib milliseconds timed_out d cw =
     (case dcl_pthreads_condvarWait (\<lambda>(d, w). clock_gettime lib w) (pthread_cond_timedwait lib)
             (fst cw) (word_of_nat milliseconds) (d, snd cw) of
        Some (r, timed_out, c, (d, w)) \<Rightarrow> (r, Some timed_out, d, (c, w))
      | None \<Rightarrow> (False, timed_out, d, cw))"

definition pthreadsDeadcom :: "'w pthread_lib \<Rightarrow> (dcl2_pthread_cond_t \<times> 'w) dcl2_env" where
  "pthreadsDeadcom lib =
     \<lparr>mutexInit = \<lambda>p (c, w).
        let (r, w) = dcl_pthreads_mutexInit (pthread_mutex_init lib) p w in (r, (c, w)),
      mutexLock = \<lambda>p (c, w).
        let (r, w) = dcl_pthreads_mutex (pthread_mutex_lock lib) p w in (r, (c, w)),
      mutexUnlock = \<lambda>p (c, w).
        let (r, w) = dcl_pthreads_mutex (pthread_mutex_unlock lib) p w in (r, (c, w)),
      condvarInit = \<lambda>p (c, w). dcl_pthreads_condvarInit (pthread_cond_init lib) c w,
      condvarWait = \<lambda>p. posix_wait lib,
      condvarSignal = \<lambda>p (c, w). dcl_pthreads_condvarSignal (pthread_cond_signal lib) c w,
      transmitBytes = \<lambda>b p (c, w). let (x, w) = user_transmit lib b p w in (x, (c, w))\<rparr>"

text \<open>
  The laws: the two of the condition variable, and a log of the signals that none of the
  other calls shortens.
\<close>

definition posix_ok :: "'w pthread_lib \<Rightarrow> ('w \<Rightarrow> nat) \<Rightarrow> (DeadcomL2 \<times> 'w \<Rightarrow> nat) \<Rightarrow> bool" where
  "posix_ok lib signals remaining \<longleftrightarrow>
     signalled_wait (pthread_cond_timedwait lib) (\<lambda>(d, w). signals w) \<and>
     time_passes (pthread_cond_timedwait lib) remaining \<and>
     (\<forall>p w. signals w \<le> signals (snd (pthread_mutex_lock lib p w))) \<and>
     (\<forall>p w. signals w \<le> signals (snd (pthread_mutex_unlock lib p w))) \<and>
     (\<forall>b p w. signals w \<le> signals (snd (user_transmit lib b p w)))"

section \<open>Waiting for a signal\<close>

lemma posix_wait_signalled:
  assumes "posix_ok lib signals remaining"
    and "posix_wait lib ms t d (c, w) = (r, t', d', (c', w'))"
  shows "r \<and> signals w \<le> signals w' \<and>
    (t' = Some True \<or> t' = Some False \<and> signals w < signals w')"
proof -
  let ?s = "\<lambda>(d, w). signals w" and ?c = "c\<lparr>wakeup_is_spurious := True\<rparr>"
  let ?ts = "wait_deadline (clock_gettime lib w) (word_of_nat ms)"
  have laws: "signalled_wait (pthread_cond_timedwait lib) ?s"
    "time_passes (pthread_cond_timedwait lib) remaining"
    using assms(1) by (simp_all add: posix_ok_def)
  obtain err c1 s1 where loop: "wait_loop (pthread_cond_timedwait lib) ?ts None ?c (d, w)
      = Some (Some err, c1, s1)"
    using wait_loop_returns [OF laws(2), of ?ts None ?c "(d, w)"] by auto
  then have "r" "t' = Some (err = ETIMEDOUT)" "s1 = (d', w')"
    using assms(2) by (auto simp: posix_wait_def dcl_pthreads_condvarWait_def split: prod.splits)
  then show ?thesis using wait_loop_signalled [OF laws(1) loop] by auto
qed

text \<open>The log of signals only grows.\<close>

definition signalled_since :: "('w \<Rightarrow> nat) \<Rightarrow> nat \<Rightarrow> dcl2_pthread_cond_t \<times> 'w \<Rightarrow> bool" where
  "signalled_since signals n cw \<longleftrightarrow> n \<le> signals (snd cw)"

lemma posix_steps:
  assumes "posix_ok lib signals remaining" "n \<le> signals (snd e)"
  shows "transmitBytes (pthreadsDeadcom lib) b p e = (x, e') \<Longrightarrow> n \<le> signals (snd e')"
    and "mutexLock (pthreadsDeadcom lib) p e = (x, e') \<Longrightarrow> n \<le> signals (snd e')"
    and "mutexUnlock (pthreadsDeadcom lib) p e = (x, e') \<Longrightarrow> n \<le> signals (snd e')"
  using assms
  by (auto simp: pthreadsDeadcom_def posix_ok_def dcl_pthreads_mutex_def case_prod_beta
      intro: order_trans)

lemma posix_condvarWait:
  assumes "posix_ok lib signals remaining" "n \<le> signals (snd e)"
    and "condvarWait (pthreadsDeadcom lib) p ms t d e = (r, t', d', e')"
  shows "r \<and> n \<le> signals (snd e') \<and> (t' = Some True \<or> t' = Some False \<and> n < signals (snd e'))"
  using posix_wait_signalled [OF assms(1), of ms t d "fst e" "snd e" r t' d' "fst e'" "snd e'"]
    assms(2,3)
  by (auto simp: pthreadsDeadcom_def)

lemma posix_leave:
  assumes "posix_ok lib signals remaining" "n \<le> signals (snd e)"
    and "leave (pthreadsDeadcom lib) r d e = Some (r', d', e')"
  shows "n \<le> signals (snd e')"
  using assms(3) posix_steps(3) [OF assms(1,2)] by (auto simp: leave_def Let_def split: prod.splits)

lemma send_loop_signalled:
  assumes "posix_ok lib signals remaining"
    and "send_loop (pthreadsDeadcom lib) f d e = Some (x, d', e')" "n \<le> signals (snd e)"
  shows "n \<le> signals (snd e') \<and> (x = SendAcked \<longrightarrow> n < signals (snd e'))"
  using assms(2,3)
proof (induction rule: send_loop_induct)
  case (transmit_failed d e e1)
  then show ?case using posix_steps(1) [OF assms(1)] by simp
next
  case (wait_failed d e e1 t d1 e2)
  then show ?case using posix_steps(1) [OF assms(1)] posix_condvarWait [OF assms(1)] by blast
next
  case (decided d e e1 t d1 e2 y d2)
  have "n \<le> signals (snd e1)" using posix_steps(1) [OF assms(1)] decided by blast
  then have "n \<le> signals (snd e2) \<and> (t \<or> n < signals (snd e2))"
    using posix_condvarWait [OF assms(1) _ decided(3)] by auto
  then show ?case using decided(4) by (auto simp: send_check_def split: if_splits)
next
  case (again d e e1 t d1 e2 d2 y d' e')
  then show ?case using posix_steps(1) [OF assms(1)] posix_condvarWait [OF assms(1)] by blast
qed simp

lemma posix_callbacks [simp]:
  "\<exists>w. mutexLock (pthreadsDeadcom lib) p e = (True, w)"
  "fst (mutexLock (pthreadsDeadcom lib) p e)" "fst (mutexUnlock (pthreadsDeadcom lib) p e)"
  by (auto simp: pthreadsDeadcom_def dcl_pthreads_mutex_def case_prod_beta)

lemma connect_signalled:
  assumes "posix_ok lib signals remaining" "state d \<noteq> DC_CONNECTED"
    and "dcConnect (pthreadsDeadcom lib) (Some d) e = Some (DC_OK, d', e')" and n: "n \<le> signals (snd e)"
  shows "n < signals (snd e')"
proof -
  let ?env = "pthreadsDeadcom lib" and ?d = "d\<lparr>state := DC_CONNECTING\<rparr>"
  obtain e0 where l: "mutexLock ?env (mutex_p d) e = (True, e0)" using posix_callbacks(1) by blast
  obtain x e1 where x: "transmitBytes ?env (frame_bytes conn_control []) (transmission_context_p d) e0
      = (x, e1)" by (rule prod.exhaust)
  obtain r t d2 e2 where w: "condvarWait ?env (condvar_p d) DEADCOM_CONN_TIMEOUT_MS (Some False) ?d e1
      = (r, t, d2, e2)" using prod_cases4 by blast
  have n0: "n \<le> signals (snd e1)" using posix_steps [OF assms(1)] n l x by blast
  from posix_condvarWait [OF assms(1) n0 w]
  have r: "r" and t: "t = Some True \<or> t = Some False \<and> n < signals (snd e2)" by auto
  have "state d \<noteq> DC_CONNECTING"
    using assms(2,3) l by (auto simp: dcConnect_def leave_def split: prod.splits if_splits)
  then have c: "(if \<not> x then leave ?env DC_FAILURE (d\<lparr>state := DC_DISCONNECTED\<rparr>) e1
      else connect_finish ?env True (the t) d2 e2) = Some (DC_OK, d', e')"
    using assms(2,3) l x w r t by (auto simp: dcConnect_def Let_def build_conn)
  then have "x" "t = Some False"
    using t by (auto simp: leave_def connect_finish_def split: prod.splits if_splits)
  then have "snd (mutexUnlock ?env (mutex_p ((resetLink d2)\<lparr>state := DC_CONNECTED\<rparr>)) e2) = e'"
    using c by (auto simp: connect_finish_def Let_def split: prod.splits if_splits)
  moreover have "Suc n \<le> signals (snd e2)" using t \<open>t = Some False\<close> by simp
  ultimately show ?thesis using posix_steps(3) [OF assms(1) _ surjective_pairing] Suc_le_lessD by metis
qed

lemma send_signalled:
  assumes "posix_ok lib signals remaining"
    and "dcSendMessage (pthreadsDeadcom lib) (Some d) m k e = Some (DC_OK, d', e')" "n \<le> signals (snd e)"
  shows "n < signals (snd e')"
proof -
  let ?env = "pthreadsDeadcom lib"
  let ?d = "d\<lparr>send_number := (send_number d + 1) mod 8, failure_count := 0, state := DC_TRANSMITTING\<rparr>"
  obtain e0 where l: "mutexLock ?env (mutex_p d) e = (True, e0)" using posix_callbacks(1) by blast
  have n0: "n \<le> signals (snd e0)" using posix_steps(2) [OF assms(1,3) l] .
  have m: "m \<noteq> None" "0 < k" "k \<le> DEADCOM_PAYLOAD_MAX_LEN" "state d = DC_CONNECTED"
    using assms(2) l by (auto simp: dcSendMessage_def leave_def split: if_splits prod.splits)
  obtain s f where f: "build_frame (data_control d) m k = Some (s, f)"
    using assms(2) l m by (auto simp: dcSendMessage_def Let_def bind_eq_Some_conv)
  have "s \<noteq> Inl EINVAL"
    using assms(2) l m f by (auto simp: dcSendMessage_def Let_def leave_def split: prod.splits if_splits)
  then obtain x d1 e1 where loop: "send_loop ?env f ?d e0 = Some (x, d1, e1)"
    and exit: "(case x of SendFailed \<Rightarrow> leave ?env DC_FAILURE d1 e1
        | SendAcked \<Rightarrow> leave ?env DC_OK (d1\<lparr>state := DC_CONNECTED\<rparr>) e1
        | SendDropped \<Rightarrow> leave ?env DC_LINK_RESET (resetLink d1) e1) = Some (DC_OK, d', e')"
    using assms(2) l m f by (auto simp: dcSendMessage_def Let_def bind_eq_Some_conv)
  have "x = SendAcked"
    using exit by (cases x) (auto simp: leave_def split: prod.splits if_splits)
  then have "Suc n \<le> signals (snd e1)"
    using send_loop_signalled [OF assms(1) loop n0] by simp
  from posix_leave [OF assms(1) this] show ?thesis
    using exit \<open>x = SendAcked\<close> by (simp add: Suc_le_eq)
qed

section \<open>Properties\<close>

text \<open>
  C15.  With the pthreads helper, spurious wake-ups never count as an answer: \<open>dcConnect\<close> on
  a link that is not connected and \<open>dcSendMessage\<close> return \<open>DC_OK\<close> only when another thread
  signalled the condition variable during the call, however often the system woke the thread
  and whatever the others did to the link.
\<close>

theorem pthreads_success_signalled:
  assumes "posix_ok lib signals remaining"
    and "call = Connect \<and> state d \<noteq> DC_CONNECTED \<or> (\<exists>m n. call = Send m n)"
    and "api_run (pthreadsDeadcom lib) call d (c, w) = Some (DC_OK, d', (c', w'))"
  shows "signals w < signals w'"
  using assms(2,3) connect_signalled [OF assms(1), of d "(c, w)" _ "(c', w')" "signals w"]
    send_signalled [OF assms(1), of d _ _ "(c, w)" _ "(c', w')" "signals w"]
  by auto

text \<open>The scripted service, whose transmissions always succeed.\<close>

definition script_lib :: "script pthread_lib" where
  "script_lib =
     \<lparr>clock_gettime = \<lambda>w. \<lparr>tv_sec = 0, tv_nsec = 0\<rparr>,
      pthread_mutex_init = \<lambda>p a w. (0, w), pthread_mutex_lock = \<lambda>p w. (0, w),
      pthread_mutex_unlock = \<lambda>p w. (0, w), pthread_cond_init = \<lambda>p a w. (0, w),
      pthread_cond_timedwait = \<lambda>ts c (d, w). (case script_wait ts c w of (r, c, w) \<Rightarrow> (r, c, (d, w))),
      pthread_cond_signal = \<lambda>p (n, xs). (Suc n, xs),
      user_transmit = \<lambda>b p w. (True, w)\<rparr>"

lemma script_lib_ok: "posix_ok script_lib fst (\<lambda>(d, w). length (snd w))"
proof -
  have "signalled_wait (pthread_cond_timedwait script_lib) (\<lambda>(d, w). fst w)"
    using script_signalled
    by (fastforce simp: signalled_wait_def script_lib_def split: prod.splits)
  moreover have "time_passes (pthread_cond_timedwait script_lib) (\<lambda>(d, w). length (snd w))"
    using script_time_passes
    by (fastforce simp: time_passes_def script_lib_def split: prod.splits)
  ultimately show ?thesis by (simp add: posix_ok_def script_lib_def)
qed

text \<open>Two spurious wake-ups, then a signal.\<close>

theorem pthreads_success_signalled_witness:
  "\<exists>d' c' w'. api_run (pthreadsDeadcom script_lib) Connect dc_zero
       (\<lparr>cond = None, mutx = None, wakeup_is_spurious = True\<rparr>, (0, [(0, False), (0, False), (0, True)])) =
     Some (DC_OK, d', (c', w')) \<and> 0 < fst w'"
proof -
  obtain d' c' w' where c: "api_run (pthreadsDeadcom script_lib) Connect dc_zero
       (\<lparr>cond = None, mutx = None, wakeup_is_spurious = True\<rparr>, (0, [(0, False), (0, False), (0, True)])) =
     Some (DC_OK, d', (c', w'))"
    by (simp add: dcConnect_def dc_zero_def pthreadsDeadcom_def script_lib_def build_conn Let_def
        dcl_pthreads_mutex_def posix_wait_def dcl_pthreads_condvarWait_def wait_loop.simps
        dcl_pthreads_condvarSignal_def ETIMEDOUT_def connect_finish_def)
  have "state dc_zero \<noteq> DC_CONNECTED" by (simp add: dc_zero_def)
  then show ?thesis using pthreads_success_signalled [OF script_lib_ok _ c] c by auto
qed

end
