(* ===== verification/Leaky_Pipe.thy ===== *)
theory Leaky_Pipe
  imports Complex_Main Deadcom_Prelude
begin

text \<open>
  The link emulator \<open>leaky-pipe/src/leaky-pipe.c\<close>: a byte pipe that drops, corrupts and
  adds octets at given positions and at random.  The pipe library (a submodule), the
  generator \<open>rand_r\<close> and the floating point quotient \<open>(float)r / (float)RAND_MAX\<close> are
  parameters.  A pair of a pointer and a length is a list; \<open>byte_counter\<close> is an integer.
\<close>

section \<open>Types\<close>

record lp_corrupt_def_t =
  position :: "32 word"
  corrupt_value :: byte

record lp_args_t =
  seed :: "32 word"
  drop_list :: "32 word list"
  corrupt_list :: "lp_corrupt_def_t list"
  add_list :: "lp_corrupt_def_t list"
  drop_prob :: rat
  corrupt_prob :: rat
  add_prob :: rat

record 'p leaky_pipe_t =
  initialized :: bool
  pipe_producer :: "'p option"
  pipe_consumer :: "'p option"
  random_state :: "32 word"
  byte_counter :: int
  drop_list_cntr :: nat
  corrupt_list_cntr :: nat
  add_list_cntr :: nat
  holes :: lp_args_t

text \<open>
  What the code calls, on handles \<open>'p\<close> and a state \<open>'w\<close> of the pipe library.
\<close>

record ('p, 'w) lp_lib =
  pipe_open :: "'w \<Rightarrow> 'p \<times> 'p \<times> 'w"
  pipe_push :: "'p \<Rightarrow> byte list \<Rightarrow> 'w \<Rightarrow> 'w"
  pipe_pop :: "'p \<Rightarrow> nat \<Rightarrow> 'w \<Rightarrow> byte list \<times> 'w"
  pipe_producer_free :: "'p \<Rightarrow> 'w \<Rightarrow> 'w"
  rand_r :: "32 word \<Rightarrow> nat \<times> 32 word"
  float_ratio :: "nat \<Rightarrow> rat"

section \<open>The code\<close>

definition good_pipe :: lp_args_t where
  "good_pipe = \<lparr>seed = 1, drop_list = [], corrupt_list = [], add_list = [],
     drop_prob = 0, corrupt_prob = 0, add_prob = 0\<rparr>"

text \<open>
  The three loops over the fault lists, from the counter on, for the position \<open>pos\<close>.
\<close>

function corrupt_loop :: "lp_corrupt_def_t list \<Rightarrow> int \<Rightarrow> nat \<Rightarrow> byte \<Rightarrow> nat \<times> byte" where
  "corrupt_loop xs pos k b =
     (if k < length xs \<and> uint (position (xs ! k)) = pos
      then corrupt_loop xs pos (k + 1) (b XOR corrupt_value (xs ! k)) else (k, b))"
  by pat_completeness auto
termination by (relation "measure (\<lambda>(xs, pos, k, b). length xs - k)") auto

function drop_loop :: "32 word list \<Rightarrow> int \<Rightarrow> nat \<Rightarrow> bool \<Rightarrow> nat \<times> bool" where
  "drop_loop xs pos k dropped =
     (if k < length xs \<and> uint (xs ! k) = pos then drop_loop xs pos (k + 1) True else (k, dropped))"
  by pat_completeness auto
termination by (relation "measure (\<lambda>(xs, pos, k, b). length xs - k)") auto

function add_loop ::
  "('p, 'w) lp_lib \<Rightarrow> 'p \<Rightarrow> lp_corrupt_def_t list \<Rightarrow> int \<Rightarrow> nat \<Rightarrow> 'w \<Rightarrow> nat \<times> 'w" where
  "add_loop lib p xs pos k w =
     (if k < length xs \<and> uint (position (xs ! k)) = pos
      then add_loop lib p xs pos (k + 1) (pipe_push lib p [corrupt_value (xs ! k)] w) else (k, w))"
  by pat_completeness auto
termination by (relation "measure (\<lambda>(lib, p, xs, pos, k, w). length xs - k)") auto

declare corrupt_loop.simps [simp del] drop_loop.simps [simp del] add_loop.simps [simp del]

text \<open>One draw compared with a probability: \<open>(float)rand_r(s) / (float)RAND_MAX <= prob\<close>.\<close>

definition draw :: "('p, 'w) lp_lib \<Rightarrow> rat \<Rightarrow> 32 word \<Rightarrow> bool \<times> 32 word" where
  "draw lib prob s = (let (r, s) = rand_r lib s in (float_ratio lib r \<le> prob, s))"

text \<open>Lines 103 to 106; with an unlucky generator the loop does not end.\<close>

partial_function (option) noise_loop ::
  "('p, 'w) lp_lib \<Rightarrow> 'p \<Rightarrow> rat \<Rightarrow> 32 word \<Rightarrow> 'w \<Rightarrow> (32 word \<times> 'w) option" where
  "noise_loop lib p prob s w =
     (let (hit, s) = draw lib prob s in
      if hit then
        let (r, s) = rand_r lib s in
        noise_loop lib p prob s (pipe_push lib p [word_of_nat (r mod 256)] w)
      else Some (s, w))"

definition lp_init_args :: "lp_args_t \<Rightarrow> lp_args_t" where
  "lp_init_args args = good_pipe"

definition lp_init :: "('p, 'w) lp_lib \<Rightarrow> lp_args_t \<Rightarrow> 'w \<Rightarrow> 'p leaky_pipe_t \<times> 'w" where
  "lp_init lib args w =
     (let (prod, cons, w) = pipe_open lib w;
          (k, w) = add_loop lib prod (add_list args) 0 0 w
      in (\<lparr>initialized = True, pipe_producer = Some prod, pipe_consumer = Some cons,
           random_state = seed args, byte_counter = 0, drop_list_cntr = 0, corrupt_list_cntr = 0,
           add_list_cntr = k, holes = args\<rparr>, w))"

definition lp_transmit ::
  "('p, 'w) lp_lib \<Rightarrow> 'p leaky_pipe_t \<Rightarrow> byte \<Rightarrow> 'w \<Rightarrow> ('p leaky_pipe_t \<times> 'w) option" where
  "lp_transmit lib lp byte w =
     (if \<not> initialized lp then Some (lp, w)
      else (case pipe_producer lp of
        None \<Rightarrow> Some (lp, w)
      | Some p \<Rightarrow> do {
          let lp = lp\<lparr>byte_counter := byte_counter lp + 1\<rparr>;
          let (k, byte) = corrupt_loop (corrupt_list (holes lp)) (byte_counter lp - 1)
                            (corrupt_list_cntr lp) byte;
          let lp = lp\<lparr>corrupt_list_cntr := k\<rparr>;
          let (k, dropped) = drop_loop (drop_list (holes lp)) (byte_counter lp - 1)
                            (drop_list_cntr lp) False;
          let lp = lp\<lparr>drop_list_cntr := k\<rparr>;
          let (hit, s) = draw lib (corrupt_prob (holes lp)) (random_state lp);
          let (byte, s) = (if hit then let (r, s) = rand_r lib s in (byte XOR push_bit (r mod 8) 1, s)
                           else (byte, s));
          let (hit, s) = draw lib (drop_prob (holes lp)) s;
          let dropped = (dropped \<or> hit);
          let w = (if \<not> dropped then pipe_push lib p [byte] w else w);
          let (k, w) = add_loop lib p (add_list (holes lp)) (byte_counter lp) (add_list_cntr lp) w;
          let lp = lp\<lparr>add_list_cntr := k\<rparr>;
          (s, w) \<leftarrow> noise_loop lib p (add_prob (holes lp)) s w;
          Some (lp\<lparr>random_state := s\<rparr>, w)
        }))"

definition lp_receive ::
  "('p, 'w) lp_lib \<Rightarrow> 'p leaky_pipe_t \<Rightarrow> nat \<Rightarrow> 'w \<Rightarrow> (byte list \<times> 'w) option" where
  "lp_receive lib lp buffer_size w =
     (if \<not> initialized lp then Some ([], w)
      else map_option (\<lambda>c. pipe_pop lib c buffer_size w) (pipe_consumer lp))"

definition lp_cutoff :: "('p, 'w) lp_lib \<Rightarrow> 'p leaky_pipe_t \<Rightarrow> 'w \<Rightarrow> 'p leaky_pipe_t \<times> 'w" where
  "lp_cutoff lib lp w =
     (if \<not> initialized lp then (lp, w)
      else (case pipe_producer lp of
        None \<Rightarrow> (lp, w)
      | Some p \<Rightarrow> (lp\<lparr>pipe_producer := None\<rparr>, pipe_producer_free lib p w)))"

fun transmit_all ::
  "('p, 'w) lp_lib \<Rightarrow> 'p leaky_pipe_t \<Rightarrow> byte list \<Rightarrow> 'w \<Rightarrow> ('p leaky_pipe_t \<times> 'w) option" where
  "transmit_all lib lp [] w = Some (lp, w)"
| "transmit_all lib lp (b # bs) w = do {
     (lp, w) \<leftarrow> lp_transmit lib lp b w;
     transmit_all lib lp bs w
   }"

section \<open>What the fault lists mean\<close>

text \<open>
  A list sorted by position; \<open>passed\<close> is the number of entries before a position.
\<close>

definition at_pos :: "int \<Rightarrow> lp_corrupt_def_t list \<Rightarrow> byte list" where
  "at_pos i xs = map corrupt_value (filter (\<lambda>x. uint (position x) = i) xs)"

definition sorted_pos :: "lp_corrupt_def_t list \<Rightarrow> bool" where
  "sorted_pos xs \<longleftrightarrow> sorted (map (\<lambda>x. uint (position x)) xs)"

definition passed :: "('a \<Rightarrow> int) \<Rightarrow> int \<Rightarrow> 'a list \<Rightarrow> nat" where
  "passed f i xs = length (filter (\<lambda>x. f x < i) xs)"

text \<open>The entries from the counter on, when it stands at the position's first entry.\<close>

lemma drop_passed:
  assumes "sorted (map f xs)"
  shows "drop (passed f i xs) xs = filter (\<lambda>x. f x = i) xs @ filter (\<lambda>x. i < f x) xs"
  using assms
proof (induction xs)
  case (Cons x xs)
  then show ?case
  proof (cases "f x < i")
    case True
    then show ?thesis using Cons by (simp add: passed_def)
  next
    case False
    then have none: "filter (\<lambda>x. f x < i) xs = []"
      using Cons.prems by (auto simp: filter_empty_conv)
    show ?thesis
    proof (cases "f x = i")
      case True
      then show ?thesis using Cons none by (simp add: passed_def)
    next
      case False
      then have "filter (\<lambda>x. f x = i) xs = []" "filter (\<lambda>y. i < f y) xs = xs"
        using \<open>\<not> f x < i\<close> Cons.prems by (auto simp: filter_empty_conv filter_id_conv)
      then show ?thesis using none False \<open>\<not> f x < i\<close> by (simp add: passed_def)
    qed
  qed
qed (simp add: passed_def)

lemma passed_Suc: "passed f (i + 1) xs = passed f i xs + length (filter (\<lambda>x. f x = i) xs)"
  by (induction xs) (auto simp: passed_def)

text \<open>
  A loop over the entries from a counter on consumes the entries of its position.
\<close>

lemma corrupt_loop_run:
  "drop k xs = ys @ zs \<Longrightarrow> \<forall>y \<in> set ys. uint (position y) = pos \<Longrightarrow>
     zs = [] \<or> uint (position (hd zs)) \<noteq> pos \<Longrightarrow>
     corrupt_loop xs pos k b = (k + length ys, foldl (XOR) b (map corrupt_value ys))"
proof (induction ys arbitrary: k b)
  case Nil
  then have "\<not> (k < length xs \<and> uint (position (xs ! k)) = pos)"
    by (auto simp: hd_drop_conv_nth)
  then show ?case by (subst corrupt_loop.simps) auto
next
  case (Cons y ys)
  then have k: "k < length xs" by (metis append_Cons drop_eq_Nil list.distinct(1) not_le)
  then have "xs ! k = y" "drop (Suc k) xs = ys @ zs"
    using Cons.prems(1) by (simp_all add: Cons_nth_drop_Suc [symmetric])
  then show ?case
    using k Cons by (subst corrupt_loop.simps) simp
qed

lemma drop_loop_run:
  "drop k xs = ys @ zs \<Longrightarrow> \<forall>y \<in> set ys. uint y = pos \<Longrightarrow> zs = [] \<or> uint (hd zs) \<noteq> pos \<Longrightarrow>
     drop_loop xs pos k b = (k + length ys, b \<or> ys \<noteq> [])"
proof (induction ys arbitrary: k b)
  case Nil
  then have "\<not> (k < length xs \<and> uint (xs ! k) = pos)"
    by (auto simp: hd_drop_conv_nth)
  then show ?case by (subst drop_loop.simps) auto
next
  case (Cons y ys)
  then have k: "k < length xs" by (metis append_Cons drop_eq_Nil list.distinct(1) not_le)
  then have "xs ! k = y" "drop (Suc k) xs = ys @ zs"
    using Cons.prems(1) by (simp_all add: Cons_nth_drop_Suc [symmetric])
  then show ?case
    using k Cons by (subst drop_loop.simps) simp
qed

text \<open>The documented behaviour of the pipe library: pushed octets queue up in order.\<close>

definition fifo :: "('p, 'w) lp_lib \<Rightarrow> ('w \<Rightarrow> byte list) \<Rightarrow> bool" where
  "fifo lib content \<longleftrightarrow> (\<forall>p bs w. content (pipe_push lib p bs w) = content w @ bs) \<and>
     (\<forall>w. content (snd (snd (pipe_open lib w))) = [])"

lemma add_loop_run:
  assumes "fifo lib content"
  shows "drop k xs = ys @ zs \<Longrightarrow> \<forall>y \<in> set ys. uint (position y) = pos \<Longrightarrow>
     zs = [] \<or> uint (position (hd zs)) \<noteq> pos \<Longrightarrow>
     \<exists>w'. add_loop lib p xs pos k w = (k + length ys, w') \<and>
       content w' = content w @ map corrupt_value ys"
proof (induction ys arbitrary: k w)
  case Nil
  then have "\<not> (k < length xs \<and> uint (position (xs ! k)) = pos)"
    by (auto simp: hd_drop_conv_nth)
  then show ?case by (subst add_loop.simps) auto
next
  case (Cons y ys)
  then have k: "k < length xs" by (metis append_Cons drop_eq_Nil list.distinct(1) not_le)
  then have y: "xs ! k = y" "drop (Suc k) xs = ys @ zs"
    using Cons.prems(1) by (simp_all add: Cons_nth_drop_Suc [symmetric])
  have "content (pipe_push lib p [corrupt_value y] w) = content w @ [corrupt_value y]"
    using assms by (simp add: fifo_def)
  then show ?case
    using k y Cons.IH [of "Suc k" "pipe_push lib p [corrupt_value y] w"] Cons.prems(2, 3)
    by (subst add_loop.simps) simp
qed

section \<open>The pipe without random faults\<close>

text \<open>
  For the next \<open>n\<close> octets none of the three draws per octet, from the state \<open>s\<close> of the
  generator on, is at most its probability.  What the generator yields otherwise, 0
  included, does not matter.
\<close>

fun lucky :: "('p, 'w) lp_lib \<Rightarrow> lp_args_t \<Rightarrow> nat \<Rightarrow> 32 word \<Rightarrow> bool" where
  "lucky lib args 0 s \<longleftrightarrow> True"
| "lucky lib args (Suc n) s \<longleftrightarrow>
     (let (corrupts, s) = draw lib (corrupt_prob args) s;
          (drops, s) = draw lib (drop_prob args) s;
          (adds, s) = draw lib (add_prob args) s
      in \<not> corrupts \<and> \<not> drops \<and> \<not> adds \<and> lucky lib args n s)"

definition sorted_args :: "lp_args_t \<Rightarrow> bool" where
  "sorted_args args \<longleftrightarrow> sorted (map uint (drop_list args)) \<and>
     sorted_pos (corrupt_list args) \<and> sorted_pos (add_list args)"

text \<open>What the lists say comes out for the octet \<open>b\<close> at position \<open>i\<close>, and for a message.\<close>

definition sent :: "lp_args_t \<Rightarrow> int \<Rightarrow> byte \<Rightarrow> byte list" where
  "sent args i b =
     (if i \<in> uint ` set (drop_list args) then [] else [foldl (XOR) b (at_pos i (corrupt_list args))])
     @ at_pos (i + 1) (add_list args)"

fun expected :: "lp_args_t \<Rightarrow> int \<Rightarrow> byte list \<Rightarrow> byte list" where
  "expected args i [] = []"
| "expected args i (b # bs) = sent args i b @ expected args (i + 1) bs"

definition lp_at :: "lp_args_t \<Rightarrow> int \<Rightarrow> 'p leaky_pipe_t \<Rightarrow> bool" where
  "lp_at args i lp \<longleftrightarrow> initialized lp \<and> pipe_producer lp \<noteq> None \<and> holes lp = args \<and>
     byte_counter lp = i \<and>
     drop_list_cntr lp = passed uint i (drop_list args) \<and>
     corrupt_list_cntr lp = passed (\<lambda>x. uint (position x)) i (corrupt_list args) \<and>
     add_list_cntr lp = passed (\<lambda>x. uint (position x)) (i + 1) (add_list args)"

lemma filter_hd_greater: "zs = filter (\<lambda>x. i < f x) xs \<Longrightarrow> zs = [] \<or> f (hd zs) \<noteq> (i :: int)"
  by (cases zs) (auto dest!: Cons_eq_filterD)

lemma noise_lucky: "\<not> fst (draw lib prob s) \<Longrightarrow> noise_loop lib p prob s w = Some (snd (draw lib prob s), w)"
  by (subst noise_loop.simps) (simp add: case_prod_beta)

lemma transmit_step:
  assumes "fifo lib content" "lucky lib args (Suc n) (random_state lp)" "sorted_args args" "lp_at args i lp"
  shows "\<exists>lp' w'. lp_transmit lib lp b w = Some (lp', w') \<and> lp_at args (i + 1) lp' \<and>
    lucky lib args n (random_state lp') \<and> content w' = content w @ sent args i b"
proof -
  let ?pos = "\<lambda>x. uint (position x)"
  obtain p where p: "pipe_producer lp = Some p" using assms(4) by (auto simp: lp_at_def)
  have lp: "initialized lp" "holes lp = args" "byte_counter lp = i"
    "drop_list_cntr lp = passed uint i (drop_list args)"
    "corrupt_list_cntr lp = passed ?pos i (corrupt_list args)"
    "add_list_cntr lp = passed ?pos (i + 1) (add_list args)"
    using assms(4) by (simp_all add: lp_at_def)
  have sorted: "sorted (map uint (drop_list args))" "sorted (map ?pos (corrupt_list args))"
    "sorted (map ?pos (add_list args))"
    using assms(3) by (simp_all add: sorted_args_def sorted_pos_def)
  have corrupt: "corrupt_loop (corrupt_list args) i (passed ?pos i (corrupt_list args)) b =
      (passed ?pos (i + 1) (corrupt_list args), foldl (XOR) b (at_pos i (corrupt_list args)))"
    using corrupt_loop_run [OF drop_passed [OF sorted(2), of i] _ filter_hd_greater [OF refl], of b]
    by (simp add: passed_Suc at_pos_def)
  have drop: "drop_loop (drop_list args) i (passed uint i (drop_list args)) False =
      (passed uint (i + 1) (drop_list args), i \<in> uint ` set (drop_list args))"
    using drop_loop_run [OF drop_passed [OF sorted(1), of i] _ filter_hd_greater [OF refl], of False]
    by (auto simp: passed_Suc filter_empty_conv)
  have add: "\<exists>w'. add_loop lib p (add_list args) (i + 1) (passed ?pos (i + 1) (add_list args)) w =
      (passed ?pos (i + 1 + 1) (add_list args), w') \<and> content w' = content w @ at_pos (i + 1) (add_list args)"
    for w
  proof -
    have "\<forall>y \<in> set (filter (\<lambda>x. ?pos x = i + 1) (add_list args)). ?pos y = i + 1" by simp
    from add_loop_run [OF assms(1) drop_passed [OF sorted(3), of "i + 1"] this filter_hd_greater [OF refl], of p w]
    show ?thesis by (simp only: passed_Suc [of _ "i + 1"] at_pos_def)
  qed
  obtain s1 s2 s3 where luck: "draw lib (corrupt_prob args) (random_state lp) = (False, s1)"
    "draw lib (drop_prob args) s1 = (False, s2)" "draw lib (add_prob args) s2 = (False, s3)"
    "lucky lib args n s3"
    using assms(2) by (auto simp: Let_def split: prod.splits)
  then have noise: "noise_loop lib p (add_prob args) s2 w = Some (s3, w)" for w
    by (simp add: noise_lucky)
  let ?b = "foldl (XOR) b (at_pos i (corrupt_list args))"
  let ?w = "if i \<in> uint ` set (drop_list args) then w else pipe_push lib p [?b] w"
  obtain w' where w': "add_loop lib p (add_list args) (i + 1) (passed ?pos (i + 1) (add_list args)) ?w =
      (passed ?pos (i + 1 + 1) (add_list args), w')"
    and content: "content w' = content ?w @ at_pos (i + 1) (add_list args)"
    using add by blast
  have push: "content (pipe_push lib p bs w) = content w @ bs" for bs w
    using assms(1) by (simp add: fifo_def)
  show ?thesis
    using p lp corrupt drop w' luck content
    by (auto simp: lp_transmit_def lp_at_def Let_def noise sent_def push)
qed

lemma transmit_all_expected:
  assumes "fifo lib content" "sorted_args args"
  shows "lp_at args i lp \<Longrightarrow> lucky lib args (length bs) (random_state lp) \<Longrightarrow> \<exists>lp' w'. transmit_all lib lp bs w = Some (lp', w') \<and>
    lp_at args (i + int (length bs)) lp' \<and> content w' = content w @ expected args i bs"
proof (induction bs arbitrary: i lp w)
  case (Cons b bs)
  obtain lp1 w1 where step: "lp_transmit lib lp b w = Some (lp1, w1)" "lp_at args (i + 1) lp1"
    "lucky lib args (length bs) (random_state lp1)" "content w1 = content w @ sent args i b"
    using transmit_step [OF assms(1) _ assms(2) Cons.prems(1), of "length bs" b w] Cons.prems(2) by auto
  then show ?case using Cons.IH [OF step(2,3), of w1] by (auto simp: add.assoc)
qed simp

lemma passed_0 [simp]: "passed (\<lambda>x. uint (g x)) 0 xs = 0"
  by (auto simp: passed_def filter_empty_conv not_less)

lemma lp_init_at:
  assumes "fifo lib content" "sorted_args args"
  shows "lp_at args 0 (fst (lp_init lib args w)) \<and>
    content (snd (lp_init lib args w)) = at_pos 0 (add_list args)"
proof -
  let ?pos = "\<lambda>x. uint (position x)"
  obtain p c w1 where open_pipe: "pipe_open lib w = (p, c, w1)" using prod_cases3 by blast
  then have "content w1 = []" using assms(1) unfolding fifo_def by (metis snd_conv)
  have sorted: "sorted (map ?pos (add_list args))"
    using assms(2) by (simp add: sorted_args_def sorted_pos_def)
  obtain w2 where "add_loop lib p (add_list args) 0 (passed ?pos 0 (add_list args)) w1 =
      (passed ?pos 0 (add_list args) + length (filter (\<lambda>x. ?pos x = 0) (add_list args)), w2)"
    "content w2 = content w1 @ at_pos 0 (add_list args)"
    using add_loop_run [OF assms(1) drop_passed [OF sorted, of 0] _ filter_hd_greater [OF refl], of p w1]
    by (auto simp: at_pos_def)
  then show ?thesis
    using open_pipe \<open>content w1 = []\<close>
    by (simp add: lp_init_def lp_at_def passed_Suc [of _ 0, simplified])
qed

lemma lp_init_random: "random_state (fst (lp_init lib args w)) = seed args"
  by (simp add: lp_init_def case_prod_beta Let_def)

section \<open>A queue and a generator for examples\<close>

definition queue_lib :: "nat \<Rightarrow> (unit, byte list) lp_lib" where
  "queue_lib r = \<lparr>pipe_open = \<lambda>w. ((), (), []), pipe_push = \<lambda>p bs w. w @ bs,
     pipe_pop = \<lambda>p n w. (take n w, drop n w), pipe_producer_free = \<lambda>p w. w,
     rand_r = \<lambda>s. (r, s + 1), float_ratio = \<lambda>r. of_nat r / 2147483648\<rparr>"

lemma queue_fifo: "fifo (queue_lib r) id"
  by (simp add: fifo_def queue_lib_def)

lemma queue_lucky:
  "drop_prob args = 0 \<Longrightarrow> corrupt_prob args = 0 \<Longrightarrow> add_prob args = 0 \<Longrightarrow> lucky (queue_lib 5) args n s"
  by (induction n arbitrary: s) (simp_all add: draw_def queue_lib_def)

section \<open>Properties\<close>

text \<open>
  The fault lists do what \<open>leaky-pipe.h\<close> documents: with sorted lists, a pipe library
  that queues octets in order, and a generator that does not strike, a new pipe delivers
  the octets added at position 0, then for each transmitted octet the octet exclusive-or
  all values for its position unless it is to be dropped, followed by the octets added
  after it; added octets do not count as positions.
\<close>

theorem fault_lists_meaning:
  assumes "fifo lib content" "lucky lib args (length bs) (seed args)" "sorted_args args"
  shows "\<exists>lp w'. transmit_all lib (fst (lp_init lib args w)) bs (snd (lp_init lib args w)) = Some (lp, w') \<and>
    content w' = at_pos 0 (add_list args) @ expected args 0 bs"
  using transmit_all_expected [OF assms(1,3)] lp_init_at [OF assms(1,3), of w] assms(2)
  by (metis lp_init_random)

text \<open>The example of the header file.\<close>

theorem fault_lists_meaning_witness:
  "\<exists>lp. transmit_all (queue_lib 5)
      (fst (lp_init (queue_lib 5) (good_pipe
        \<lparr>drop_list := [2, 3],
         corrupt_list := [\<lparr>position = 0, corrupt_value = 20\<rparr>, \<lparr>position = 3, corrupt_value = 20\<rparr>],
         add_list := [\<lparr>position = 0, corrupt_value = 0xF0\<rparr>, \<lparr>position = 0, corrupt_value = 0x0D\<rparr>,
                      \<lparr>position = 4, corrupt_value = 0xFF\<rparr>]\<rparr>) []))
      [0x10, 0x15, 0x20, 0x25, 0x30] [0xF0, 0x0D]
    = Some (lp, [0xF0, 0x0D, 0x04, 0x15, 0xFF, 0x30])"
proof -
  let ?args = "good_pipe
        \<lparr>drop_list := [2, 3],
         corrupt_list := [\<lparr>position = 0, corrupt_value = 20\<rparr>, \<lparr>position = 3, corrupt_value = 20\<rparr>],
         add_list := [\<lparr>position = 0, corrupt_value = 0xF0\<rparr>, \<lparr>position = 0, corrupt_value = 0x0D\<rparr>,
                      \<lparr>position = 4, corrupt_value = 0xFF\<rparr>]\<rparr>"
  have luck: "lucky (queue_lib 5) ?args n s" for n s
    by (rule queue_lucky) (simp_all add: good_pipe_def)
  have ordered: "sorted_args ?args"
    by (simp add: sorted_args_def sorted_pos_def good_pipe_def)
  have "snd (lp_init (queue_lib 5) ?args []) = [0xF0, 0x0D]"
    by (simp add: lp_init_def queue_lib_def add_loop.simps)
  moreover have "at_pos 0 (add_list ?args) @ expected ?args 0 [0x10, 0x15, 0x20, 0x25, 0x30]
      = [0xF0, 0x0D, 0x04, 0x15, 0xFF, 0x30]"
    by (simp add: at_pos_def sent_def good_pipe_def)
  ultimately show ?thesis
    using fault_lists_meaning [OF queue_fifo luck ordered, of "[]" "[0x10, 0x15, 0x20, 0x25, 0x30]"]
    by (simp only: id_apply) blast
qed

text \<open>
  A probability of zero does not mean never: because the draw is compared with \<open><=\<close>, a
  pipe with the default arguments of \<open>lp_init_args\<close>, "a flawless pipe", loses an octet
  whenever the generator yields 0 for the drop test, whatever it yields otherwise.
\<close>

theorem zero_probability_drops:
  assumes "initialized lp" "pipe_producer lp = Some p" "holes lp = good_pipe"
    and "float_ratio lib 0 = 0" "\<forall>r > 0. 0 < float_ratio lib r"
    and "rand_r lib (random_state lp) = (r1, s1)" "0 < r1" "rand_r lib s1 = (0, s2)"
    and "rand_r lib s2 = (r3, s3)" "0 < r3"
  shows "\<exists>lp'. lp_transmit lib lp b w = Some (lp', w) \<and> byte_counter lp' = byte_counter lp + 1"
proof -
  have "\<not> fst (draw lib 0 (random_state lp))" "snd (draw lib 0 (random_state lp)) = s1"
    "draw lib 0 s1 = (True, s2)" "\<not> fst (draw lib 0 s2)"
    using assms(4-10) by (simp_all add: draw_def not_le)
  then show ?thesis
    using assms(1-3)
    by (simp add: lp_transmit_def good_pipe_def corrupt_loop.simps drop_loop.simps add_loop.simps
        noise_lucky Let_def case_prod_beta)
qed

text \<open>A flawless pipe whose generator yields 5, 0, 5.\<close>

theorem zero_probability_drops_witness:
  "\<exists>lp'. lp_transmit ((queue_lib 5)\<lparr>rand_r := \<lambda>s. (if s = 2 then 0 else 5, s + 1)\<rparr>)
      (fst (lp_init (queue_lib 5) good_pipe [])) 0x41 [] = Some (lp', []) \<and> byte_counter lp' = 1"
  using zero_probability_drops
    [of "fst (lp_init (queue_lib 5) good_pipe [])" "()"
        "(queue_lib 5)\<lparr>rand_r := \<lambda>s. (if s = 2 then 0 else 5, s + 1)\<rparr>" 5 2 3 5 4 "0x41" "[]"]
  by (simp add: lp_init_def queue_lib_def good_pipe_def add_loop.simps)

end
