(* ===== verification/Dcl2_Emulated.thy ===== *)
theory Dcl2_Emulated
  imports Dcl2_Delivery Leaky_Pipe
begin

text \<open>
  The link over the emulator: the octets of a frame are given to \<open>lp_transmit\<close> one by one, a
  receiving thread takes them with \<open>lp_receive\<close> and feeds them to \<open>dcProcessData\<close>, as the
  integration tests connect two stations.  The emulator's fault lists then act on the link.
\<close>

section \<open>The receiving thread\<close>

text \<open>
  \<open>n\<close> rounds of the loop: one octet is received and processed, whatever the result.
\<close>

fun rx_octets ::
  "('p, 'w) lp_lib \<Rightarrow> 'e dcl2_env \<Rightarrow> 'p leaky_pipe_t \<Rightarrow> nat \<Rightarrow> DeadcomL2 \<Rightarrow> 'e \<Rightarrow> 'w
     \<Rightarrow> (DeadcomL2 \<times> 'e \<times> 'w) option" where
  "rx_octets lib env lp 0 d e w = Some (d, e, w)"
| "rx_octets lib env lp (Suc n) d e w = do {
     (b, w) \<leftarrow> lp_receive lib lp 1 w;
     if b = [] then Some (d, e, w)
     else do {
       (r, d, e) \<leftarrow> dcProcessData env (Some d) (Some b) (length b) e;
       rx_octets lib env lp n (the d) e w
     }
   }"

text \<open>Taking octets out of the pipe: what the library documents for a pipe that holds enough.\<close>

definition pops :: "('p, 'w) lp_lib \<Rightarrow> ('w \<Rightarrow> byte list) \<Rightarrow> bool" where
  "pops lib content \<longleftrightarrow> (\<forall>p n w. n \<le> length (content w) \<longrightarrow>
     fst (pipe_pop lib p n w) = take n (content w) \<and> content (snd (pipe_pop lib p n w)) = drop n (content w))"

lemma rx_octets_run:
  assumes "pops lib content" "initialized lp" "pipe_consumer lp = Some p" "mutex_ok env"
  shows "link_ready d \<Longrightarrow> rx_bytes env d e bs = Some (True, d', e') \<Longrightarrow> content w = bs @ r \<Longrightarrow>
    \<exists>w'. rx_octets lib env lp (length bs) d e w = Some (d', e', w') \<and> content w' = r"
proof (induction bs arbitrary: d e w)
  case (Cons b bs)
  have "rx_bytes env d e ([b] @ bs) = Some (True, d', e')" using Cons.prems(2) by simp
  then obtain d1 e1 where one: "rx_bytes env d e [b] = Some (True, d1, e1)"
    and rest: "rx_bytes env d1 e1 bs = Some (True, d', e')"
    unfolding rx_bytes_append by (auto split: option.splits bool.splits)
  have pop: "fst (pipe_pop lib p 1 w) = [b]" "content (snd (pipe_pop lib p 1 w)) = bs @ r"
    using assms(1) [unfolded pops_def, rule_format, of 1 w p] Cons.prems(3) by simp_all
  then obtain w1 where w1: "lp_receive lib lp 1 w = Some ([b], w1)" "content w1 = bs @ r"
    using assms(2,3) by (cases "pipe_pop lib p 1 w") (auto simp: lp_receive_def)
  have "dcProcessData env (Some d) (Some [b]) (length [b]) e = Some (DC_OK, Some d1, e1)"
    using dcProcessData_rx [OF assms(4) Cons.prems(1), of "[b]" e] one by (simp add: dc_result_def)
  moreover have "link_ready d1" using ready.rx_bytes_keeps [OF one] Cons.prems(1) by simp
  ultimately show ?case using Cons.IH [OF _ rest w1(2)] w1(1) by simp
qed simp

section \<open>Octets the fault lists leave alone\<close>

lemma expected_append:
  "expected args i (xs @ ys) = expected args i xs @ expected args (i + int (length xs)) ys"
  by (induction xs arbitrary: i) (simp_all add: add.assoc)

lemma expected_clean:
  assumes "drop_list args = []" "add_list args = []"
  shows "\<forall>x\<in>set (corrupt_list args). uint (position x) < i \<or> i + int (length xs) \<le> uint (position x)
    \<Longrightarrow> expected args i xs = xs"
proof (induction xs arbitrary: i)
  case (Cons b xs)
  have "at_pos i (corrupt_list args) = []"
    using Cons.prems by (fastforce simp: at_pos_def filter_empty_conv)
  moreover have "expected args (i + 1) xs = xs" using Cons.prems by (intro Cons.IH) auto
  ultimately show ?case using assms by (simp add: sent_def at_pos_def)
qed simp

lemma expected_burst:
  assumes "drop_list args = []" "add_list args = []" "corrupt_list args = [p, q]"
    and "uint (position p) = int (length xs)" "uint (position q) = int (length xs) + 1"
  shows "expected args 0 (xs @ [a1, a2] @ ys) =
    xs @ [a1 XOR corrupt_value p, a2 XOR corrupt_value q] @ ys"
proof -
  have "expected args 0 xs = xs" "expected args (int (length xs) + 2) ys = ys"
    using assms by (auto intro!: expected_clean)
  moreover have "expected args (int (length xs)) [a1, a2] = [a1 XOR corrupt_value p, a2 XOR corrupt_value q]"
    using assms by (simp add: sent_def at_pos_def)
  ultimately show ?thesis by (simp only: expected_append) (simp add: add.commute)
qed

section \<open>A frame the line corrupts\<close>

lemma rx_refused:
  assumes "link_idle d" "length ys = length (frame_body c m)" "fits c m" "unstuff False mid = ys"
    and "\<not> run_accepted mid" "YAHDLC_FLAG_SEQUENCE \<notin> set mid" "mid \<noteq> []"
  shows "rx_bytes env d e (YAHDLC_FLAG_SEQUENCE # mid @ [YAHDLC_FLAG_SEQUENCE]) =
    Some (True, d\<lparr>yahdlc_state := restarted DEADCOM_MAX_FRAME_LEN,
                 scratchpadBuffer := filled (scratchpadBuffer d) ys\<rparr>, e)"
proof -
  have "length (unstuff False mid) - 2 < DEADCOM_MAX_FRAME_LEN"
    "length (unstuff False mid) - 2 \<le> length (scratchpadBuffer d)"
    using assms(1-4) by (auto simp: fits_def length_frame_body_payload DEADCOM_MAX_FRAME_LEN_def
        DEADCOM_PAYLOAD_MAX_LEN_def link_idle_def link_inv_def)
  then show ?thesis
    using rx_run_of_octets [of DEADCOM_MAX_FRAME_LEN d mid env e] assms
    by (simp add: link_idle_def Let_def)
qed

lemma filled_again:
  "length xs = length ys \<Longrightarrow> filled (filled sc xs) ys = filled sc ys"
  by (simp add: filled_def)

text \<open>After a refused frame, a frame has the effect it would have had without.\<close>

lemma frame_after_refused:
  assumes "mutex_ok env" "link_idle d" "fits c m" "length ys = length (frame_body c m)"
    and "dcProcessData env (Some d) (Some (frame_bytes c m)) (length (frame_bytes c m)) e =
      Some (DC_OK, Some d', e')"
  shows "rx_bytes env (d\<lparr>yahdlc_state := restarted DEADCOM_MAX_FRAME_LEN,
      scratchpadBuffer := filled (scratchpadBuffer d) ys\<rparr>) e (frame_bytes c m) = Some (True, d', e')"
proof -
  let ?d = "d\<lparr>yahdlc_state := restarted DEADCOM_MAX_FRAME_LEN,
      scratchpadBuffer := filled (scratchpadBuffer d) ys\<rparr>"
  have "length (filled (scratchpadBuffer d) ys) = length (scratchpadBuffer d)"
    using assms(2-4) by (intro length_filled)
      (simp add: fits_def length_frame_body_payload link_idle_def link_inv_def)
  then have idle: "link_idle ?d"
    using assms(2) by (simp add: link_idle_def link_inv_def parser_idle_def parser_inv_restarted)
  have "after_frame c m ?d = after_frame c m d"
    using assms(4) by (simp add: after_frame_def filled_again)
  then have "dcProcessData env (Some ?d) (Some (frame_bytes c m)) (length (frame_bytes c m)) e =
      Some (DC_OK, Some d', e')"
    using assms(5) process_frame [OF assms(1,2,3), of e] process_frame [OF assms(1) idle assms(3), of e]
    by simp
  then show ?thesis
    using dcProcessData_rx [OF assms(1), of ?d "frame_bytes c m" e] idle
    by (auto simp: dc_result_def frame_bytes_not_Nil split: if_splits)
qed

section \<open>Over the emulator\<close>

text \<open>
  The handle the receiver reads from is the one the pipe was opened with; transmitting keeps it.
\<close>

lemma lp_transmit_consumer:
  "lp_transmit lib lp b w = Some (lp', w') \<Longrightarrow> pipe_consumer lp' = pipe_consumer lp"
  by (auto simp: lp_transmit_def Let_def bind_eq_Some_conv split: option.splits prod.splits if_splits)

lemma transmit_all_consumer:
  "transmit_all lib lp bs w = Some (lp', w') \<Longrightarrow> pipe_consumer lp' = pipe_consumer lp"
  by (induction bs arbitrary: lp w) (auto simp: bind_eq_Some_conv dest: lp_transmit_consumer)

lemma lp_init_consumer: "\<exists>p. pipe_consumer (fst (lp_init lib args w)) = Some p"
  by (simp add: lp_init_def case_prod_beta)

text \<open>Whatever the fault lists make of the octets is what the link processes.\<close>

lemma emulated:
  assumes "fifo lib content" "pops lib content" "lucky lib args (length bs) (seed args)" "sorted_args args" "mutex_ok env" "link_ready d"
    and "rx_bytes env d e (at_pos 0 (add_list args) @ expected args 0 bs) = Some (True, d', e')"
  shows "\<exists>lp w w'. transmit_all lib (fst (lp_init lib args w0)) bs (snd (lp_init lib args w0)) = Some (lp, w) \<and>
    rx_octets lib env lp (length (at_pos 0 (add_list args) @ expected args 0 bs)) d e w = Some (d', e', w') \<and>
    content w' = []"
proof -
  have init: "lp_at args 0 (fst (lp_init lib args w0))"
    "content (snd (lp_init lib args w0)) = at_pos 0 (add_list args)"
    using lp_init_at [OF assms(1,4)] by blast+
  obtain lp w where t: "transmit_all lib (fst (lp_init lib args w0)) bs (snd (lp_init lib args w0)) = Some (lp, w)"
    "lp_at args (0 + int (length bs)) lp" "content w = at_pos 0 (add_list args) @ expected args 0 bs"
    using transmit_all_expected [OF assms(1,4) init(1), of bs "snd (lp_init lib args w0)"] init(2) assms(3)
    by (metis lp_init_random)
  obtain p where p: "pipe_consumer lp = Some p"
    using transmit_all_consumer [OF t(1)] lp_init_consumer [of lib args w0] by metis
  have "initialized lp" using t(2) by (simp add: lp_at_def)
  then show ?thesis
    using rx_octets_run [OF assms(2) _ p assms(5,6,7), of w "[]"] t by auto
qed

section \<open>Properties\<close>

text \<open>
  C24. The link over the emulated line.  The emulator is given a frame twice, as by a sender that
  repeats it, and changes two neighbouring octets of the first copy (at least one of them, and
  none of the octets involved is a flag or an escape octet).  The receiving thread then leaves the link and
  its environment exactly as if the frame had arrived once, unchanged: the first copy has no
  effect at all, whatever the frame and the state of the link.
\<close>

theorem corrupted_then_repeated:
  assumes "fifo lib content" "pops lib content" "lucky lib args (2 * length (frame_bytes c m)) (seed args)"
    and args: "drop_list args = []" "add_list args = []" "corrupt_list args = [p, q]"
    and pos: "uint (position p) = int (length xs) + 1" "uint (position q) = int (length xs) + 2"
    and frame: "frame_bytes c m = YAHDLC_FLAG_SEQUENCE # xs @ [a1, a2] @ ys @ [YAHDLC_FLAG_SEQUENCE]"
    and change: "corrupt_value p \<noteq> 0 \<or> corrupt_value q \<noteq> 0"
    and plain: "{a1, a2, a1 XOR corrupt_value p, a2 XOR corrupt_value q} \<inter>
        {YAHDLC_FLAG_SEQUENCE, YAHDLC_CONTROL_ESCAPE} = {}"
    and "mutex_ok env" "link_idle d" "fits c m"
    and once: "dcProcessData env (Some d) (Some (frame_bytes c m)) (length (frame_bytes c m)) e =
      Some (DC_OK, Some d', e')"
  shows "\<exists>lp w w'. transmit_all lib (fst (lp_init lib args w0)) (frame_bytes c m @ frame_bytes c m)
      (snd (lp_init lib args w0)) = Some (lp, w) \<and>
    rx_octets lib env lp (2 * length (frame_bytes c m)) d e w = Some (d', e', w') \<and> content w' = []"
proof -
  let ?b1 = "a1 XOR corrupt_value p" and ?b2 = "a2 XOR corrupt_value q"
  let ?bad = "xs @ [?b1, ?b2] @ ys"
  have ne: "[?b1, ?b2] \<noteq> [a1, a2]"
    using change byte_xor_right_inject [of a1 "corrupt_value p" 0]
      byte_xor_right_inject [of a2 "corrupt_value q" 0] by auto
  note burst = burst_not_accepted [OF frame ne plain]
  have ex: "expected args 0 (frame_bytes c m @ frame_bytes c m) =
      (YAHDLC_FLAG_SEQUENCE # ?bad @ [YAHDLC_FLAG_SEQUENCE]) @ frame_bytes c m"
    using expected_burst [OF args, of "YAHDLC_FLAG_SEQUENCE # xs" a1 a2
        "ys @ [YAHDLC_FLAG_SEQUENCE] @ frame_bytes c m"] pos
    by (simp add: frame)
  have "rx_bytes env d e (expected args 0 (frame_bytes c m @ frame_bytes c m)) = Some (True, d', e')"
    unfolding ex rx_bytes_append
    using rx_refused [OF \<open>link_idle d\<close> burst(3) \<open>fits c m\<close> refl burst(1,2), of env e]
      frame_after_refused [OF \<open>mutex_ok env\<close> \<open>link_idle d\<close> \<open>fits c m\<close> burst(3) once]
    by simp
  moreover have "length (expected args 0 (frame_bytes c m @ frame_bytes c m)) = 2 * length (frame_bytes c m)"
    unfolding ex by (simp add: frame)
  moreover have "sorted_args args" using pos by (simp add: sorted_args_def sorted_pos_def args)
  moreover have "link_ready d" using \<open>link_idle d\<close> by (auto simp: link_idle_def intro: parser_idle_ready)
  ultimately show ?thesis
    using emulated [OF assms(1,2) _ _ \<open>mutex_ok env\<close>, where args = args and d = d and e = e
        and bs = "frame_bytes c m @ frame_bytes c m" and d' = d' and e' = e' and ?w0.0 = w0]
      assms(3) by (simp add: args at_pos_def mult_2)
qed

text \<open>An empty DATA frame, the check value of whose first copy is changed.\<close>

theorem corrupted_then_repeated_witness:
  "\<exists>lp w w'. transmit_all (queue_lib 5)
      (fst (lp_init (queue_lib 5) (good_pipe\<lparr>corrupt_list :=
        [\<lparr>position = 3, corrupt_value = 1\<rparr>, \<lparr>position = 4, corrupt_value = 0\<rparr>]\<rparr>) []))
      [0x7E, 0xFF, 0x10, 0x06, 0xE0, 0x7E, 0x7E, 0xFF, 0x10, 0x06, 0xE0, 0x7E]
      (snd (lp_init (queue_lib 5) (good_pipe\<lparr>corrupt_list :=
        [\<lparr>position = 3, corrupt_value = 1\<rparr>, \<lparr>position = 4, corrupt_value = 0\<rparr>]\<rparr>) [])) = Some (lp, w) \<and>
    rx_octets (queue_lib 5) log_env lp 12 sample_link [] w =
      Some (after_frame control_zero [] sample_link, [], w') \<and> w' = []"
proof -
  let ?p = "\<lparr>position = 3, corrupt_value = 1\<rparr>" and ?q = "\<lparr>position = 4, corrupt_value = 0\<rparr>"
  let ?args = "good_pipe\<lparr>corrupt_list := [?p, ?q]\<rparr>"
  have f: "frame_bytes control_zero [] = [0x7E, 0xFF, 0x10, 0x06, 0xE0, 0x7E]"
    by (simp add: frame_bytes_def frame_body_def frame_content_def stuff_def stuff_byte_def
        octet_defs control_zero_def frame_control_type_eq fcs_trailer_def fcs_byte_def
        fcs16_def fcstab_def FCS16_INIT_VALUE_def)
  have "pops (queue_lib 5) id" by (simp add: pops_def queue_lib_def)
  moreover have "lucky (queue_lib 5) ?args (2 * length (frame_bytes control_zero [])) (seed ?args)"
    by (rule queue_lucky) (simp_all add: good_pipe_def)
  moreover have "dcProcessData log_env (Some sample_link) (Some (frame_bytes control_zero []))
      (length (frame_bytes control_zero [])) [] =
    Some (DC_OK, Some (after_frame control_zero [] sample_link), [])"
    using process_data_frame [OF log_env_mutex sample_link_idle, of control_zero "[]" "[]"]
    by (simp add: control_zero_def sample_link_def resetLink_def dc_zero_def DEADCOM_PAYLOAD_MAX_LEN_def)
  moreover have "fits control_zero []"
    by (simp add: fits_def payload_sent_def DEADCOM_PAYLOAD_MAX_LEN_def)
  ultimately have "\<exists>lp w w'. transmit_all (queue_lib 5) (fst (lp_init (queue_lib 5) ?args []))
      (frame_bytes control_zero [] @ frame_bytes control_zero [])
      (snd (lp_init (queue_lib 5) ?args [])) = Some (lp, w) \<and>
    rx_octets (queue_lib 5) log_env lp (2 * length (frame_bytes control_zero [])) sample_link [] w =
      Some (after_frame control_zero [] sample_link, [], w') \<and> id w' = []"
    using corrupted_then_repeated [where lib = "queue_lib 5" and content = id and args = ?args and p = ?p
        and q = ?q and xs = "[0xFF, 0x10]" and c = control_zero and m = "[]" and ?a1.0 = "0x06"
        and ?a2.0 = "0xE0" and ys = "[]" and env = log_env and d = sample_link and e = "[]"
        and d' = "after_frame control_zero [] sample_link" and e' = "[]" and ?w0.0 = "[]", OF queue_fifo]
      log_env_mutex sample_link_idle
    by (simp only: f) (simp add: good_pipe_def octet_defs del: transmit_all.simps)
  then show ?thesis
    unfolding f by (simp del: transmit_all.simps rx_octets.simps)
qed

end
