(* ===== verification/Dcrcp.thy ===== *)
theory Dcrcp
  imports Deadcom_Prelude
begin

text \<open>
  The reader-controller protocol, \<open>dcrcp/lib/inc/dcrcp.h\<close> and \<open>dcrcp/lib/src/dcrcp.c\<close>:
  encoding and decoding of messages (CRPMs) over the CBOR library cn-cbor.  That library
  is a submodule and a parameter here: its functions are the fields of \<open>cbor_lib\<close>, its
  nodes are the fields of \<open>struct cn_cbor\<close> that \<open>dcrcp.c\<close> reads, and what the round trip
  needs of it is the hypothesis \<open>cbor_ok\<close>.
\<close>

section \<open>The CBOR library\<close>

datatype cbor_type = CN_CBOR_NULL | CN_CBOR_UINT | CN_CBOR_TEXT | CN_CBOR_BYTES | CN_CBOR_ARRAY
  | CN_CBOR_MAP | CN_CBOR_OTHER

text \<open>
  A node: type, \<open>v.uint\<close>, the octets \<open>v.str\<close> or \<open>v.bytes\<close> points to, \<open>length\<close>, and the
  chain from \<open>first_child\<close> over \<open>next\<close>.
\<close>

datatype cn_cbor = CnCbor (ctype: cbor_type) (uint_of: nat) (octets: "byte list") (len: nat)
  (children: "cn_cbor list")

datatype cbor_err = CN_CBOR_ERR_OUT_OF_MEMORY | CN_CBOR_ERR_OTHER

text \<open>
  The functions, over the state \<open>'c\<close> of the allocation context.  A result that may be
  \<open>NULL\<close> is an error or a node; a function that changes a node returns it.
\<close>

record 'c cbor_lib =
  map_create :: "'c \<Rightarrow> (cbor_err + cn_cbor) \<times> 'c"
  array_create :: "'c \<Rightarrow> (cbor_err + cn_cbor) \<times> 'c"
  int_create :: "nat \<Rightarrow> 'c \<Rightarrow> (cbor_err + cn_cbor) \<times> 'c"
  string_create :: "byte list \<Rightarrow> 'c \<Rightarrow> (cbor_err + cn_cbor) \<times> 'c"
  data_create :: "byte list \<Rightarrow> 'c \<Rightarrow> (cbor_err + cn_cbor) \<times> 'c"
  calloc_func :: "'c \<Rightarrow> cn_cbor option \<times> 'c"
  array_append :: "cn_cbor \<Rightarrow> cn_cbor option \<Rightarrow> cbor_err + cn_cbor"
  mapput_int :: "cn_cbor \<Rightarrow> nat \<Rightarrow> cn_cbor \<Rightarrow> 'c \<Rightarrow> (cbor_err + cn_cbor) \<times> 'c"
  mapget_int :: "cn_cbor \<Rightarrow> nat \<Rightarrow> cn_cbor option"
  cbor_index :: "cn_cbor \<Rightarrow> nat \<Rightarrow> cn_cbor option"
  encoder_write :: "nat \<Rightarrow> cn_cbor \<Rightarrow> byte list option"
  cbor_decode :: "byte list \<Rightarrow> 'c \<Rightarrow> (cbor_err + cn_cbor) \<times> 'c"
  cbor_free :: "cn_cbor \<Rightarrow> 'c \<Rightarrow> 'c"

section \<open>Messages\<close>

datatype DCRCPStatus =
    DCRCP_STATUS_OK
  | DCRCP_STATUS_INVALID_PARAM
  | DCRCP_STATUS_BUFFER_SMALL
  | DCRCP_STATUS_DECODE_FAIL
  | DCRCP_STATUS_SCHEMA_FAIL
  | DCRCP_STATUS_OUT_OF_MEMORY

definition DCRCP_CRPM_HEARTBEAT :: nat where "DCRCP_CRPM_HEARTBEAT = 0"
definition DCRCP_CRPM_SYS_QUERY_REQUEST :: nat where "DCRCP_CRPM_SYS_QUERY_REQUEST = 1"
definition DCRCP_CRPM_SYS_QUERY_RESPONSE :: nat where "DCRCP_CRPM_SYS_QUERY_RESPONSE = 2"
definition DCRCP_CRPM_ACTIVATE_AUTH_METHOD :: nat where "DCRCP_CRPM_ACTIVATE_AUTH_METHOD = 3"
definition DCRCP_CRPM_RDR_FAILURE :: nat where "DCRCP_CRPM_RDR_FAILURE = 4"
definition DCRCP_CRPM_UI_UPDATE :: nat where "DCRCP_CRPM_UI_UPDATE = 5"
definition DCRCP_CRPM_AM0_PICC_UID_OBTAINED :: nat where "DCRCP_CRPM_AM0_PICC_UID_OBTAINED = 6"

lemmas crpm_ids = DCRCP_CRPM_HEARTBEAT_def DCRCP_CRPM_SYS_QUERY_REQUEST_def
  DCRCP_CRPM_SYS_QUERY_RESPONSE_def DCRCP_CRPM_ACTIVATE_AUTH_METHOD_def
  DCRCP_CRPM_RDR_FAILURE_def DCRCP_CRPM_UI_UPDATE_def DCRCP_CRPM_AM0_PICC_UID_OBTAINED_def

text \<open>
  The other constants of the header.  The enumerators of the user interface have the values
  0 to 6 in their order; a field of that type may hold any number, so the messages carry the
  number and not the enumerator.
\<close>

definition DCRCP_REQUIRED_CNCBOR_BUFFERS :: nat where "DCRCP_REQUIRED_CNCBOR_BUFFERS = 9"
definition DCRCP_AM0_MAX_UID_LEN :: nat where [simp]: "DCRCP_AM0_MAX_UID_LEN = 10"

datatype DeadcomCRPMAuthMethod = DCRCP_CRPM_AM_PICC_UUID

datatype DeadcomCRPMUIClass0States =
    DCRCP_CRPM_UIC0_DOOR_CLOSED
  | DCRCP_CRPM_UIC0_ID_ACCEPTED_DOOR_UNLOCKED
  | DCRCP_CRPM_UIC0_ID_REJECTED
  | DCRCP_CRPM_UIC0_DOOR_PERMANENTLY_UNLOCKED
  | DCRCP_CRPM_UIC0_DOOR_PERMANENTLY_LOCKED
  | DCRCP_CRPM_UIC0_SYSTEM_FAILURE
  | DCRCP_CRPM_UIC0_DOOR_OPEN_TOO_LONG

definition auth_method_number :: "DeadcomCRPMAuthMethod \<Rightarrow> nat" where
  "auth_method_number a = (case a of DCRCP_CRPM_AM_PICC_UUID \<Rightarrow> 0)"

definition ui_class0_number :: "DeadcomCRPMUIClass0States \<Rightarrow> nat" where
  "ui_class0_number s =
     (case s of
        DCRCP_CRPM_UIC0_DOOR_CLOSED \<Rightarrow> 0
      | DCRCP_CRPM_UIC0_ID_ACCEPTED_DOOR_UNLOCKED \<Rightarrow> 1
      | DCRCP_CRPM_UIC0_ID_REJECTED \<Rightarrow> 2
      | DCRCP_CRPM_UIC0_DOOR_PERMANENTLY_UNLOCKED \<Rightarrow> 3
      | DCRCP_CRPM_UIC0_DOOR_PERMANENTLY_LOCKED \<Rightarrow> 4
      | DCRCP_CRPM_UIC0_SYSTEM_FAILURE \<Rightarrow> 5
      | DCRCP_CRPM_UIC0_DOOR_OPEN_TOO_LONG \<Rightarrow> 6)"

instantiation DeadcomCRPMUIClass0States :: enum
begin

definition enum_DeadcomCRPMUIClass0States :: "DeadcomCRPMUIClass0States list" where
  "enum_DeadcomCRPMUIClass0States =
     [DCRCP_CRPM_UIC0_DOOR_CLOSED,
      DCRCP_CRPM_UIC0_ID_ACCEPTED_DOOR_UNLOCKED,
      DCRCP_CRPM_UIC0_ID_REJECTED,
      DCRCP_CRPM_UIC0_DOOR_PERMANENTLY_UNLOCKED,
      DCRCP_CRPM_UIC0_DOOR_PERMANENTLY_LOCKED,
      DCRCP_CRPM_UIC0_SYSTEM_FAILURE,
      DCRCP_CRPM_UIC0_DOOR_OPEN_TOO_LONG]"

definition enum_all_DeadcomCRPMUIClass0States :: "(DeadcomCRPMUIClass0States \<Rightarrow> bool) \<Rightarrow> bool" where
  "enum_all_DeadcomCRPMUIClass0States P \<longleftrightarrow> list_all P Enum.enum"

definition enum_ex_DeadcomCRPMUIClass0States :: "(DeadcomCRPMUIClass0States \<Rightarrow> bool) \<Rightarrow> bool" where
  "enum_ex_DeadcomCRPMUIClass0States P \<longleftrightarrow> list_ex P Enum.enum"

instance
proof
  have all: "(UNIV :: DeadcomCRPMUIClass0States set) = set Enum.enum"
    using DeadcomCRPMUIClass0States.exhaust by (auto simp: enum_DeadcomCRPMUIClass0States_def)
  then show "(UNIV :: DeadcomCRPMUIClass0States set) = set Enum.enum" .
  show "distinct (Enum.enum :: DeadcomCRPMUIClass0States list)"
    by (simp add: enum_DeadcomCRPMUIClass0States_def)
  show "Enum.enum_all P \<longleftrightarrow> Ball UNIV P" "Enum.enum_ex P \<longleftrightarrow> Bex UNIV P"
    for P :: "DeadcomCRPMUIClass0States \<Rightarrow> bool"
    by (simp_all add: all enum_all_DeadcomCRPMUIClass0States_def
        enum_ex_DeadcomCRPMUIClass0States_def list_all_iff list_ex_iff)
qed

end

text \<open>The enumerators are numbered in their order, from 0 to 6.\<close>

lemma ui_class0_numbers:
  "map ui_class0_number (Enum.enum :: DeadcomCRPMUIClass0States list) = [0..<7]"
  by (simp add: enum_DeadcomCRPMUIClass0States_def ui_class0_number_def upt_rec)

lemma ui_class0_number_less: "ui_class0_number s < 7"
proof -
  have "s \<in> set Enum.enum" by (simp add: enum_UNIV)
  then have "ui_class0_number s \<in> set (map ui_class0_number Enum.enum)" by simp
  then show ?thesis by (simp only: ui_class0_numbers set_upt atLeastLessThan_iff)
qed

text \<open>
  The members of the union are separate fields: the code reads only the member the type
  selects, and \<open>memset\<close> zeroes all of them.  \<open>type\<close> may hold any number.
\<close>

record DeadcomCRPMAM0Uid =
  uid :: "byte list"
  uid_len :: nat

record DeadcomCRPM =
  crpm_type :: nat
  rdrClass :: "16 word"
  hwModel :: "16 word"
  hwRev :: "16 word"
  serial :: "byte list"
  swVerMajor :: byte
  swVerMinor :: byte
  auth_vals :: "nat list"
  auth_len :: nat
  rdrFailure :: "byte list"
  ui_class0_state :: nat
  am0_len :: nat
  am0_vals :: "DeadcomCRPMAM0Uid list"

definition crpm_zero :: DeadcomCRPM where
  "crpm_zero =
     \<lparr>crpm_type = 0, rdrClass = 0, hwModel = 0, hwRev = 0, serial = replicate 26 0,
      swVerMajor = 0, swVerMinor = 0, auth_vals = replicate 10 0, auth_len = 0,
      rdrFailure = replicate 200 0, ui_class0_state = 0, am0_len = 0,
      am0_vals = replicate 10 \<lparr>uid = replicate DCRCP_AM0_MAX_UID_LEN 0, uid_len = 0\<rparr>\<rparr>"

text \<open>
  A C string in an array, and \<open>strncpy\<close>, which stops at a zero and fills the rest with
  zeros; reading past the array is undefined.
\<close>

definition c_string :: "byte list \<Rightarrow> byte list option" where
  "c_string b = (if 0 \<in> set b then Some (takeWhile (\<lambda>x. x \<noteq> 0) b) else None)"

definition c_strncpy :: "byte list \<Rightarrow> byte list \<Rightarrow> nat \<Rightarrow> byte list option" where
  "c_strncpy dst src n =
     (let s = takeWhile (\<lambda>x. x \<noteq> 0) (take n src)
      in if length s = length src \<and> length src < n then None
         else buf_copy dst (s @ replicate (n - length s) 0) n)"

section \<open>Encoding\<close>

text \<open>
  A computation that may return early with a status; \<open>None\<close> is undefined behaviour.
  \<open>check_error\<close> is the macro \<open>CHECK_ERROR_ENCODER\<close>, which returns without releasing.
\<close>

type_synonym ('c, 'a) enc = "((DCRCPStatus + 'a) \<times> 'c) option"

definition check_error ::
  "(cbor_err + 'a) \<times> 'c \<Rightarrow> ('a \<Rightarrow> 'c \<Rightarrow> ('c, 'b) enc) \<Rightarrow> ('c, 'b) enc" where
  "check_error r f =
     (case r of
        (Inl CN_CBOR_ERR_OUT_OF_MEMORY, c) \<Rightarrow> Some (Inl DCRCP_STATUS_OUT_OF_MEMORY, c)
      | (Inl _, c) \<Rightarrow> Some (Inl DCRCP_STATUS_INVALID_PARAM, c)
      | (Inr v, c) \<Rightarrow> f v c)"

definition enc_bind ::
  "('c, 'a) enc \<Rightarrow> ('a \<Rightarrow> 'c \<Rightarrow> ('c, 'b) enc) \<Rightarrow> ('c, 'b) enc" where
  "enc_bind x f =
     (case x of None \<Rightarrow> None | Some (Inl s, c) \<Rightarrow> Some (Inl s, c) | Some (Inr v, c) \<Rightarrow> f v c)"

text \<open>\<open>CBOR_ARR_ADD_INT_CHECK\<close> and \<open>CBOR_ARR_ADD_STR_CHECK\<close>.\<close>

definition arr_add_int :: "'c cbor_lib \<Rightarrow> cn_cbor \<Rightarrow> nat \<Rightarrow> 'c \<Rightarrow> ('c, cn_cbor) enc" where
  "arr_add_int lib arr n c =
     check_error (int_create lib n c) (\<lambda>v c.
       check_error (array_append lib arr (Some v), c) (\<lambda>arr c. Some (Inr arr, c)))"

definition arr_add_str :: "'c cbor_lib \<Rightarrow> cn_cbor \<Rightarrow> byte list \<Rightarrow> 'c \<Rightarrow> ('c, cn_cbor) enc" where
  "arr_add_str lib arr s c = do {
     s \<leftarrow> c_string s;
     check_error (string_create lib s c) (\<lambda>v c.
       check_error (array_append lib arr (Some v), c) (\<lambda>arr c. Some (Inr arr, c)))
   }"

definition null_node :: "'c cbor_lib \<Rightarrow> 'c \<Rightarrow> ('c, cn_cbor) enc" where
  "null_node lib c =
     (case calloc_func lib c of
        (None, c) \<Rightarrow> Some (Inl DCRCP_STATUS_OUT_OF_MEMORY, c)
      | (Some v, c) \<Rightarrow>
          Some (Inr (CnCbor CN_CBOR_NULL (uint_of v) (octets v) (len v) (children v)), c))"

fun add_auth_methods ::
  "'c cbor_lib \<Rightarrow> nat list \<Rightarrow> nat list \<Rightarrow> cn_cbor \<Rightarrow> 'c \<Rightarrow> ('c, cn_cbor) enc" where
  "add_auth_methods lib vals [] arr c = Some (Inr arr, c)"
| "add_auth_methods lib vals (i # is) arr c =
     (if i < length vals
      then enc_bind (arr_add_int lib arr (vals ! i) c) (add_auth_methods lib vals is)
      else None)"

text \<open>The node of a UID is not tested before it is appended (lines 135 to 142).\<close>

fun add_uids ::
  "'c cbor_lib \<Rightarrow> DeadcomCRPMAM0Uid list \<Rightarrow> nat list \<Rightarrow> cn_cbor \<Rightarrow> 'c \<Rightarrow> ('c, cn_cbor) enc" where
  "add_uids lib vals [] arr c = Some (Inr arr, c)"
| "add_uids lib vals (i # is) arr c =
     (if i < length vals
      then do {
        b \<leftarrow> buf_read (uid_len (vals ! i)) (uid (vals ! i));
        let (r, c) = data_create lib b c;
        let elem = (case r of Inl _ \<Rightarrow> None | Inr v \<Rightarrow> Some v);
        check_error (array_append lib arr elem, c) (add_uids lib vals is)
      }
      else None)"

definition encode_payload :: "'c cbor_lib \<Rightarrow> DeadcomCRPM \<Rightarrow> 'c \<Rightarrow> ('c, cn_cbor) enc" where
  "encode_payload lib m c =
     (if crpm_type m = DCRCP_CRPM_HEARTBEAT \<or> crpm_type m = DCRCP_CRPM_SYS_QUERY_REQUEST
      then null_node lib c
      else if crpm_type m = DCRCP_CRPM_SYS_QUERY_RESPONSE then
        check_error (array_create lib c) (\<lambda>sqr c.
          enc_bind (arr_add_int lib sqr (unat (rdrClass m)) c) (\<lambda>sqr c.
          enc_bind (arr_add_int lib sqr (unat (hwModel m)) c) (\<lambda>sqr c.
          enc_bind (arr_add_int lib sqr (unat (hwRev m)) c) (\<lambda>sqr c.
          enc_bind (arr_add_str lib sqr (serial m) c) (\<lambda>sqr c.
          enc_bind (arr_add_int lib sqr (unat (swVerMajor m)) c) (\<lambda>sqr c.
          arr_add_int lib sqr (unat (swVerMinor m)) c))))))
      else if crpm_type m = DCRCP_CRPM_ACTIVATE_AUTH_METHOD then
        check_error (array_create lib c) (\<lambda>ams c.
          add_auth_methods lib (auth_vals m) [0..<auth_len m] ams c)
      else if crpm_type m = DCRCP_CRPM_RDR_FAILURE then do {
        s \<leftarrow> c_string (rdrFailure m);
        check_error (string_create lib s c) (\<lambda>v c. Some (Inr v, c))
      }
      else if crpm_type m = DCRCP_CRPM_UI_UPDATE then
        check_error (int_create lib (ui_class0_state m) c) (\<lambda>v c. Some (Inr v, c))
      else
        check_error (array_create lib c) (\<lambda>uids c.
          add_uids lib (am0_vals m) [0..<am0_len m] uids c))"

text \<open>
  Lines 59 to 162: the map is made, the payload built and put into it, and the map written
  to a buffer of \<open>buf_size\<close> octets.
\<close>

definition encode_crpm ::
  "'c cbor_lib \<Rightarrow> DeadcomCRPM \<Rightarrow> nat \<Rightarrow> 'c \<Rightarrow> ('c, byte list) enc" where
  "encode_crpm lib m buf_size c =
     check_error (map_create lib c) (\<lambda>crpm c.
       if DCRCP_CRPM_AM0_PICC_UID_OBTAINED < crpm_type m
       then Some (Inl DCRCP_STATUS_INVALID_PARAM, cbor_free lib crpm c)
       else enc_bind (encode_payload lib m c) (\<lambda>v c.
         check_error (mapput_int lib crpm (crpm_type m) v c) (\<lambda>crpm c.
           case encoder_write lib buf_size crpm of
             None \<Rightarrow> Some (Inl DCRCP_STATUS_BUFFER_SMALL, cbor_free lib crpm c)
           | Some b \<Rightarrow> Some (Inr b, cbor_free lib crpm c))))"

text \<open>
  The result is the status, the octets stored at the start of \<open>buf_out\<close> with \<open>*out_size\<close>
  their number, and the context.
\<close>

definition dcrcpEncode ::
  "'c cbor_lib \<Rightarrow> DeadcomCRPM option \<Rightarrow> bool \<Rightarrow> nat \<Rightarrow> bool \<Rightarrow> 'c option
     \<Rightarrow> (DCRCPStatus \<times> byte list \<times> 'c option) option" where
  "dcrcpEncode lib crpm_in buf_null buf_size out_null ctx =
     (case (crpm_in, ctx) of
        (Some m, Some c) \<Rightarrow>
          if buf_null \<or> buf_size = 0 \<or> out_null then Some (DCRCP_STATUS_INVALID_PARAM, [], ctx)
          else map_option (\<lambda>(r, c). case r of
              Inl s \<Rightarrow> (s, [], Some c)
            | Inr b \<Rightarrow> (DCRCP_STATUS_OK, b, Some c)) (encode_crpm lib m buf_size c)
      | _ \<Rightarrow> Some (DCRCP_STATUS_INVALID_PARAM, [], ctx))"

section \<open>Decoding\<close>

text \<open>
  The macros \<open>SCHEMA_FAIL_IF_NOT_UINT16\<close>, \<open>SCHEMA_FAIL_IF_NOT_UINT8\<close> and
  \<open>SCHEMA_FAIL_IF_NOT_STRING\<close>: the node when it passes.
\<close>

definition schema_uint :: "nat \<Rightarrow> cn_cbor option \<Rightarrow> nat option" where
  "schema_uint bound obj =
     (case obj of
        Some v \<Rightarrow> if ctype v = CN_CBOR_UINT \<and> uint_of v \<le> bound then Some (uint_of v) else None
      | None \<Rightarrow> None)"

definition schema_string :: "nat \<Rightarrow> cn_cbor option \<Rightarrow> cn_cbor option" where
  "schema_string max_len obj =
     (case obj of
        Some v \<Rightarrow> if ctype v = CN_CBOR_TEXT \<and> len v \<le> max_len then Some v else None
      | None \<Rightarrow> None)"

text \<open>
  The message with \<open>True\<close>, or \<open>False\<close> where the code leaves with
  \<open>DCRCP_STATUS_SCHEMA_FAIL\<close>; the message filled so far is kept.
\<close>

type_synonym dec = "(bool \<times> DeadcomCRPM) option"

definition with_uint ::
  "nat \<Rightarrow> cn_cbor option \<Rightarrow> DeadcomCRPM \<Rightarrow> (nat \<Rightarrow> dec) \<Rightarrow> dec" where
  "with_uint bound obj m f =
     (case schema_uint bound obj of None \<Rightarrow> Some (False, m) | Some n \<Rightarrow> f n)"

text \<open>\<open>strncpy\<close> of a checked text and the terminating zero.\<close>

definition copy_text :: "byte list \<Rightarrow> cn_cbor \<Rightarrow> byte list option" where
  "copy_text dst v = do {
     b \<leftarrow> c_strncpy dst (octets v) (len v);
     buf_write (len v) 0 b
   }"

definition decode_sys_query_response :: "'c cbor_lib \<Rightarrow> cn_cbor \<Rightarrow> DeadcomCRPM \<Rightarrow> dec" where
  "decode_sys_query_response lib p m =
     (if ctype p \<noteq> CN_CBOR_ARRAY \<or> len p < 6 then Some (False, m)
      else
        with_uint 0xFFFF (cbor_index lib p 0) m (\<lambda>n. let m = m\<lparr>rdrClass := word_of_nat n\<rparr> in
        with_uint 0xFFFF (cbor_index lib p 1) m (\<lambda>n. let m = m\<lparr>hwModel := word_of_nat n\<rparr> in
        with_uint 0xFFFF (cbor_index lib p 2) m (\<lambda>n. let m = m\<lparr>hwRev := word_of_nat n\<rparr> in
        (case schema_string 25 (cbor_index lib p 3) of
           None \<Rightarrow> Some (False, m)
         | Some v \<Rightarrow> do {
             s \<leftarrow> copy_text (serial m) v;
             let m = m\<lparr>serial := s\<rparr>;
             with_uint 0xFF (cbor_index lib p 4) m (\<lambda>n. let m = m\<lparr>swVerMajor := word_of_nat n\<rparr> in
             with_uint 0xFF (cbor_index lib p 5) m (\<lambda>n. let m = m\<lparr>swVerMinor := word_of_nat n\<rparr> in
             Some (True, m)))
           })))))"

text \<open>
  An enumeration is an \<open>unsigned int\<close> of 32 bits (lines 238 and 256), so that a stored
  \<open>v.uint\<close> is truncated.  The elements of an array are not tested for their type.
\<close>

definition enum_of_uint :: "nat \<Rightarrow> nat" where
  "enum_of_uint n = n mod 2 ^ 32"

fun decode_auth_methods :: "cn_cbor list \<Rightarrow> DeadcomCRPM \<Rightarrow> dec" where
  "decode_auth_methods [] m = Some (True, m)"
| "decode_auth_methods (v # vs) m = do {
     b \<leftarrow> buf_write (auth_len m) (enum_of_uint (uint_of v)) (auth_vals m);
     decode_auth_methods vs (m\<lparr>auth_vals := b, auth_len := auth_len m + 1\<rparr>)
   }"

fun decode_uids :: "cn_cbor list \<Rightarrow> DeadcomCRPM \<Rightarrow> dec" where
  "decode_uids [] m = Some (True, m)"
| "decode_uids (v # vs) m =
     (if len v \<noteq> 4 \<and> len v \<noteq> 7 \<and> len v \<noteq> 10 then Some (False, m)
      else if am0_len m < length (am0_vals m) then do {
        b \<leftarrow> buf_copy (uid (am0_vals m ! am0_len m)) (octets v) (len v);
        vals \<leftarrow> buf_write (am0_len m) \<lparr>uid = b, uid_len = len v\<rparr> (am0_vals m);
        decode_uids vs (m\<lparr>am0_vals := vals, am0_len := am0_len m + 1\<rparr>)
      }
      else None)"

text \<open>The chain of tests of lines 187 to 282.\<close>

definition decode_message :: "'c cbor_lib \<Rightarrow> cn_cbor \<Rightarrow> DeadcomCRPM \<Rightarrow> dec" where
  "decode_message lib crpm m =
     (if mapget_int lib crpm DCRCP_CRPM_HEARTBEAT \<noteq> None
      then Some (True, m\<lparr>crpm_type := DCRCP_CRPM_HEARTBEAT\<rparr>)
      else if mapget_int lib crpm DCRCP_CRPM_SYS_QUERY_REQUEST \<noteq> None
      then Some (True, m\<lparr>crpm_type := DCRCP_CRPM_SYS_QUERY_REQUEST\<rparr>)
      else (case mapget_int lib crpm DCRCP_CRPM_SYS_QUERY_RESPONSE of
        Some p \<Rightarrow> decode_sys_query_response lib p (m\<lparr>crpm_type := DCRCP_CRPM_SYS_QUERY_RESPONSE\<rparr>)
      | None \<Rightarrow>
      (case mapget_int lib crpm DCRCP_CRPM_ACTIVATE_AUTH_METHOD of
        Some p \<Rightarrow>
          (let m = m\<lparr>crpm_type := DCRCP_CRPM_ACTIVATE_AUTH_METHOD\<rparr> in
           if ctype p \<noteq> CN_CBOR_ARRAY \<or> len p < 1 \<or> len p > 10 then Some (False, m)
           else decode_auth_methods (children p) m)
      | None \<Rightarrow>
      (case mapget_int lib crpm DCRCP_CRPM_RDR_FAILURE of
        Some p \<Rightarrow>
          (let m = m\<lparr>crpm_type := DCRCP_CRPM_RDR_FAILURE\<rparr> in
           case schema_string 200 (Some p) of
             None \<Rightarrow> Some (False, m)
           | Some v \<Rightarrow> map_option (\<lambda>s. (True, m\<lparr>rdrFailure := s\<rparr>)) (copy_text (rdrFailure m) v))
      | None \<Rightarrow>
      (case mapget_int lib crpm DCRCP_CRPM_UI_UPDATE of
        Some p \<Rightarrow>
          (let m = m\<lparr>crpm_type := DCRCP_CRPM_UI_UPDATE\<rparr> in
           with_uint 0xFF (Some p) m (\<lambda>n. Some (True, m\<lparr>ui_class0_state := enum_of_uint n\<rparr>)))
      | None \<Rightarrow>
      (case mapget_int lib crpm DCRCP_CRPM_AM0_PICC_UID_OBTAINED of
        Some p \<Rightarrow>
          (let m = m\<lparr>crpm_type := DCRCP_CRPM_AM0_PICC_UID_OBTAINED\<rparr> in
           if ctype p \<noteq> CN_CBOR_ARRAY \<or> len p < 1 \<or> len p > 10 then Some (False, m)
           else decode_uids (children p) m)
      | None \<Rightarrow> Some (False, m)))))))"

text \<open>The message the caller's structure holds before and after, and the context.\<close>

definition dcrcpDecode ::
  "'c cbor_lib \<Rightarrow> DeadcomCRPM option \<Rightarrow> byte list option \<Rightarrow> nat \<Rightarrow> 'c option
     \<Rightarrow> (DCRCPStatus \<times> DeadcomCRPM option \<times> 'c option) option" where
  "dcrcpDecode lib crpm_out buf_in buf_size ctx =
     (case (crpm_out, buf_in, ctx) of
        (Some _, Some b, Some c) \<Rightarrow>
          if buf_size = 0 then Some (DCRCP_STATUS_INVALID_PARAM, crpm_out, ctx)
          else do {
            b \<leftarrow> buf_read buf_size b;
            (case cbor_decode lib b c of
               (Inl CN_CBOR_ERR_OUT_OF_MEMORY, c) \<Rightarrow>
                 Some (DCRCP_STATUS_OUT_OF_MEMORY, Some crpm_zero, Some c)
             | (Inl _, c) \<Rightarrow> Some (DCRCP_STATUS_DECODE_FAIL, Some crpm_zero, Some c)
             | (Inr crpm, c) \<Rightarrow> do {
                 (ok, m) \<leftarrow> decode_message lib crpm crpm_zero;
                 Some (if ok then DCRCP_STATUS_OK else DCRCP_STATUS_SCHEMA_FAIL, Some m,
                       Some (cbor_free lib crpm c))
               })
          }
      | _ \<Rightarrow> Some (DCRCP_STATUS_INVALID_PARAM, crpm_out, ctx))"

section \<open>When decoding is defined\<close>

text \<open>
  Trees whose \<open>length\<close> fields agree with what they count, and the first entry of the map
  that the chain of tests finds.
\<close>

fun sized :: "cn_cbor \<Rightarrow> bool" where
  "sized (CnCbor t u bs l vs) =
     ((t = CN_CBOR_TEXT \<or> t = CN_CBOR_BYTES \<longrightarrow> l = length bs) \<and>
      (t = CN_CBOR_ARRAY \<longrightarrow> l = length vs) \<and> (\<forall>v\<in>set vs. sized v))"

definition array_index_ok :: "'c cbor_lib \<Rightarrow> bool" where
  "array_index_ok lib \<longleftrightarrow>
     (\<forall>p i. ctype p = CN_CBOR_ARRAY \<longrightarrow>
        cbor_index lib p i = (if i < length (children p) then Some (children p ! i) else None))"

definition first_entry :: "'c cbor_lib \<Rightarrow> cn_cbor \<Rightarrow> nat \<Rightarrow> cn_cbor \<Rightarrow> bool" where
  "first_entry lib v k p \<longleftrightarrow>
     (\<forall>j\<in>set [0..<k]. mapget_int lib v j = None) \<and> mapget_int lib v k = Some p"

fun uid_overread :: "cn_cbor list \<Rightarrow> bool" where
  "uid_overread [] = False"
| "uid_overread (v # vs) =
     ((len v = 4 \<or> len v = 7 \<or> len v = 10) \<and>
      (length (octets v) < len v \<or> uid_overread vs))"

lemma sized_text: "sized p \<Longrightarrow> ctype p = CN_CBOR_TEXT \<Longrightarrow> length (octets p) = len p"
  by (cases p) simp

lemma sized_array: "sized p \<Longrightarrow> ctype p = CN_CBOR_ARRAY \<Longrightarrow> length (children p) = len p"
  by (cases p) simp

lemma sized_child: "sized p \<Longrightarrow> v \<in> set (children p) \<Longrightarrow> sized v"
  by (cases p) simp

lemma takeWhile_length_le: "length (takeWhile P xs) \<le> length xs"
  by (induction xs) auto

lemma c_strncpy_defined:
  assumes "length src = n"
  shows "c_strncpy dst src n = None \<longleftrightarrow> length dst < n"
  using assms takeWhile_length_le [of "\<lambda>x. x \<noteq> 0" src]
  by (auto simp: c_strncpy_def buf_copy_def Let_def)

lemma c_strncpy_length: "c_strncpy dst src n = Some b \<Longrightarrow> length b = length dst"
  by (auto simp: c_strncpy_def Let_def dest: buf_copy_length split: if_splits)

lemma copy_text_defined:
  assumes "length (octets v) = len v"
  shows "copy_text dst v = None \<longleftrightarrow> length dst \<le> len v"
proof (cases "c_strncpy dst (octets v) (len v)")
  case None
  then show ?thesis using c_strncpy_defined [OF assms, of dst] by (simp add: copy_text_def)
next
  case (Some b)
  then show ?thesis
    using c_strncpy_length [OF Some] by (auto simp: copy_text_def buf_write_def)
qed

lemma decode_auth_methods_defined:
  "auth_len m + length vs \<le> length (auth_vals m) \<Longrightarrow> \<exists>m'. decode_auth_methods vs m = Some (True, m')"
  by (induction vs arbitrary: m) (auto simp: buf_write_def)

lemma decode_uids_defined:
  assumes "am0_len m + length vs \<le> length (am0_vals m)"
    and "\<forall>u\<in>set (am0_vals m). length (uid u) = 10"
  shows "decode_uids vs m = None \<longleftrightarrow> uid_overread vs"
  using assms
proof (induction vs arbitrary: m)
  case (Cons v vs)
  have i: "am0_len m < length (am0_vals m)" using Cons.prems(1) by simp
  then have u: "length (uid (am0_vals m ! am0_len m)) = 10" using Cons.prems(2) by simp
  show ?case
  proof (cases "(len v = 4 \<or> len v = 7 \<or> len v = 10) \<and> len v \<le> length (octets v)")
    case True
    define b where "b = take (len v) (octets v) @ drop (len v) (uid (am0_vals m ! am0_len m))"
    define m' where "m' = m\<lparr>am0_vals := (am0_vals m)[am0_len m := \<lparr>uid = b, uid_len = len v\<rparr>],
      am0_len := am0_len m + 1\<rparr>"
    have "length b = 10" using True u by (auto simp: b_def)
    then have "decode_uids vs m' = None \<longleftrightarrow> uid_overread vs"
      using Cons.prems by (intro Cons.IH) (auto simp: m'_def dest!: set_update_subset_insert [THEN subsetD])
    moreover have "decode_uids (v # vs) m = decode_uids vs m'"
      using True i u by (auto simp: buf_copy_def buf_write_def b_def m'_def)
    ultimately show ?thesis using True by auto
  next
    case False
    then show ?thesis using i u by (auto simp: buf_copy_def)
  qed
qed simp

lemma ex_bool [simp]: "\<exists>a. \<not> a" "\<exists>a. a"
  by (rule exI [of _ False], simp) (rule exI [of _ True], simp)

lemma decode_sys_query_response_defined:
  assumes "array_index_ok lib" and "sized p" and "length (serial m) = 26"
  shows "decode_sys_query_response lib p m \<noteq> None"
proof -
  have "copy_text (serial m) v \<noteq> None"
    if "ctype p = CN_CBOR_ARRAY" "schema_string 25 (cbor_index lib p 3) = Some v" for v
  proof -
    have v: "cbor_index lib p 3 = Some v" "ctype v = CN_CBOR_TEXT" "len v \<le> 25"
      using that(2) by (auto simp: schema_string_def split: option.splits if_splits)
    then have "v \<in> set (children p)"
      using assms(1) that(1) by (auto simp: array_index_ok_def split: if_splits)
    with v have "length (octets v) = len v"
      using sized_text sized_child [OF assms(2)] by blast
    then show ?thesis using copy_text_defined [of v "serial m"] v(3) assms(3) by simp
  qed
  then show ?thesis
    by (auto simp: decode_sys_query_response_def with_uint_def Let_def simp del: not_None_eq
        split: option.splits)
qed

lemma first_entryD:
  assumes "first_entry lib v k p"
  shows "mapget_int lib v k = Some p" and "\<And>j. j < k \<Longrightarrow> mapget_int lib v j = None"
  using assms by (auto simp: first_entry_def)

lemma first_entry_cases:
  assumes "\<And>p. first_entry lib v 0 p \<Longrightarrow> Q" "\<And>p. first_entry lib v 1 p \<Longrightarrow> Q"
    "\<And>p. first_entry lib v 2 p \<Longrightarrow> Q" "\<And>p. first_entry lib v 3 p \<Longrightarrow> Q"
    "\<And>p. first_entry lib v 4 p \<Longrightarrow> Q" "\<And>p. first_entry lib v 5 p \<Longrightarrow> Q"
    "\<And>p. first_entry lib v 6 p \<Longrightarrow> Q"
    "(\<And>j. j < 7 \<Longrightarrow> mapget_int lib v j = None) \<Longrightarrow> Q"
  shows Q
proof (cases "\<exists>j<7. mapget_int lib v j \<noteq> None")
  case True
  define k where "k = (LEAST j. mapget_int lib v j \<noteq> None)"
  obtain j where j: "j < 7" "mapget_int lib v j \<noteq> None" using True by blast
  then have k: "mapget_int lib v k \<noteq> None" "k \<le> j"
    using LeastI [of "\<lambda>j. mapget_int lib v j \<noteq> None" j] Least_le [of "\<lambda>j. mapget_int lib v j \<noteq> None" j]
    by (simp_all add: k_def)
  have below: "mapget_int lib v i = None" if "i < k" for i
    using not_less_Least [of i "\<lambda>j. mapget_int lib v j \<noteq> None"] that by (auto simp: k_def)
  obtain p where p: "mapget_int lib v k = Some p" using k(1) by blast
  have fe: "first_entry lib v k p" using below p by (auto simp: first_entry_def)
  have "k = 0 \<or> k = 1 \<or> k = 2 \<or> k = 3 \<or> k = 4 \<or> k = 5 \<or> k = 6" using k(2) j(1) by linarith
  then show Q using fe assms(1-7) by metis
next
  case False
  then show Q by (intro assms(8)) auto
qed

lemma first_entry_unique:
  "first_entry lib v k p \<Longrightarrow> first_entry lib v j q \<longleftrightarrow> j = k \<and> q = p"
  by (metis first_entryD linorder_neqE_nat option.distinct(1) option.inject)

text \<open>What the chain of tests does with the entry it finds.\<close>

lemma decode_message_entry:
  assumes "first_entry lib v k p"
  shows "k = DCRCP_CRPM_HEARTBEAT \<Longrightarrow> decode_message lib v m = Some (True, m\<lparr>crpm_type := k\<rparr>)"
    and "k = DCRCP_CRPM_SYS_QUERY_REQUEST \<Longrightarrow>
      decode_message lib v m = Some (True, m\<lparr>crpm_type := k\<rparr>)"
    and "k = DCRCP_CRPM_SYS_QUERY_RESPONSE \<Longrightarrow>
      decode_message lib v m = decode_sys_query_response lib p (m\<lparr>crpm_type := k\<rparr>)"
    and "k = DCRCP_CRPM_ACTIVATE_AUTH_METHOD \<Longrightarrow>
      decode_message lib v m =
        (if ctype p \<noteq> CN_CBOR_ARRAY \<or> len p < 1 \<or> len p > 10
         then Some (False, m\<lparr>crpm_type := k\<rparr>)
         else decode_auth_methods (children p) (m\<lparr>crpm_type := k\<rparr>))"
    and "k = DCRCP_CRPM_RDR_FAILURE \<Longrightarrow>
      decode_message lib v m =
        (if ctype p = CN_CBOR_TEXT \<and> len p \<le> 200
         then map_option (\<lambda>s. (True, m\<lparr>crpm_type := k, rdrFailure := s\<rparr>)) (copy_text (rdrFailure m) p)
         else Some (False, m\<lparr>crpm_type := k\<rparr>))"
    and "k = DCRCP_CRPM_UI_UPDATE \<Longrightarrow>
      decode_message lib v m =
        (if ctype p = CN_CBOR_UINT \<and> uint_of p \<le> 0xFF
         then Some (True, m\<lparr>crpm_type := k, ui_class0_state := enum_of_uint (uint_of p)\<rparr>)
         else Some (False, m\<lparr>crpm_type := k\<rparr>))"
    and "k = DCRCP_CRPM_AM0_PICC_UID_OBTAINED \<Longrightarrow>
      decode_message lib v m =
        (if ctype p \<noteq> CN_CBOR_ARRAY \<or> len p < 1 \<or> len p > 10
         then Some (False, m\<lparr>crpm_type := k\<rparr>)
         else decode_uids (children p) (m\<lparr>crpm_type := k\<rparr>))"
  using first_entryD [OF assms]
  by (simp_all add: decode_message_def crpm_ids schema_string_def with_uint_def schema_uint_def)

lemma decode_message_no_entry:
  "(\<And>j. j < 7 \<Longrightarrow> mapget_int lib v j = None) \<Longrightarrow> decode_message lib v m = Some (False, m)"
  by (simp add: decode_message_def crpm_ids)

definition long_text :: "cn_cbor \<Rightarrow> bool" where
  "long_text p \<longleftrightarrow> ctype p = CN_CBOR_TEXT \<and> len p = 200"

definition wild_uids :: "cn_cbor \<Rightarrow> bool" where
  "wild_uids p \<longleftrightarrow>
     ctype p = CN_CBOR_ARRAY \<and> 1 \<le> len p \<and> len p \<le> 10 \<and> uid_overread (children p)"

lemma decode_message_defined:
  assumes sz: "\<And>k p. mapget_int lib v k = Some p \<Longrightarrow> sized p" and ix: "array_index_ok lib"
  shows "decode_message lib v crpm_zero = None \<longleftrightarrow>
    (\<exists>p. first_entry lib v 4 p \<and> long_text p) \<or> (\<exists>p. first_entry lib v 6 p \<and> wild_uids p)"
proof (rule first_entry_cases [of lib v])
  fix p assume f: "first_entry lib v 0 p"
  show ?thesis
    using decode_message_entry(1) [OF f] by (simp add: first_entry_unique [OF f] crpm_ids)
next
  fix p assume f: "first_entry lib v 1 p"
  show ?thesis
    using decode_message_entry(2) [OF f] by (simp add: first_entry_unique [OF f] crpm_ids)
next
  fix p assume f: "first_entry lib v 2 p"
  have "sized p" using first_entryD(1) [OF f] by (rule sz)
  then show ?thesis
    using decode_message_entry(3) [OF f]
      decode_sys_query_response_defined [OF ix, of p "crpm_zero\<lparr>crpm_type := 2\<rparr>"]
    by (simp add: first_entry_unique [OF f] crpm_ids crpm_zero_def)
next
  fix p assume f: "first_entry lib v 3 p"
  have "sized p" using first_entryD(1) [OF f] by (rule sz)
  then show ?thesis
    using decode_message_entry(4) [OF f] sized_array [of p]
      decode_auth_methods_defined [of "crpm_zero\<lparr>crpm_type := 3\<rparr>" "children p"]
    by (auto simp: first_entry_unique [OF f] crpm_ids crpm_zero_def)
next
  fix p assume f: "first_entry lib v 4 p"
  have "sized p" using first_entryD(1) [OF f] by (rule sz)
  then show ?thesis
    using decode_message_entry(5) [OF f] sized_text [of p] copy_text_defined [of p "rdrFailure crpm_zero"]
    by (auto simp: first_entry_unique [OF f] crpm_ids crpm_zero_def long_text_def)
next
  fix p assume f: "first_entry lib v 5 p"
  show ?thesis
    using decode_message_entry(6) [OF f] by (simp add: first_entry_unique [OF f] crpm_ids)
next
  fix p assume f: "first_entry lib v 6 p"
  have "sized p" using first_entryD(1) [OF f] by (rule sz)
  then show ?thesis
    using decode_message_entry(7) [OF f] sized_array [of p]
      decode_uids_defined [of "crpm_zero\<lparr>crpm_type := 6\<rparr>" "children p"]
    by (auto simp: first_entry_unique [OF f] crpm_ids crpm_zero_def wild_uids_def)
next
  assume n: "\<And>j. j < 7 \<Longrightarrow> mapget_int lib v j = None"
  show ?thesis
    using decode_message_no_entry [of lib v] n by (auto simp: first_entry_def)
qed

text \<open>
  C31.  \<open>dcrcpDecode\<close> stores or reads outside an object exactly when the first known entry of
  the received map is a reader failure of exactly 200 octets (the terminating zero is written
  at index 200 of \<open>rdrFailure[200]\<close>), or a list of UIDs that, before any element is refused,
  has an element of length 4, 7 or 10 without that many octets (an array or a map: the type of
  the elements is not tested).  For every other tree the library returns, the result is
  defined and is \<open>DCRCP_STATUS_OK\<close> or \<open>DCRCP_STATUS_SCHEMA_FAIL\<close>.
\<close>

theorem decode_defined_unless:
  assumes "cbor_decode lib b c = (Inr v, c')" and "b \<noteq> []"
    and "\<forall>k p. mapget_int lib v k = Some p \<longrightarrow> sized p" and "array_index_ok lib"
  shows "(dcrcpDecode lib (Some old) (Some b) (length b) (Some c) = None \<longleftrightarrow>
      (\<exists>p. first_entry lib v DCRCP_CRPM_RDR_FAILURE p \<and> long_text p) \<or>
      (\<exists>p. first_entry lib v DCRCP_CRPM_AM0_PICC_UID_OBTAINED p \<and> wild_uids p)) \<and>
    (\<forall>st r. dcrcpDecode lib (Some old) (Some b) (length b) (Some c) = Some (st, r) \<longrightarrow>
      st = DCRCP_STATUS_OK \<or> st = DCRCP_STATUS_SCHEMA_FAIL)"
proof (intro conjI allI impI)
  have d: "dcrcpDecode lib (Some old) (Some b) (length b) (Some c) =
    Option.bind (decode_message lib v crpm_zero) (\<lambda>(ok, m).
      Some (if ok then DCRCP_STATUS_OK else DCRCP_STATUS_SCHEMA_FAIL, Some m,
        Some (cbor_free lib v c')))"
    using assms(1,2) by (simp add: dcrcpDecode_def buf_simps)
  show "dcrcpDecode lib (Some old) (Some b) (length b) (Some c) = None \<longleftrightarrow>
      (\<exists>p. first_entry lib v DCRCP_CRPM_RDR_FAILURE p \<and> long_text p) \<or>
      (\<exists>p. first_entry lib v DCRCP_CRPM_AM0_PICC_UID_OBTAINED p \<and> wild_uids p)"
    using decode_message_defined [of lib v] assms(3,4)
    by (auto simp: d crpm_ids bind_eq_None_conv simp del: not_None_eq)
  fix st r
  assume "dcrcpDecode lib (Some old) (Some b) (length b) (Some c) = Some (st, r)"
  then show "st = DCRCP_STATUS_OK \<or> st = DCRCP_STATUS_SCHEMA_FAIL"
    by (auto simp: d bind_eq_Some_conv split: if_splits)
qed

end
