(* ===== verification/Dcrcp_Roundtrip.thy ===== *)
theory Dcrcp_Roundtrip
  imports Dcrcp
begin

text \<open>
  What a message means, the CBOR tree the schema prescribes for it, and the two halves of
  the codec against that tree: \<open>encode_payload\<close> builds it, \<open>decode_message\<close> reads it back.
  The round trip of \<open>dcrcpEncode\<close> and \<open>dcrcpDecode\<close> follows for every CBOR library that
  keeps the laws \<open>cbor_ok\<close>.
\<close>

section \<open>What a message means\<close>

datatype message =
    Heartbeat
  | SysQueryRequest
  | SysQueryResponse "16 word" "16 word" "16 word" "byte list" byte byte
  | ActivateAuthMethod "nat list"
  | RdrFailure "byte list"
  | UiUpdate nat
  | PiccUidObtained "byte list list"

definition message_of :: "DeadcomCRPM \<Rightarrow> message option" where
  "message_of m =
     (if crpm_type m = DCRCP_CRPM_HEARTBEAT then Some Heartbeat
      else if crpm_type m = DCRCP_CRPM_SYS_QUERY_REQUEST then Some SysQueryRequest
      else if crpm_type m = DCRCP_CRPM_SYS_QUERY_RESPONSE then
        map_option (\<lambda>s. SysQueryResponse (rdrClass m) (hwModel m) (hwRev m) s (swVerMajor m) (swVerMinor m))
          (c_string (serial m))
      else if crpm_type m = DCRCP_CRPM_ACTIVATE_AUTH_METHOD then
        (if auth_len m \<le> length (auth_vals m)
         then Some (ActivateAuthMethod (take (auth_len m) (auth_vals m))) else None)
      else if crpm_type m = DCRCP_CRPM_RDR_FAILURE then
        map_option RdrFailure (c_string (rdrFailure m))
      else if crpm_type m = DCRCP_CRPM_UI_UPDATE then Some (UiUpdate (ui_class0_state m))
      else if crpm_type m = DCRCP_CRPM_AM0_PICC_UID_OBTAINED then
        (if am0_len m \<le> length (am0_vals m) \<and>
            (\<forall>u\<in>set (take (am0_len m) (am0_vals m)). uid_len u \<le> length (uid u))
         then Some (PiccUidObtained (map (\<lambda>u. take (uid_len u) (uid u)) (take (am0_len m) (am0_vals m))))
         else None)
      else None)"

text \<open>
  The bounds the decoder enforces, and the encoder does not.  That a text
  has no zero inside holds of every text \<open>message_of\<close> reads from a C string.
\<close>

fun message_ok :: "message \<Rightarrow> bool" where
  "message_ok (SysQueryResponse _ _ _ s _ _) = (length s \<le> 25 \<and> 0 \<notin> set s)"
| "message_ok (ActivateAuthMethod ams) =
     (1 \<le> length ams \<and> length ams \<le> 10 \<and> (\<forall>a\<in>set ams. a < 2 ^ 32))"
| "message_ok (RdrFailure s) = (length s < 200 \<and> 0 \<notin> set s)"
| "message_ok (UiUpdate n) = (n \<le> 0xFF)"
| "message_ok (PiccUidObtained us) =
     (1 \<le> length us \<and> length us \<le> 10 \<and>
      (\<forall>u\<in>set us. length u = 4 \<or> length u = 7 \<or> length u = 10))"
| "message_ok _ = True"

text \<open>
  The bounds of \<open>docs/dcrcp/protocol.cddl\<close>: one octet for the hardware revision, a serial number of
  25 octets, the only authentication method, a failure text of 1 to 200 octets, the seven states.
\<close>

fun schema_ok :: "message \<Rightarrow> bool" where
  "schema_ok (SysQueryResponse _ _ hr s _ _) = (unat hr \<le> 0xFF \<and> length s = 25)"
| "schema_ok (ActivateAuthMethod ams) =
     (1 \<le> length ams \<and> length ams \<le> 10 \<and> (\<forall>a\<in>set ams. a = 0))"
| "schema_ok (RdrFailure s) = (1 \<le> length s \<and> length s \<le> 200)"
| "schema_ok (UiUpdate n) = (n \<le> 6)"
| "schema_ok (PiccUidObtained us) =
     (1 \<le> length us \<and> length us \<le> 10 \<and>
      (\<forall>u\<in>set us. length u = 4 \<or> length u = 7 \<or> length u = 10))"
| "schema_ok _ = True"

text \<open>
  A message of the schema is within the decoder's bounds, but for zeros in a text and a failure
  text of 200 octets; the decoder's bounds are wider in five places.
\<close>

lemma bounds_of_schema:
  assumes "schema_ok a" "\<And>s. a = RdrFailure s \<Longrightarrow> length s < 200 \<and> 0 \<notin> set s"
    and "\<And>c h v s x y. a = SysQueryResponse c h v s x y \<Longrightarrow> 0 \<notin> set s"
  shows "message_ok a"
  using assms by (cases a) auto

lemma bounds_wider_than_schema:
  "message_ok (SysQueryResponse c h 0x100 (replicate 25 1) x y)"
  "\<not> schema_ok (SysQueryResponse c h 0x100 (replicate 25 1) x y)"
  "message_ok (SysQueryResponse c h v [] x y)" "\<not> schema_ok (SysQueryResponse c h v [] x y)"
  "message_ok (ActivateAuthMethod [1])" "\<not> schema_ok (ActivateAuthMethod [1])"
  "message_ok (RdrFailure [])" "\<not> schema_ok (RdrFailure [])"
  "message_ok (UiUpdate 7)" "\<not> schema_ok (UiUpdate 7)"
  by simp_all

text \<open>Every enumerator of the header is within the bounds.\<close>

lemma enumerators_ok:
  "message_ok (UiUpdate (ui_class0_number s))"
  "message_ok (ActivateAuthMethod [auth_method_number a])"
  using ui_class0_number_less [of s]
  by (simp_all add: auth_method_number_def split: DeadcomCRPMAuthMethod.split)

section \<open>The tree of a message\<close>

text \<open>
  The value of a node: what the fields that its type makes meaningful hold.  The other
  members of the union \<open>v\<close> share their storage and are left out.
\<close>

fun cbor_value :: "cn_cbor \<Rightarrow> cn_cbor" where
  "cbor_value (CnCbor t n bs l vs) =
     (case t of
        CN_CBOR_UINT \<Rightarrow> CnCbor t n [] 0 []
      | CN_CBOR_TEXT \<Rightarrow> CnCbor t 0 bs l []
      | CN_CBOR_BYTES \<Rightarrow> CnCbor t 0 bs l []
      | CN_CBOR_ARRAY \<Rightarrow> CnCbor t 0 [] l (map cbor_value vs)
      | CN_CBOR_MAP \<Rightarrow> CnCbor t 0 [] 0 (map cbor_value vs)
      | _ \<Rightarrow> CnCbor t 0 [] 0 [])"

definition null_tree :: cn_cbor where "null_tree = CnCbor CN_CBOR_NULL 0 [] 0 []"
definition uint_tree :: "nat \<Rightarrow> cn_cbor" where "uint_tree n = CnCbor CN_CBOR_UINT n [] 0 []"
definition text_tree :: "byte list \<Rightarrow> cn_cbor" where
  "text_tree s = CnCbor CN_CBOR_TEXT 0 s (length s) []"
definition bytes_tree :: "byte list \<Rightarrow> cn_cbor" where
  "bytes_tree s = CnCbor CN_CBOR_BYTES 0 s (length s) []"
definition array_tree :: "cn_cbor list \<Rightarrow> cn_cbor" where
  "array_tree vs = CnCbor CN_CBOR_ARRAY 0 [] (length vs) vs"

fun message_id :: "message \<Rightarrow> nat" where
  "message_id Heartbeat = DCRCP_CRPM_HEARTBEAT"
| "message_id SysQueryRequest = DCRCP_CRPM_SYS_QUERY_REQUEST"
| "message_id (SysQueryResponse _ _ _ _ _ _) = DCRCP_CRPM_SYS_QUERY_RESPONSE"
| "message_id (ActivateAuthMethod _) = DCRCP_CRPM_ACTIVATE_AUTH_METHOD"
| "message_id (RdrFailure _) = DCRCP_CRPM_RDR_FAILURE"
| "message_id (UiUpdate _) = DCRCP_CRPM_UI_UPDATE"
| "message_id (PiccUidObtained _) = DCRCP_CRPM_AM0_PICC_UID_OBTAINED"

fun message_tree :: "message \<Rightarrow> cn_cbor" where
  "message_tree (SysQueryResponse c h r s ma mi) =
     array_tree [uint_tree (unat c), uint_tree (unat h), uint_tree (unat r), text_tree s,
                 uint_tree (unat ma), uint_tree (unat mi)]"
| "message_tree (ActivateAuthMethod ams) = array_tree (map uint_tree ams)"
| "message_tree (RdrFailure s) = text_tree s"
| "message_tree (UiUpdate n) = uint_tree n"
| "message_tree (PiccUidObtained us) = array_tree (map bytes_tree us)"
| "message_tree _ = null_tree"

lemma cbor_value_eq:
  "cbor_value v = uint_tree n \<longleftrightarrow> ctype v = CN_CBOR_UINT \<and> uint_of v = n"
  "cbor_value v = text_tree s \<longleftrightarrow> ctype v = CN_CBOR_TEXT \<and> octets v = s \<and> len v = length s"
  "cbor_value v = bytes_tree s \<longleftrightarrow> ctype v = CN_CBOR_BYTES \<and> octets v = s \<and> len v = length s"
  "cbor_value v = null_tree \<longleftrightarrow> ctype v = CN_CBOR_NULL"
  "cbor_value v = array_tree vs \<longleftrightarrow>
     ctype v = CN_CBOR_ARRAY \<and> len v = length vs \<and> map cbor_value (children v) = vs"
  by (cases v; cases "ctype v"; auto simp: uint_tree_def text_tree_def bytes_tree_def
      null_tree_def array_tree_def)+

section \<open>The laws of the library\<close>

text \<open>
  Documented behaviour of cn-cbor: the constructors make a node of the given value, an
  append adds the child and refuses a missing one, a put adds a fresh key, and decoding what
  the encoder wrote gives the entries that were put into the map, unless memory runs out.
\<close>

definition create_ok :: "'c cbor_lib \<Rightarrow> bool" where
  "create_ok lib \<longleftrightarrow>
     (\<forall>n c v c'. n < 2 ^ 63 \<longrightarrow> int_create lib n c = (Inr v, c') \<longrightarrow> cbor_value v = uint_tree n) \<and>
     (\<forall>s c v c'. string_create lib s c = (Inr v, c') \<longrightarrow> cbor_value v = text_tree s) \<and>
     (\<forall>s c v c'. data_create lib s c = (Inr v, c') \<longrightarrow> cbor_value v = bytes_tree s) \<and>
     (\<forall>c v c'. array_create lib c = (Inr v, c') \<longrightarrow> cbor_value v = array_tree [])"

definition append_ok :: "'c cbor_lib \<Rightarrow> bool" where
  "append_ok lib \<longleftrightarrow>
     (\<forall>a a'. array_append lib a None \<noteq> Inr a') \<and>
     (\<forall>a v a' vs. array_append lib a (Some v) = Inr a' \<longrightarrow> cbor_value a = array_tree vs \<longrightarrow>
        cbor_value a' = array_tree (vs @ [cbor_value v]))"

definition map_ok :: "'c cbor_lib \<Rightarrow> bool" where
  "map_ok lib \<longleftrightarrow>
     (\<forall>c v c'. map_create lib c = (Inr v, c') \<longrightarrow>
        ctype v = CN_CBOR_MAP \<and> mapget_int lib v = Map.empty) \<and>
     (\<forall>m k v c m' c'. mapput_int lib m k v c = (Inr m', c') \<longrightarrow> ctype m = CN_CBOR_MAP \<longrightarrow>
        mapget_int lib m k = None \<longrightarrow>
        ctype m' = CN_CBOR_MAP \<and> mapget_int lib m' = (mapget_int lib m)(k \<mapsto> v))"

definition codec_ok :: "'c cbor_lib \<Rightarrow> bool" where
  "codec_ok lib \<longleftrightarrow>
     (\<forall>n m b c r c'. ctype m = CN_CBOR_MAP \<longrightarrow> encoder_write lib n m = Some b \<longrightarrow>
        b \<noteq> [] \<and> length b \<le> n \<and>
        (cbor_decode lib b c = (r, c') \<longrightarrow>
           (case r of
              Inl e \<Rightarrow> e = CN_CBOR_ERR_OUT_OF_MEMORY
            | Inr m' \<Rightarrow> \<forall>k. map_option cbor_value (mapget_int lib m' k) =
                            map_option cbor_value (mapget_int lib m k))))"

definition cbor_ok :: "'c cbor_lib \<Rightarrow> bool" where
  "cbor_ok lib \<longleftrightarrow>
     create_ok lib \<and> append_ok lib \<and> map_ok lib \<and> array_index_ok lib \<and> codec_ok lib"

section \<open>Encoding builds the tree\<close>

text \<open>
  An encoding step that has no undefined behaviour, reports an error when it stops, and
  whose value satisfies \<open>P\<close> when it does not.
\<close>

definition yields :: "('c, 'a) enc \<Rightarrow> ('a \<Rightarrow> bool) \<Rightarrow> bool" where
  "yields x P =
     (case x of None \<Rightarrow> False | Some (Inl s, _) \<Rightarrow> s \<noteq> DCRCP_STATUS_OK | Some (Inr v, _) \<Rightarrow> P v)"

lemma yields_Inr [simp]: "yields (Some (Inr v, c)) P = P v"
  by (simp add: yields_def)

lemma yields_Inl [simp]: "yields (Some (Inl s, c)) P = (s \<noteq> DCRCP_STATUS_OK)"
  by (simp add: yields_def)

lemma yields_enc_bind:
  assumes "yields x P" and "\<And>v c. P v \<Longrightarrow> yields (f v c) Q"
  shows "yields (enc_bind x f) Q"
proof -
  obtain r c where x: "x = Some (r, c)" using assms(1) by (cases x) (auto simp: yields_def)
  show ?thesis
  proof (cases r)
    case (Inr v)
    then have "P v" using assms(1) x by simp
    then show ?thesis using assms(2) [of v c] x Inr by (simp add: enc_bind_def)
  qed (use assms(1) in \<open>simp add: x enc_bind_def\<close>)
qed

lemma yields_check_error:
  assumes "\<And>v c. r = (Inr v, c) \<Longrightarrow> yields (f v c) Q"
  shows "yields (check_error r f) Q"
  using assms by (auto simp: check_error_def split: prod.splits sum.splits cbor_err.splits)

lemma create_okD:
  assumes "create_ok lib"
  shows "int_create lib n c = (Inr v, c') \<Longrightarrow> n < 2 ^ 63 \<Longrightarrow> cbor_value v = uint_tree n"
    and "string_create lib s c = (Inr v, c') \<Longrightarrow> cbor_value v = text_tree s"
    and "data_create lib s c = (Inr v, c') \<Longrightarrow> cbor_value v = bytes_tree s"
    and "array_create lib c = (Inr v, c') \<Longrightarrow> cbor_value v = array_tree []"
  using assms unfolding create_ok_def by blast+

lemma append_okD:
  assumes "append_ok lib"
  shows "array_append lib a None \<noteq> Inr a'"
    and "array_append lib a (Some v) = Inr a' \<Longrightarrow> cbor_value a = array_tree vs \<Longrightarrow>
      cbor_value a' = array_tree (vs @ [cbor_value v])"
  using assms unfolding append_ok_def by blast+

lemma yields_arr_add_int:
  assumes "create_ok lib" "append_ok lib" "cbor_value a = array_tree vs" "n < 2 ^ 63"
  shows "yields (arr_add_int lib a n c) (\<lambda>a'. cbor_value a' = array_tree (vs @ [uint_tree n]))"
  unfolding arr_add_int_def
proof (intro yields_check_error)
  fix v c1 a' c2
  assume "int_create lib n c = (Inr v, c1)" "(array_append lib a (Some v), c1) = (Inr a', c2)"
  then have "cbor_value v = uint_tree n" "cbor_value a' = array_tree (vs @ [cbor_value v])"
    using create_okD(1) [OF assms(1)] append_okD(2) [OF assms(2) _ assms(3)] assms(4) by auto
  then show "yields (Some (Inr a', c2)) (\<lambda>a'. cbor_value a' = array_tree (vs @ [uint_tree n]))"
    by simp
qed

lemma yields_arr_add_str:
  assumes "create_ok lib" "append_ok lib" "cbor_value a = array_tree vs" "c_string b = Some s"
  shows "yields (arr_add_str lib a b c) (\<lambda>a'. cbor_value a' = array_tree (vs @ [text_tree s]))"
  unfolding arr_add_str_def assms(4) bind.bind_lunit
proof (intro yields_check_error)
  fix v c1 a' c2
  assume "string_create lib s c = (Inr v, c1)" "(array_append lib a (Some v), c1) = (Inr a', c2)"
  then have "cbor_value v = text_tree s" "cbor_value a' = array_tree (vs @ [cbor_value v])"
    using create_okD(2) [OF assms(1)] append_okD(2) [OF assms(2) _ assms(3)] assms(4) by auto
  then show "yields (Some (Inr a', c2)) (\<lambda>a'. cbor_value a' = array_tree (vs @ [text_tree s]))"
    by simp
qed

lemma yields_add_auth_methods:
  assumes "create_ok lib" "append_ok lib" "cbor_value a = array_tree vs"
    and "\<forall>i\<in>set is. i < length vals \<and> vals ! i < 2 ^ 63"
  shows "yields (add_auth_methods lib vals is a c)
    (\<lambda>a'. cbor_value a' = array_tree (vs @ map (\<lambda>i. uint_tree (vals ! i)) is))"
  using assms(3,4)
proof (induction "is" arbitrary: a vs c)
  case (Cons i "is")
  have "yields (enc_bind (arr_add_int lib a (vals ! i) c) (add_auth_methods lib vals is))
    (\<lambda>a'. cbor_value a' = array_tree ((vs @ [uint_tree (vals ! i)]) @ map (\<lambda>i. uint_tree (vals ! i)) is))"
    using Cons.prems by (intro yields_enc_bind [OF yields_arr_add_int [OF assms(1,2) Cons.prems(1)]]
        Cons.IH) auto
  then show ?case using Cons.prems(2) by simp
qed simp

lemma yields_add_uids:
  assumes "create_ok lib" "append_ok lib" "cbor_value a = array_tree vs"
    and "\<forall>i\<in>set is. i < length us \<and> uid_len (us ! i) \<le> length (uid (us ! i))"
  shows "yields (add_uids lib us is a c)
    (\<lambda>a'. cbor_value a' =
       array_tree (vs @ map (\<lambda>i. bytes_tree (take (uid_len (us ! i)) (uid (us ! i)))) is))"
  using assms(3,4)
proof (induction "is" arbitrary: a vs c)
  case (Cons i "is")
  let ?b = "take (uid_len (us ! i)) (uid (us ! i))"
  obtain r c1 where r: "data_create lib ?b c = (r, c1)" by fastforce
  have "yields (check_error (array_append lib a (case r of Inl _ \<Rightarrow> None | Inr v \<Rightarrow> Some v), c1)
      (add_uids lib us is))
    (\<lambda>a'. cbor_value a' = array_tree ((vs @ [bytes_tree ?b]) @
       map (\<lambda>i. bytes_tree (take (uid_len (us ! i)) (uid (us ! i)))) is))"
  proof (intro yields_check_error Cons.IH)
    fix a' c2
    assume "(array_append lib a (case r of Inl _ \<Rightarrow> None | Inr v \<Rightarrow> Some v), c1) = (Inr a', c2)"
    then obtain v where v: "r = Inr v" "array_append lib a (Some v) = Inr a'"
      using append_okD(1) [OF assms(2)] by (cases r) auto
    then have "cbor_value v = bytes_tree ?b" using r create_okD(3) [OF assms(1)] by blast
    then show "cbor_value a' = array_tree (vs @ [bytes_tree ?b])"
      using append_okD(2) [OF assms(2) v(2) Cons.prems(1)] by simp
  qed (use Cons.prems in auto)
  then show ?case using Cons.prems(2) r by (simp add: buf_read_def)
qed simp

lemma message_of_cases:
  assumes "message_of m = Some a"
  shows "crpm_type m = message_id a" and "message_id a \<le> 6"
  using assms by (auto simp: message_of_def crpm_ids split: if_splits)

lemma nth_upt_map: "n \<le> length xs \<Longrightarrow> map (\<lambda>i. f (xs ! i)) [0..<n] = map f (take n xs)"
  by (rule nth_equalityI) auto

lemma yields_encode_payload:
  assumes "create_ok lib" "append_ok lib" "message_of m = Some a" "message_ok a"
  shows "yields (encode_payload lib m c) (\<lambda>v. cbor_value v = message_tree a)"
proof (cases a)
  case (SysQueryResponse cl h r s ma mi)
  then have m: "crpm_type m = DCRCP_CRPM_SYS_QUERY_RESPONSE" "c_string (serial m) = Some s"
    "cl = rdrClass m" "h = hwModel m" "r = hwRev m" "ma = swVerMajor m" "mi = swVerMinor m"
    using assms(3) by (auto simp: message_of_def crpm_ids split: if_splits)
  have small: "unat w < 2 ^ 63" "unat b < 2 ^ 63" for w :: "16 word" and b :: byte
    using unsigned_less [of w] unsigned_less [of b] by (auto intro: less_trans)
  note int = yields_enc_bind [OF yields_arr_add_int [OF assms(1,2)]]
  have "yields (check_error (array_create lib c) (\<lambda>sqr c.
          enc_bind (arr_add_int lib sqr (unat (rdrClass m)) c) (\<lambda>sqr c.
          enc_bind (arr_add_int lib sqr (unat (hwModel m)) c) (\<lambda>sqr c.
          enc_bind (arr_add_int lib sqr (unat (hwRev m)) c) (\<lambda>sqr c.
          enc_bind (arr_add_str lib sqr (serial m) c) (\<lambda>sqr c.
          enc_bind (arr_add_int lib sqr (unat (swVerMajor m)) c) (\<lambda>sqr c.
          arr_add_int lib sqr (unat (swVerMinor m)) c)))))))
    (\<lambda>v. cbor_value v = array_tree ((((((([] @ [uint_tree (unat cl)]) @ [uint_tree (unat h)])
       @ [uint_tree (unat r)]) @ [text_tree s]) @ [uint_tree (unat ma)]) @ [uint_tree (unat mi)])))"
    unfolding m(3-)
    by (intro yields_check_error int yields_enc_bind [OF yields_arr_add_str [OF assms(1,2) _ m(2)]]
        yields_arr_add_int [OF assms(1,2)] small)
      (erule create_okD(4) [OF assms(1)])
  then show ?thesis using m(1) SysQueryResponse by (simp add: encode_payload_def crpm_ids)
next
  case (ActivateAuthMethod ams)
  then have m: "crpm_type m = DCRCP_CRPM_ACTIVATE_AUTH_METHOD" "auth_len m \<le> length (auth_vals m)"
    "ams = take (auth_len m) (auth_vals m)"
    using assms(3) by (auto simp: message_of_def crpm_ids split: if_splits)
  have "auth_vals m ! i < 2 ^ 63" if "i < auth_len m" for i
  proof -
    have "auth_vals m ! i \<in> set ams"
      using that m(2) nth_mem [of i ams] by (simp add: m(3))
    then have "auth_vals m ! i < 2 ^ 32" using assms(4) ActivateAuthMethod by simp
    then show ?thesis by simp
  qed
  then have "\<forall>i\<in>set [0..<auth_len m]. i < length (auth_vals m) \<and> auth_vals m ! i < 2 ^ 63"
    using m(2) by simp
  then have "yields (check_error (array_create lib c)
      (\<lambda>ams c. add_auth_methods lib (auth_vals m) [0..<auth_len m] ams c))
    (\<lambda>v. cbor_value v = array_tree ([] @ map (\<lambda>i. uint_tree (auth_vals m ! i)) [0..<auth_len m]))"
    by (intro yields_check_error yields_add_auth_methods assms(1,2))
      (erule create_okD(4) [OF assms(1)])
  then show ?thesis
    using m ActivateAuthMethod by (simp add: encode_payload_def crpm_ids nth_upt_map)
next
  case (PiccUidObtained us)
  then have m: "crpm_type m = DCRCP_CRPM_AM0_PICC_UID_OBTAINED" "am0_len m \<le> length (am0_vals m)"
    "\<forall>u\<in>set (take (am0_len m) (am0_vals m)). uid_len u \<le> length (uid u)"
    "us = map (\<lambda>u. take (uid_len u) (uid u)) (take (am0_len m) (am0_vals m))"
    using assms(3) by (auto simp: message_of_def crpm_ids split: if_splits)
  have "\<forall>i\<in>set [0..<am0_len m]. i < length (am0_vals m) \<and>
      uid_len (am0_vals m ! i) \<le> length (uid (am0_vals m ! i))"
    using m(2,3) by (fastforce simp: in_set_conv_nth)
  then have "yields (check_error (array_create lib c)
      (\<lambda>uids c. add_uids lib (am0_vals m) [0..<am0_len m] uids c))
    (\<lambda>v. cbor_value v = array_tree ([] @ map (\<lambda>i. bytes_tree
       (take (uid_len (am0_vals m ! i)) (uid (am0_vals m ! i)))) [0..<am0_len m]))"
    by (intro yields_check_error yields_add_uids assms(1,2)) (erule create_okD(4) [OF assms(1)])
  then show ?thesis
    using m PiccUidObtained
      nth_upt_map [OF m(2), of "\<lambda>u. bytes_tree (take (uid_len u) (uid u))"]
    by (simp add: encode_payload_def crpm_ids comp_def)
next
  case (RdrFailure s)
  then have m: "crpm_type m = DCRCP_CRPM_RDR_FAILURE" "c_string (rdrFailure m) = Some s"
    using assms(3) by (auto simp: message_of_def crpm_ids split: if_splits)
  then show ?thesis
    using RdrFailure by (auto simp: encode_payload_def crpm_ids
        intro!: yields_check_error dest: create_okD(2) [OF assms(1)])
next
  case (UiUpdate n)
  then have m: "crpm_type m = DCRCP_CRPM_UI_UPDATE" "ui_class0_state m = n" "n \<le> 255"
    using assms(3,4) by (auto simp: message_of_def crpm_ids split: if_splits)
  then show ?thesis
    using UiUpdate by (auto simp: encode_payload_def crpm_ids
        intro!: yields_check_error dest: create_okD(1) [OF assms(1)])
qed (use assms(3) in \<open>auto simp: message_of_def crpm_ids encode_payload_def null_node_def
      cbor_value_eq split: if_splits prod.splits option.splits\<close>)

section \<open>Decoding reads the tree\<close>

lemma c_string_Some: "c_string b = Some s \<longleftrightarrow> 0 \<in> set b \<and> s = takeWhile (\<lambda>x. x \<noteq> 0) b"
  by (auto simp: c_string_def)

lemma takeWhile_no_zero: "0 \<notin> set s \<Longrightarrow> takeWhile (\<lambda>x. x \<noteq> 0) (s @ 0 # r) = s"
  by (induction s) auto

lemma c_string_terminated: "0 \<notin> set s \<Longrightarrow> c_string (s @ 0 # r) = Some s"
  by (simp add: c_string_Some takeWhile_no_zero)

lemma copy_text_string:
  assumes "octets v = s" "len v = length s" "length s < length dst" "0 \<notin> set s"
  shows "\<exists>b. copy_text dst v = Some b \<and> length b = length dst \<and> c_string b = Some s"
proof -
  have tw: "takeWhile (\<lambda>x. x \<noteq> 0) s = s" using assms(4) by (auto simp: takeWhile_eq_all_conv)
  have b: "c_strncpy dst s (length s) = Some (s @ drop (length s) dst)"
    using assms(3) by (simp add: c_strncpy_def buf_copy_def tw Let_def)
  obtain y ys where y: "drop (length s) dst = y # ys"
    using assms(3) by (metis Cons_nth_drop_Suc)
  then have l: "length dst = length s + Suc (length ys)"
    using assms(3) by (metis add.commute append_take_drop_id length_Cons length_append length_take
        min.absorb4)
  have "copy_text dst v = Some (s @ 0 # ys)"
    using b y by (simp add: copy_text_def assms(1,2) buf_write_append)
  then show ?thesis using l c_string_terminated [OF assms(4)] by simp
qed

definition auths_of :: "DeadcomCRPM \<Rightarrow> nat list" where
  "auths_of m = take (auth_len m) (auth_vals m)"

definition uids_of :: "DeadcomCRPM \<Rightarrow> byte list list" where
  "uids_of m = map (\<lambda>u. take (uid_len u) (uid u)) (take (am0_len m) (am0_vals m))"

lemma decode_auth_methods_value:
  assumes "auth_len m + length vs \<le> length (auth_vals m)"
  shows "\<exists>m'. decode_auth_methods vs m = Some (True, m') \<and> crpm_type m' = crpm_type m \<and>
    length (auth_vals m') = length (auth_vals m) \<and> auth_len m' = auth_len m + length vs \<and>
    auths_of m' = auths_of m @ map (\<lambda>v. enum_of_uint (uint_of v)) vs"
  using assms
proof (induction vs arbitrary: m)
  case (Cons v vs)
  define m1 where "m1 = m\<lparr>auth_vals := (auth_vals m)[auth_len m := enum_of_uint (uint_of v)],
    auth_len := auth_len m + 1\<rparr>"
  have "auths_of m1 = auths_of m @ [enum_of_uint (uint_of v)]"
    using Cons.prems by (simp add: auths_of_def m1_def take_Suc_conv_app_nth)
  moreover have "decode_auth_methods (v # vs) m = decode_auth_methods vs m1"
    using Cons.prems by (simp add: buf_write_def m1_def)
  ultimately show ?case using Cons.IH [of m1] Cons.prems by (auto simp: m1_def)
qed simp

definition uids_ready :: "DeadcomCRPM \<Rightarrow> bool" where
  "uids_ready m \<longleftrightarrow> am0_len m \<le> length (am0_vals m) \<and>
     (\<forall>u\<in>set (am0_vals m). length (uid u) = 10 \<and> uid_len u \<le> 10)"

lemma decode_uids_value:
  assumes "am0_len m + length vs \<le> length (am0_vals m)" and "uids_ready m"
    and "\<forall>v\<in>set vs. length (octets v) = len v \<and> (len v = 4 \<or> len v = 7 \<or> len v = 10)"
  shows "\<exists>m'. decode_uids vs m = Some (True, m') \<and> crpm_type m' = crpm_type m \<and>
    uids_ready m' \<and> uids_of m' = uids_of m @ map octets vs"
  using assms
proof (induction vs arbitrary: m)
  case (Cons v vs)
  define b where "b = octets v @ drop (len v) (uid (am0_vals m ! am0_len m))"
  define m1 where "m1 = m\<lparr>am0_vals := (am0_vals m)[am0_len m := \<lparr>uid = b, uid_len = len v\<rparr>],
    am0_len := am0_len m + 1\<rparr>"
  have i: "am0_len m < length (am0_vals m)" using Cons.prems(1) by simp
  have u: "length (uid (am0_vals m ! am0_len m)) = 10"
    using i Cons.prems(2) by (simp add: uids_ready_def)
  have v: "length (octets v) = len v" "len v \<le> 10" using Cons.prems(3) by auto
  have b: "length b = 10" "take (len v) b = octets v" using u v by (auto simp: b_def)
  have "uids_of m1 = uids_of m @ [octets v]"
    using i b(2) by (simp add: uids_of_def m1_def take_Suc_conv_app_nth)
  moreover have "uids_ready m1"
    using i b(1) v(2) Cons.prems(2) set_update_subset_insert [of "am0_vals m" "am0_len m"]
    by (fastforce simp: uids_ready_def m1_def)
  moreover have "decode_uids (v # vs) m = decode_uids vs m1"
    using Cons.prems(3) i u v by (auto simp: buf_copy_def buf_write_def b_def m1_def)
  ultimately show ?case using Cons.IH [of m1] Cons.prems by (auto simp: m1_def)
qed simp

lemma array_tree_index:
  assumes "array_index_ok lib" "cbor_value p = array_tree vs" "i < length vs"
  obtains v where "cbor_index lib p i = Some v" "cbor_value v = vs ! i"
  using assms by (auto simp: array_index_ok_def cbor_value_eq)

lemma schema_uint_tree:
  "cbor_value v = uint_tree n \<Longrightarrow> n \<le> bound \<Longrightarrow> with_uint bound (Some v) m f = f n"
  by (simp add: with_uint_def schema_uint_def cbor_value_eq)

lemma unat_bounds: "unat (w :: 16 word) \<le> 0xFFFF" "unat (b :: byte) \<le> 0xFF"
proof -
  have "unat w < 2 ^ LENGTH(16)" "unat b < 2 ^ LENGTH(8)" by (rule unsigned_less)+
  then show "unat w \<le> 0xFFFF" "unat b \<le> 0xFF" by simp_all
qed

lemma decode_sys_query_response_tree:
  assumes ix: "array_index_ok lib" and p: "cbor_value p = message_tree (SysQueryResponse c h r s ma mi)"
    and s: "length s \<le> 25" "0 \<notin> set s" and m: "length (serial m) = 26"
  shows "\<exists>b. decode_sys_query_response lib p m =
      Some (True, m\<lparr>rdrClass := c, hwModel := h, hwRev := r, serial := b,
        swVerMajor := ma, swVerMinor := mi\<rparr>) \<and> c_string b = Some s"
proof -
  note at = array_tree_index [OF ix p [unfolded message_tree.simps]]
  obtain v0 where v0: "cbor_index lib p 0 = Some v0" "cbor_value v0 = uint_tree (unat c)"
    using at [of 0] by auto
  obtain v1 where v1: "cbor_index lib p 1 = Some v1" "cbor_value v1 = uint_tree (unat h)"
    using at [of 1] by auto
  obtain v2 where v2: "cbor_index lib p 2 = Some v2" "cbor_value v2 = uint_tree (unat r)"
    using at [of 2] by auto
  obtain v3 where v3: "cbor_index lib p 3 = Some v3" "cbor_value v3 = text_tree s"
    using at [of 3] by auto
  obtain v4 where v4: "cbor_index lib p 4 = Some v4" "cbor_value v4 = uint_tree (unat ma)"
    using at [of 4] by auto
  obtain v5 where v5: "cbor_index lib p 5 = Some v5" "cbor_value v5 = uint_tree (unat mi)"
    using at [of 5] by auto
  obtain b where b: "copy_text (serial m) v3 = Some b" "c_string b = Some s"
    using copy_text_string [of v3 s "serial m"] v3(2) s m by (auto simp: cbor_value_eq)
  have p': "ctype p = CN_CBOR_ARRAY" "len p = 6" using p by (auto simp: cbor_value_eq)
  have "schema_string 25 (Some v3) = Some v3"
    using v3(2) s(1) by (simp add: schema_string_def cbor_value_eq)
  then have "decode_sys_query_response lib p m =
      Some (True, m\<lparr>rdrClass := c, hwModel := h, hwRev := r, serial := b,
        swVerMajor := ma, swVerMinor := mi\<rparr>)"
    using b p' v0 v1 v2 v3(1) v4 v5 unat_bounds
    by (simp add: decode_sys_query_response_def schema_uint_tree Let_def)
  then show ?thesis using b(2) by blast
qed

lemma decode_message_tree:
  assumes ix: "array_index_ok lib" and fe: "first_entry lib v (message_id a) p"
    and p: "cbor_value p = message_tree a" and ok: "message_ok a"
  shows "\<exists>m. decode_message lib v crpm_zero = Some (True, m) \<and> message_of m = Some a"
proof (cases a)
  case Heartbeat
  then show ?thesis using decode_message_entry(1) [OF fe] by (simp add: message_of_def)
next
  case SysQueryRequest
  then show ?thesis using decode_message_entry(2) [OF fe] by (simp add: message_of_def crpm_ids)
next
  case (SysQueryResponse c h r s ma mi)
  obtain b where "decode_sys_query_response lib p (crpm_zero\<lparr>crpm_type := 2\<rparr>) =
      Some (True, crpm_zero\<lparr>crpm_type := 2, rdrClass := c, hwModel := h, hwRev := r, serial := b,
        swVerMajor := ma, swVerMinor := mi\<rparr>)" "c_string b = Some s"
    using decode_sys_query_response_tree [OF ix p [unfolded SysQueryResponse],
        of "crpm_zero\<lparr>crpm_type := 2\<rparr>"] ok SysQueryResponse by (auto simp: crpm_zero_def)
  then show ?thesis
    using SysQueryResponse decode_message_entry(3) [OF fe] by (simp add: message_of_def crpm_ids)
next
  case (ActivateAuthMethod ams)
  have c: "ctype p = CN_CBOR_ARRAY" "len p = length ams"
    "map cbor_value (children p) = map uint_tree ams"
    using p ActivateAuthMethod by (auto simp: cbor_value_eq)
  have "map uint_of (children p) = ams"
    using c(3) by (auto simp: list_eq_iff_nth_eq cbor_value_eq dest!: map_eq_imp_length_eq)
  moreover have "map enum_of_uint ams = ams"
    using ok ActivateAuthMethod by (auto simp: enum_of_uint_def intro!: map_idI)
  ultimately have a: "map (\<lambda>v. enum_of_uint (uint_of v)) (children p) = ams"
    using map_map [of enum_of_uint uint_of "children p"] by (simp add: comp_def)
  have l: "length (children p) = length ams" using c(3) by (metis length_map)
  let ?m = "crpm_zero\<lparr>crpm_type := 3\<rparr>"
  have "auth_len ?m + length (children p) \<le> length (auth_vals ?m)"
    using ok ActivateAuthMethod l by (simp add: crpm_zero_def)
  from decode_auth_methods_value [OF this] obtain m
    where m: "decode_auth_methods (children p) ?m = Some (True, m)" "crpm_type m = crpm_type ?m"
      "length (auth_vals m) = length (auth_vals ?m)" "auth_len m = auth_len ?m + length ams"
      "auths_of m = auths_of ?m @ ams"
    unfolding a l by blast
  have "decode_message lib v crpm_zero = Some (True, m)"
    using decode_message_entry(4) [OF fe, of crpm_zero] c(1,2) ok ActivateAuthMethod m(1)
    by (auto simp: crpm_ids)
  moreover have "message_of m = Some a"
    using m(2-) ok ActivateAuthMethod
    by (simp add: message_of_def crpm_ids auths_of_def crpm_zero_def)
  ultimately show ?thesis by blast
next
  case (RdrFailure s)
  obtain b where "copy_text (rdrFailure crpm_zero) p = Some b" "c_string b = Some s"
    using copy_text_string [of p s "rdrFailure crpm_zero"] ok p RdrFailure
    by (auto simp: cbor_value_eq crpm_zero_def)
  then show ?thesis
    using decode_message_entry(5) [OF fe] ok p RdrFailure
    by (auto simp: cbor_value_eq message_of_def crpm_ids)
next
  case (UiUpdate n)
  then show ?thesis
    using decode_message_entry(6) [OF fe] ok p
    by (auto simp: cbor_value_eq message_of_def crpm_ids enum_of_uint_def)
next
  case (PiccUidObtained us)
  have c: "ctype p = CN_CBOR_ARRAY" "len p = length us"
    "map cbor_value (children p) = map bytes_tree us"
    using p PiccUidObtained by (auto simp: cbor_value_eq)
  have l: "length (children p) = length us" using c(3) by (metis length_map)
  have nth: "octets (children p ! i) = us ! i" "len (children p ! i) = length (us ! i)"
    if "i < length us" for i
    using arg_cong [OF c(3), of "\<lambda>xs. xs ! i"] that l by (auto simp: cbor_value_eq)
  have o: "map octets (children p) = us" using nth l by (auto simp: list_eq_iff_nth_eq)
  have e: "length (octets v) = len v \<and> (len v = 4 \<or> len v = 7 \<or> len v = 10)"
    if "v \<in> set (children p)" for v
  proof -
    obtain i where i: "i < length us" "v = children p ! i"
      using \<open>v \<in> _\<close> l by (auto simp: in_set_conv_nth)
    then show ?thesis using nth [OF i(1)] ok PiccUidObtained nth_mem [OF i(1)] by auto
  qed
  obtain m where m: "decode_uids (children p) (crpm_zero\<lparr>crpm_type := 6\<rparr>) = Some (True, m)"
    "crpm_type m = 6" "uids_ready m" "uids_of m = us"
    using decode_uids_value [of "crpm_zero\<lparr>crpm_type := 6\<rparr>" "children p"] ok PiccUidObtained e o l
    by (auto simp: crpm_zero_def uids_of_def uids_ready_def)
  have "decode_message lib v crpm_zero = Some (True, m)"
    using decode_message_entry(7) [OF fe, of crpm_zero] c(1,2) ok PiccUidObtained m(1)
    by (auto simp: crpm_ids)
  moreover have "message_of m = Some a"
    using m(2-) PiccUidObtained
    by (auto simp: message_of_def crpm_ids uids_of_def uids_ready_def dest!: in_set_takeD)
  ultimately show ?thesis by blast
qed

section \<open>What a decoded message satisfies\<close>

lemma c_string_bound:
  assumes "i < length b" "b ! i = 0"
  obtains s where "c_string b = Some s" "length s \<le> i" "0 \<notin> set s"
proof
  show "c_string b = Some (takeWhile (\<lambda>x. x \<noteq> 0) b)"
    using nth_mem [OF assms(1)] assms(2) by (simp add: c_string_Some)
  show "length (takeWhile (\<lambda>x. x \<noteq> 0) b) \<le> i"
  proof (rule ccontr)
    assume "\<not> length (takeWhile (\<lambda>x. x \<noteq> 0) b) \<le> i"
    then have "b ! i \<in> set (takeWhile (\<lambda>x. x \<noteq> 0) b)"
      using takeWhile_nth [of i "\<lambda>x. x \<noteq> 0" b] by (metis not_le nth_mem)
    then show False using assms(2) by (auto dest: set_takeWhileD)
  qed
  show "0 \<notin> set (takeWhile (\<lambda>x. x \<noteq> 0) b)" by (auto dest: set_takeWhileD)
qed

lemma copy_text_terminated:
  assumes "copy_text dst v = Some b"
  obtains s where "c_string b = Some s" "length s \<le> len v" "0 \<notin> set s" "len v < length dst"
proof -
  obtain b' where b': "c_strncpy dst (octets v) (len v) = Some b'" "buf_write (len v) 0 b' = Some b"
    using assms by (auto simp: copy_text_def bind_eq_Some_conv)
  then have "len v < length dst" "len v < length b" "b ! len v = 0"
    using c_strncpy_length [OF b'(1)] by (auto simp: buf_write_def split: if_splits)
  then show thesis using c_string_bound that by metis
qed

lemma decode_sys_query_response_ok:
  assumes "decode_sys_query_response lib p m = Some (True, m')"
  shows "crpm_type m' = crpm_type m \<and>
    (\<exists>s. c_string (serial m') = Some s \<and> length s \<le> 25 \<and> 0 \<notin> set s)"
proof -
  obtain v b where v: "schema_string 25 (cbor_index lib p 3) = Some v" "copy_text (serial m) v = Some b"
    and m': "crpm_type m' = crpm_type m" "serial m' = b"
    using assms
    by (cases "schema_uint 255 (cbor_index lib p 5)"; cases "schema_uint 255 (cbor_index lib p 4)")
      (auto simp: decode_sys_query_response_def with_uint_def Let_def bind_eq_Some_conv
        split: if_splits option.splits)
  have "len v \<le> 25" using v(1) by (auto simp: schema_string_def split: option.splits if_splits)
  then show ?thesis using copy_text_terminated [OF v(2)] m' by (metis le_trans)
qed

definition uid_sized :: "DeadcomCRPMAM0Uid \<Rightarrow> bool" where
  "uid_sized u \<longleftrightarrow> length (uid u) = 10 \<and> (uid_len u = 4 \<or> uid_len u = 7 \<or> uid_len u = 10)"

lemma uid_sizedD:
  assumes "uid_sized u"
  shows "uid_len u \<le> length (uid u)" and "uid_len u = 4 \<or> uid_len u = 7 \<or> uid_len u = 10"
  using assms by (auto simp: uid_sized_def)

lemma decode_uids_ok:
  assumes "decode_uids vs m = Some (True, m')"
    and "\<forall>u\<in>set (am0_vals m). length (uid u) = 10" "am0_len m \<le> length (am0_vals m)"
    and "\<forall>u\<in>set (take (am0_len m) (am0_vals m)). uid_sized u"
  shows "crpm_type m' = crpm_type m \<and> am0_len m' = am0_len m + length vs \<and>
    am0_len m' \<le> length (am0_vals m') \<and> (\<forall>u\<in>set (take (am0_len m') (am0_vals m')). uid_sized u)"
  using assms
proof (induction vs arbitrary: m)
  case (Cons v vs)
  have g: "\<not> (len v \<noteq> 4 \<and> len v \<noteq> 7 \<and> len v \<noteq> 10)" and i: "am0_len m < length (am0_vals m)"
    using Cons.prems(1) by (simp_all split: if_splits)
  have u: "length (uid (am0_vals m ! am0_len m)) = 10" using i Cons.prems(2) by simp
  obtain b where b: "buf_copy (uid (am0_vals m ! am0_len m)) (octets v) (len v) = Some b"
    using Cons.prems(1) i
    by (cases "buf_copy (uid (am0_vals m ! am0_len m)) (octets v) (len v)") (simp_all add: g)
  define m1 where "m1 = m\<lparr>am0_vals := (am0_vals m)[am0_len m := \<lparr>uid = b, uid_len = len v\<rparr>],
    am0_len := am0_len m + 1\<rparr>"
  have lb: "length b = 10" using buf_copy_length [OF b] u by simp
  have "decode_uids vs m1 = Some (True, m')"
    using Cons.prems(1) i b by (simp add: g buf_write_def m1_def)
  moreover have "\<forall>u\<in>set (am0_vals m1). length (uid u) = 10"
    using Cons.prems(2) lb set_update_subset_insert [of "am0_vals m" "am0_len m"]
    by (fastforce simp: m1_def)
  moreover have "\<forall>u\<in>set (take (am0_len m1) (am0_vals m1)). uid_sized u"
    using Cons.prems(4) i g lb by (auto simp: m1_def take_Suc_conv_app_nth uid_sized_def)
  ultimately show ?case using Cons.IH [of m1] i by (simp add: m1_def)
qed auto

lemma decode_message_within_bounds:
  assumes d: "decode_message lib v crpm_zero = Some (True, m)"
    and sz: "\<And>k p. mapget_int lib v k = Some p \<Longrightarrow> sized p"
  shows "\<exists>a. message_of m = Some a \<and> message_ok a"
proof (rule first_entry_cases [of lib v])
  fix p assume f: "first_entry lib v 0 p"
  show ?thesis using decode_message_entry(1) [OF f] d
    by (auto simp: crpm_ids message_of_def)
next
  fix p assume f: "first_entry lib v 1 p"
  show ?thesis using decode_message_entry(2) [OF f] d
    by (auto simp: crpm_ids message_of_def)
next
  fix p assume f: "first_entry lib v 2 p"
  have "decode_sys_query_response lib p (crpm_zero\<lparr>crpm_type := 2\<rparr>) = Some (True, m)"
    using decode_message_entry(3) [OF f] d by (simp add: crpm_ids)
  from decode_sys_query_response_ok [OF this] show ?thesis
    by (auto simp: message_of_def crpm_ids)
next
  fix p assume f: "first_entry lib v 3 p"
  have p: "ctype p = CN_CBOR_ARRAY" "1 \<le> len p" "len p \<le> 10"
    "decode_auth_methods (children p) (crpm_zero\<lparr>crpm_type := 3\<rparr>) = Some (True, m)"
    using decode_message_entry(4) [OF f] d by (auto simp: crpm_ids split: if_splits)
  moreover have "length (children p) = len p"
    using p(1) sz [OF first_entryD(1) [OF f]] by (simp add: sized_array)
  ultimately show ?thesis
    using decode_auth_methods_value [of "crpm_zero\<lparr>crpm_type := 3\<rparr>" "children p"]
    by (auto simp: message_of_def crpm_ids crpm_zero_def auths_of_def enum_of_uint_def)
next
  fix p assume f: "first_entry lib v 4 p"
  obtain s where s: "copy_text (rdrFailure crpm_zero) p = Some s"
    "m = crpm_zero\<lparr>crpm_type := 4, rdrFailure := s\<rparr>"
    using decode_message_entry(5) [OF f] d by (auto simp: crpm_ids split: if_splits)
  show ?thesis
    by (rule copy_text_terminated [OF s(1)]) (auto simp: s(2) message_of_def crpm_ids crpm_zero_def)
next
  fix p assume f: "first_entry lib v 5 p"
  show ?thesis using decode_message_entry(6) [OF f] d
    by (auto simp: crpm_ids message_of_def enum_of_uint_def split: if_splits)
next
  fix p assume f: "first_entry lib v 6 p"
  have p: "ctype p = CN_CBOR_ARRAY" "1 \<le> len p" "len p \<le> 10"
    "decode_uids (children p) (crpm_zero\<lparr>crpm_type := 6\<rparr>) = Some (True, m)"
    using decode_message_entry(7) [OF f] d by (auto simp: crpm_ids split: if_splits)
  moreover have "length (children p) = len p"
    using p(1) sz [OF first_entryD(1) [OF f]] by (simp add: sized_array)
  ultimately have m: "crpm_type m = 6" "am0_len m = len p" "am0_len m \<le> length (am0_vals m)"
    "\<forall>u\<in>set (take (am0_len m) (am0_vals m)). uid_sized u"
    using decode_uids_ok [OF p(4)] by (simp_all add: crpm_zero_def)
  then show ?thesis
    using p(2,3) uid_sizedD by (auto simp: message_of_def crpm_ids)
next
  assume "\<And>j. j < 7 \<Longrightarrow> mapget_int lib v j = None"
  then show ?thesis using decode_message_no_entry [of lib v] d by simp
qed

section \<open>The round trip\<close>

lemma encode_crpm_yields:
  assumes ok: "cbor_ok lib" and m: "message_of m = Some a" "message_ok a"
  shows "yields (encode_crpm lib m n c) (\<lambda>b. \<exists>t p. ctype t = CN_CBOR_MAP \<and>
    encoder_write lib n t = Some b \<and> mapget_int lib t = [message_id a \<mapsto> p] \<and>
    cbor_value p = message_tree a)"
    (is "yields _ ?P")
proof -
  note laws = ok [unfolded cbor_ok_def]
  have "yields (if DCRCP_CRPM_AM0_PICC_UID_OBTAINED < crpm_type m
       then Some (Inl DCRCP_STATUS_INVALID_PARAM, cbor_free lib t0 c0)
       else enc_bind (encode_payload lib m c0) (\<lambda>v c.
         check_error (mapput_int lib t0 (crpm_type m) v c) (\<lambda>crpm c.
           case encoder_write lib n crpm of
             None \<Rightarrow> Some (Inl DCRCP_STATUS_BUFFER_SMALL, cbor_free lib crpm c)
           | Some b \<Rightarrow> Some (Inr b, cbor_free lib crpm c)))) ?P"
    if "map_create lib c = (Inr t0, c0)" for t0 c0
  proof -
    have t0: "ctype t0 = CN_CBOR_MAP" "mapget_int lib t0 = Map.empty"
      using laws that by (auto simp: map_ok_def)
    have "yields (enc_bind (encode_payload lib m c0) (\<lambda>v c.
         check_error (mapput_int lib t0 (crpm_type m) v c) (\<lambda>crpm c.
           case encoder_write lib n crpm of
             None \<Rightarrow> Some (Inl DCRCP_STATUS_BUFFER_SMALL, cbor_free lib crpm c)
           | Some b \<Rightarrow> Some (Inr b, cbor_free lib crpm c)))) ?P"
    proof (intro yields_enc_bind [OF yields_encode_payload [OF _ _ m]] yields_check_error)
      fix v c1 t c2
      assume v: "cbor_value v = message_tree a"
        and "mapput_int lib t0 (crpm_type m) v c1 = (Inr t, c2)"
      then have "ctype t = CN_CBOR_MAP \<and> mapget_int lib t = [message_id a \<mapsto> v]"
        using laws t0 message_of_cases(1) [OF m(1)] unfolding map_ok_def by metis
      then show "yields (case encoder_write lib n t of
            None \<Rightarrow> Some (Inl DCRCP_STATUS_BUFFER_SMALL, cbor_free lib t c2)
          | Some b \<Rightarrow> Some (Inr b, cbor_free lib t c2)) ?P"
        using v by (auto split: option.split)
    qed (use laws in auto)
    then show ?thesis by simp
  qed
  then show ?thesis unfolding encode_crpm_def by (rule yields_check_error)
qed

lemma dcrcpEncode_result:
  assumes "yields (encode_crpm lib m n c) P"
  shows "\<exists>st b c'. dcrcpEncode lib (Some m) False n False (Some c) = Some (st, b, c') \<and>
    (st = DCRCP_STATUS_OK \<longrightarrow> P b)"
proof (cases "n = 0")
  case False
  obtain r c' where x: "encode_crpm lib m n c = Some (r, c')"
    using assms by (cases "encode_crpm lib m n c") (auto simp: yields_def)
  show ?thesis
    using assms x False by (cases r) (simp_all add: dcrcpEncode_def)
qed (simp add: dcrcpEncode_def)

definition encoding_of :: "'c cbor_lib \<Rightarrow> message \<Rightarrow> nat \<Rightarrow> byte list \<Rightarrow> bool" where
  "encoding_of lib a n b \<longleftrightarrow>
     (\<exists>t p. ctype t = CN_CBOR_MAP \<and> encoder_write lib n t = Some b \<and>
        mapget_int lib t = [message_id a \<mapsto> p] \<and> cbor_value p = message_tree a)"

lemma dcrcpEncode_encoding:
  assumes "cbor_ok lib" "message_of m = Some a" "message_ok a"
  shows "\<exists>st b c'. dcrcpEncode lib (Some m) False n False (Some c) = Some (st, b, c') \<and>
    (st = DCRCP_STATUS_OK \<longrightarrow> encoding_of lib a n b)"
  unfolding encoding_of_def
  by (rule dcrcpEncode_result [OF encode_crpm_yields [OF assms]])

lemma encoding_decodes:
  assumes ok: "cbor_ok lib" and a: "message_ok a" and b: "encoding_of lib a n b"
  shows "b \<noteq> [] \<and> length b \<le> n \<and>
    (\<exists>st m d'. dcrcpDecode lib (Some old) (Some b) (length b) (Some d) = Some (st, Some m, d') \<and>
       (st = DCRCP_STATUS_OK \<and> message_of m = Some a \<or> st = DCRCP_STATUS_OUT_OF_MEMORY))"
proof -
  have codec: "codec_ok lib" and ix: "array_index_ok lib" using ok by (auto simp: cbor_ok_def)
  obtain t p where t: "ctype t = CN_CBOR_MAP" "encoder_write lib n t = Some b"
    "mapget_int lib t = [message_id a \<mapsto> p]" "cbor_value p = message_tree a"
    using b unfolding encoding_of_def by blast
  obtain r d' where r: "cbor_decode lib b d = (r, d')" by fastforce
  have bn: "b \<noteq> []" "length b \<le> n" and
    dec: "case r of Inl e \<Rightarrow> e = CN_CBOR_ERR_OUT_OF_MEMORY
      | Inr m' \<Rightarrow> \<forall>k. map_option cbor_value (mapget_int lib m' k) =
          map_option cbor_value (mapget_int lib t k)"
    using codec t(1,2) r unfolding codec_ok_def by blast+
  show ?thesis
  proof (cases r)
    case (Inl e)
    then show ?thesis using bn dec r by (simp add: dcrcpDecode_def buf_simps)
  next
    case (Inr v)
    have get: "map_option cbor_value (mapget_int lib v k) =
        (if k = message_id a then Some (message_tree a) else None)" for k
      using dec Inr t(3,4) by simp
    obtain q where q: "mapget_int lib v (message_id a) = Some q" "cbor_value q = message_tree a"
      using get [of "message_id a"] by auto
    have "mapget_int lib v j = None" if "j \<noteq> message_id a" for j
      using get [of j] that by simp
    then have "first_entry lib v (message_id a) q"
      using q(1) by (simp add: first_entry_def)
    then obtain m' where "decode_message lib v crpm_zero = Some (True, m')" "message_of m' = Some a"
      using decode_message_tree [OF ix _ q(2) a] by blast
    then show ?thesis using bn r Inr by (simp add: dcrcpDecode_def buf_simps)
  qed
qed

text \<open>
  C28.  Round trip.  For every CBOR library with the documented behaviour, encoding a message
  within the bounds of the decoder is defined and reports \<open>DCRCP_STATUS_OK\<close> with at most
  \<open>buf_size\<close> octets or an error; and decoding the octets of a successful encoding gives a
  message of the same meaning with \<open>DCRCP_STATUS_OK\<close>, unless memory runs out.
\<close>

theorem crpm_roundtrip:
  assumes ok: "cbor_ok lib" and m: "message_of m = Some a" "message_ok a"
  shows "\<exists>st b c'. dcrcpEncode lib (Some m) False n False (Some c) = Some (st, b, c') \<and>
    (st = DCRCP_STATUS_OK \<longrightarrow> length b \<le> n \<and>
      (\<exists>st' m' d'. dcrcpDecode lib (Some old) (Some b) (length b) (Some d) = Some (st', Some m', d') \<and>
         (st' = DCRCP_STATUS_OK \<and> message_of m' = Some a \<or> st' = DCRCP_STATUS_OUT_OF_MEMORY)))"
  using dcrcpEncode_encoding [OF assms, of n c] encoding_decodes [OF ok m(2), of n _ old d] by blast

text \<open>
  C32. Whatever octets are received: a message that \<open>dcrcpDecode\<close> accepts is a well-formed C
  object with a meaning (the union member the type selects is filled, texts are terminated
  inside their arrays, counts and lengths stay within the arrays), and within the bounds the
  decoder tests, so that it can be encoded again by the round trip property.  These bounds are
  wider than those of the schema (\<open>bounds_wider_than_schema\<close>).  The library only has
  to return trees whose lengths agree with what they hold.
\<close>

theorem decoded_within_bounds:
  assumes "cbor_decode lib b c = (Inr v, c1)" and "\<forall>k p. mapget_int lib v k = Some p \<longrightarrow> sized p"
    and "dcrcpDecode lib (Some old) (Some b) (length b) (Some c) = Some (DCRCP_STATUS_OK, Some m, c')"
  shows "\<exists>a. message_of m = Some a \<and> message_ok a"
proof -
  have "decode_message lib v crpm_zero = Some (True, m)"
    using assms(1,3)
    by (auto simp: dcrcpDecode_def buf_simps bind_eq_Some_conv split: if_splits)
  then show ?thesis using decode_message_within_bounds assms(2) by blast
qed

end
