(* ===== verification/Dcrcp_Cbor.thy ===== *)
theory Dcrcp_Cbor
  imports Dcrcp_Roundtrip
begin

text \<open>
  A CBOR library that keeps the laws \<open>cbor_ok\<close>, so that the round trip is about something:
  the definite-length subset of RFC 8949 with integers and lengths of at most 16 bits.  It
  is not a model of cn-cbor, whose sources are not part of the repository; it instantiates
  the parameter for the witnesses.
\<close>

section \<open>Writing\<close>

definition octet :: "nat \<Rightarrow> byte" where
  "octet n = word_of_nat n"

lemma unat_octet: "n < 256 \<Longrightarrow> unat (octet n) = n"
  by (simp add: octet_def unat_of_nat)

fun cbor_head :: "nat \<Rightarrow> nat \<Rightarrow> byte list option" where
  "cbor_head major n =
     (if n < 24 then Some [octet (32 * major + n)]
      else if n < 256 then Some [octet (32 * major + 24), octet n]
      else if n < 65536 then
        Some [octet (32 * major + 25), octet (n div 256), octet (n mod 256)]
      else None)"

declare cbor_head.simps [simp del]

fun cbor_write :: "cn_cbor \<Rightarrow> byte list option"
and cbor_writes :: "cn_cbor list \<Rightarrow> byte list option" where
  "cbor_write (CnCbor t n bs l vs) =
     (case t of
        CN_CBOR_NULL \<Rightarrow> Some [0xF6]
      | CN_CBOR_UINT \<Rightarrow> cbor_head 0 n
      | CN_CBOR_BYTES \<Rightarrow> if l = length bs then map_option (\<lambda>h. h @ bs) (cbor_head 2 l) else None
      | CN_CBOR_TEXT \<Rightarrow> if l = length bs then map_option (\<lambda>h. h @ bs) (cbor_head 3 l) else None
      | CN_CBOR_ARRAY \<Rightarrow>
          if l = length vs then do { h \<leftarrow> cbor_head 4 l; b \<leftarrow> cbor_writes vs; Some (h @ b) }
          else None
      | CN_CBOR_MAP \<Rightarrow>
          if even (length vs)
          then do { h \<leftarrow> cbor_head 5 (length vs div 2); b \<leftarrow> cbor_writes vs; Some (h @ b) }
          else None
      | CN_CBOR_OTHER \<Rightarrow> None)"
| "cbor_writes [] = Some []"
| "cbor_writes (v # vs) = do { a \<leftarrow> cbor_write v; b \<leftarrow> cbor_writes vs; Some (a @ b) }"

section \<open>Reading\<close>

fun read_head :: "byte list \<Rightarrow> (nat \<times> nat \<times> byte list) option" where
  "read_head [] = None"
| "read_head (b # r) =
     (let major = unat b div 32; ai = unat b mod 32 in
      if ai < 24 then Some (major, ai, r)
      else if ai = 24 then (case r of x # r \<Rightarrow> Some (major, unat x, r) | _ \<Rightarrow> None)
      else if ai = 25 then
        (case r of x # y # r \<Rightarrow> Some (major, 256 * unat x + unat y, r) | _ \<Rightarrow> None)
      else None)"

declare read_head.simps [simp del]

fun read_node :: "nat \<Rightarrow> byte list \<Rightarrow> (cn_cbor \<times> byte list) option"
and read_nodes :: "nat \<Rightarrow> nat \<Rightarrow> byte list \<Rightarrow> (cn_cbor list \<times> byte list) option" where
  "read_node 0 bs = None"
| "read_node (Suc f) bs =
     (case read_head bs of
        None \<Rightarrow> None
      | Some (major, n, r) \<Rightarrow>
          if major = 0 then Some (CnCbor CN_CBOR_UINT n [] 0 [], r)
          else if major = 2 \<and> n \<le> length r then Some (CnCbor CN_CBOR_BYTES 0 (take n r) n [], drop n r)
          else if major = 3 \<and> n \<le> length r then Some (CnCbor CN_CBOR_TEXT 0 (take n r) n [], drop n r)
          else if major = 4 then
            map_option (\<lambda>(vs, r). (CnCbor CN_CBOR_ARRAY 0 [] n vs, r)) (read_nodes f n r)
          else if major = 5 then
            map_option (\<lambda>(vs, r). (CnCbor CN_CBOR_MAP 0 [] 0 vs, r)) (read_nodes f (2 * n) r)
          else if major = 7 \<and> n = 22 then Some (CnCbor CN_CBOR_NULL 0 [] 0 [], r)
          else None)"
| "read_nodes 0 n bs = None"
| "read_nodes (Suc f) 0 bs = Some ([], bs)"
| "read_nodes (Suc f) (Suc n) bs = do {
     (v, r) \<leftarrow> read_node f bs;
     (vs, r) \<leftarrow> read_nodes f n r;
     Some (v # vs, r)
   }"

lemma read_head_write:
  assumes "cbor_head major n = Some h" and "major < 8"
  shows "read_head (h @ r) = Some (major, n, r) \<and> h \<noteq> []"
proof -
  have "unat (octet (32 * major + k)) = 32 * major + k" if "k < 32" for k
    using that assms(2) by (simp add: unat_octet)
  then have k: "unat (octet (32 * major + k)) div 32 = major" "unat (octet (32 * major + k)) mod 32 = k"
    if "k < 32" for k
    using that by simp_all
  have n: "n mod 256 < 256" "n < 65536 \<Longrightarrow> n div 256 < 256" by auto
  show ?thesis
    using assms(1) n by (auto simp: cbor_head.simps read_head.simps Let_def k unat_octet split: if_splits)
qed

definition reads_back :: "cn_cbor \<Rightarrow> bool" where
  "reads_back v \<longleftrightarrow> (\<forall>b f r. cbor_write v = Some b \<longrightarrow> 2 * length b \<le> f \<longrightarrow>
     read_node f (b @ r) = Some (cbor_value v, r))"

lemma cbor_head_nonempty: "cbor_head major n = Some h \<Longrightarrow> 1 \<le> length h"
  by (auto simp: cbor_head.simps split: if_splits)

lemma cbor_write_nonempty: "cbor_write v = Some b \<Longrightarrow> 1 \<le> length b"
  by (cases v) (auto split: cbor_type.splits if_splits bind_splits dest!: cbor_head_nonempty)

lemma read_nodes_write:
  assumes "\<forall>v\<in>set vs. reads_back v" "cbor_writes vs = Some c" "2 * length c + 1 \<le> f"
  shows "read_nodes f (length vs) (c @ r) = Some (map cbor_value vs, r)"
  using assms
proof (induction vs arbitrary: c f)
  case (Cons v vs)
  obtain a d where w: "cbor_write v = Some a" "cbor_writes vs = Some d" "c = a @ d"
    using Cons.prems(2) by (auto split: bind_splits)
  obtain f' where f: "f = Suc f'" using Cons.prems(3) by (cases f) auto
  have "read_node f' (a @ d @ r) = Some (cbor_value v, d @ r)"
    using Cons.prems w f by (simp add: reads_back_def)
  moreover have "read_nodes f' (length vs) (d @ r) = Some (map cbor_value vs, r)"
    using Cons.prems w f cbor_write_nonempty [OF w(1)] by (intro Cons.IH) auto
  ultimately show ?case using w f by simp
next
  case Nil
  then show ?case by (cases f) simp_all
qed

lemma reads_back: "reads_back v"
proof (induction v)
  case (CnCbor t n bs l vs)
  have "read_node f (b @ r) = Some (cbor_value (CnCbor t n bs l vs), r)"
    if w: "cbor_write (CnCbor t n bs l vs) = Some b" "2 * length b \<le> f" for b f r
  proof -
    obtain f' where f: "f = Suc f'" using cbor_write_nonempty [OF w(1)] w(2) by (cases f) auto
    have nodes: "read_nodes f' (length vs) (c @ r) = Some (map cbor_value vs, r)"
      if "cbor_writes vs = Some c" "b = h @ c" "cbor_head major k = Some h" for c h major k
      using that w(2) f cbor_head_nonempty [OF that(3)] CnCbor
      by (intro read_nodes_write) auto
    show ?thesis
    proof (cases t)
      case CN_CBOR_NULL
      then show ?thesis using w(1) f by (auto simp: read_head.simps)
    next
      case CN_CBOR_UINT
      then show ?thesis using w(1) f read_head_write [of 0 n b r] by simp
    next
      case CN_CBOR_BYTES
      then obtain h where h: "cbor_head 2 l = Some h" "b = h @ bs" "l = length bs"
        using w(1) by (auto split: if_splits)
      show ?thesis using read_head_write [OF h(1), of "bs @ r"] h(2,3) f CN_CBOR_BYTES by simp
    next
      case CN_CBOR_TEXT
      then obtain h where h: "cbor_head 3 l = Some h" "b = h @ bs" "l = length bs"
        using w(1) by (auto split: if_splits)
      show ?thesis using read_head_write [OF h(1), of "bs @ r"] h(2,3) f CN_CBOR_TEXT by simp
    next
      case CN_CBOR_ARRAY
      then obtain h c where h: "cbor_head 4 l = Some h" "b = h @ c" "l = length vs"
        "cbor_writes vs = Some c"
        using w(1) by (auto split: if_splits bind_splits)
      show ?thesis
        using nodes [OF h(4,2,1)] read_head_write [OF h(1), of "c @ r"] h(2,3) f CN_CBOR_ARRAY by simp
    next
      case CN_CBOR_MAP
      then obtain h c where h: "cbor_head 5 (length vs div 2) = Some h" "b = h @ c"
        "even (length vs)" "cbor_writes vs = Some c"
        using w(1) by (auto split: if_splits bind_splits)
      show ?thesis
        using nodes [OF h(4,2,1)] read_head_write [OF h(1), of "c @ r"] h(2,3) f CN_CBOR_MAP by simp
    qed (use w(1) in simp)
  qed
  then show ?case by (simp add: reads_back_def)
qed

section \<open>The library\<close>

fun cbor_lookup :: "nat \<Rightarrow> cn_cbor list \<Rightarrow> cn_cbor option" where
  "cbor_lookup k (a # b # r) =
     (if ctype a = CN_CBOR_UINT \<and> uint_of a = k then Some b else cbor_lookup k r)"
| "cbor_lookup k _ = None"

definition rfc_cbor :: "unit cbor_lib" where
  "rfc_cbor =
     \<lparr>map_create = \<lambda>c. (Inr (CnCbor CN_CBOR_MAP 0 [] 0 []), c),
      array_create = \<lambda>c. (Inr (array_tree []), c),
      int_create = \<lambda>n c. (Inr (uint_tree n), c),
      string_create = \<lambda>s c. (Inr (text_tree s), c),
      data_create = \<lambda>s c. (Inr (bytes_tree s), c),
      calloc_func = \<lambda>c. (Some (CnCbor CN_CBOR_OTHER 0 [] 0 []), c),
      array_append = \<lambda>a v. (case v of
          Some v \<Rightarrow> if ctype a = CN_CBOR_ARRAY
            then Inr (CnCbor CN_CBOR_ARRAY 0 [] (len a + 1) (children a @ [v]))
            else Inl CN_CBOR_ERR_OTHER
        | None \<Rightarrow> Inl CN_CBOR_ERR_OTHER),
      mapput_int = \<lambda>m k v c.
        (if ctype m = CN_CBOR_MAP
         then Inr (CnCbor CN_CBOR_MAP 0 [] 0 (uint_tree k # v # children m))
         else Inl CN_CBOR_ERR_OTHER, c),
      mapget_int = \<lambda>m k. (if ctype m = CN_CBOR_MAP then cbor_lookup k (children m) else None),
      cbor_index = \<lambda>a i. (if i < length (children a) then Some (children a ! i) else None),
      encoder_write = \<lambda>n v. (case cbor_write v of
          Some b \<Rightarrow> if length b \<le> n then Some b else None
        | None \<Rightarrow> None),
      cbor_decode = \<lambda>b c. (case read_node (2 * length b) b of
          Some (v, []) \<Rightarrow> (Inr v, c)
        | _ \<Rightarrow> (Inl CN_CBOR_ERR_OTHER, c)),
      cbor_free = \<lambda>v c. c\<rparr>"

lemma cbor_value_ctype [simp]: "ctype (cbor_value v) = ctype v"
  by (cases v) (simp split: cbor_type.split)

lemma cbor_value_uint: "ctype v = CN_CBOR_UINT \<Longrightarrow> uint_of (cbor_value v) = uint_of v"
  by (cases v) simp

lemma cbor_value_idem [simp]: "cbor_value (cbor_value v) = cbor_value v"
  by (induction v) (simp split: cbor_type.split)

lemma cbor_lookup_value:
  "cbor_lookup k (map cbor_value vs) = map_option cbor_value (cbor_lookup k vs)"
  by (induction k vs rule: cbor_lookup.induct) (auto simp: cbor_value_uint)

lemma rfc_decode:
  assumes "cbor_write m = Some b"
  shows "cbor_decode rfc_cbor b c = (Inr (cbor_value m), c)"
  using reads_back [of m, unfolded reads_back_def, rule_format, OF assms, of "2 * length b" "[]"]
  by (simp add: rfc_cbor_def)

lemma rfc_cbor_ok: "cbor_ok rfc_cbor"
proof -
  have "codec_ok rfc_cbor"
    unfolding codec_ok_def
  proof (intro allI impI conjI)
    fix n m b and c :: unit and r c'
    assume m: "ctype m = CN_CBOR_MAP" and "encoder_write rfc_cbor n m = Some b"
    then have w: "cbor_write m = Some b" "length b \<le> n"
      by (auto simp: rfc_cbor_def split: option.splits if_splits)
    show "b \<noteq> []" "length b \<le> n" using w cbor_write_nonempty [OF w(1)] by auto
    assume "cbor_decode rfc_cbor b c = (r, c')"
    then have "r = Inr (cbor_value m)" using rfc_decode [OF w(1)] by simp
    moreover have "children (cbor_value m) = map cbor_value (children m)"
      using m by (cases m) simp
    ultimately show "case r of Inl e \<Rightarrow> e = CN_CBOR_ERR_OUT_OF_MEMORY
      | Inr m' \<Rightarrow> \<forall>k. map_option cbor_value (mapget_int rfc_cbor m' k) =
          map_option cbor_value (mapget_int rfc_cbor m k)"
      using m by (auto simp: rfc_cbor_def cbor_lookup_value option.map_comp comp_def)
  qed
  moreover have "create_ok rfc_cbor" "array_index_ok rfc_cbor"
    by (auto simp: create_ok_def array_index_ok_def rfc_cbor_def cbor_value_eq
        uint_tree_def text_tree_def bytes_tree_def array_tree_def)
  moreover have "append_ok rfc_cbor"
    by (auto simp: append_ok_def rfc_cbor_def cbor_value_eq split: if_splits)
  moreover have "map_ok rfc_cbor"
    by (auto simp: map_ok_def rfc_cbor_def uint_tree_def fun_eq_iff split: if_splits)
  ultimately show ?thesis by (simp add: cbor_ok_def)
qed

section \<open>Witnesses\<close>

definition sample_crpm :: DeadcomCRPM where
  "sample_crpm = crpm_zero\<lparr>crpm_type := DCRCP_CRPM_SYS_QUERY_RESPONSE, rdrClass := 0x0102,
     hwModel := 3, hwRev := 4, serial := [0x41, 0x42, 0x43] @ replicate 23 0,
     swVerMajor := 200, swVerMinor := 1\<rparr>"

lemma sample_message:
  "message_of sample_crpm = Some (SysQueryResponse 0x0102 3 4 [0x41, 0x42, 0x43] 200 1)"
  by (simp add: sample_crpm_def message_of_def crpm_ids c_string_def)

lemma sample_encoding:
  "dcrcpEncode rfc_cbor (Some sample_crpm) False 64 False (Some ()) =
     Some (DCRCP_STATUS_OK,
       [0xA1, 0x02, 0x86, 0x19, 0x01, 0x02, 0x03, 0x04, 0x63, 0x41, 0x42, 0x43, 0x18, 0xC8, 0x01],
       Some ())"
  by (simp add: dcrcpEncode_def encode_crpm_def encode_payload_def rfc_cbor_def check_error_def
      enc_bind_def arr_add_int_def arr_add_str_def sample_crpm_def crpm_zero_def crpm_ids
      c_string_def array_tree_def uint_tree_def text_tree_def cbor_head.simps octet_def)

theorem crpm_roundtrip_witness:
  "\<exists>st' m' d'. dcrcpDecode rfc_cbor (Some crpm_zero)
     (Some [0xA1, 0x02, 0x86, 0x19, 0x01, 0x02, 0x03, 0x04, 0x63, 0x41, 0x42, 0x43, 0x18, 0xC8, 0x01])
     15 (Some ()) = Some (st', Some m', d') \<and>
     (st' = DCRCP_STATUS_OK \<and>
        message_of m' = Some (SysQueryResponse 0x0102 3 4 [0x41, 0x42, 0x43] 200 1) \<or>
      st' = DCRCP_STATUS_OUT_OF_MEMORY)"
proof -
  have l: "15 = length [0xA1, 0x02, 0x86, 0x19, 0x01, 0x02, 0x03, 0x04, 0x63, 0x41, 0x42, 0x43,
    0x18, 0xC8, 0x01 :: byte]" by simp
  show ?thesis
    unfolding l
    using crpm_roundtrip [OF rfc_cbor_ok sample_message, of 64 "()" crpm_zero "()"]
    by (simp add: sample_encoding)
qed

definition long_text_tree :: cn_cbor where
  "long_text_tree = CnCbor CN_CBOR_MAP 0 [] 0 [uint_tree 4, text_tree (replicate 200 0x41)]"

lemma long_text_tree_write:
  "cbor_write long_text_tree = Some ([0xA1, 0x04, 0x78, 200] @ replicate 200 0x41)"
  by (simp add: long_text_tree_def uint_tree_def text_tree_def cbor_head.simps octet_def)

theorem decode_defined_unless_witness:
  "dcrcpDecode rfc_cbor (Some crpm_zero) (Some ([0xA1, 0x04, 0x78, 200] @ replicate 200 0x41))
     (length ([0xA1, 0x04, 0x78, 200] @ replicate 200 (0x41 :: byte))) (Some ()) = None"
proof -
  have v: "cbor_value long_text_tree = long_text_tree"
    by (simp add: long_text_tree_def uint_tree_def text_tree_def)
  have get: "mapget_int rfc_cbor long_text_tree k = (if k = 4 then Some (text_tree (replicate 200 0x41)) else None)"
    for k by (simp add: rfc_cbor_def long_text_tree_def uint_tree_def)
  have sz: "\<forall>k p. mapget_int rfc_cbor long_text_tree k = Some p \<longrightarrow> sized p"
    by (auto simp: get text_tree_def)
  have ix: "array_index_ok rfc_cbor" using rfc_cbor_ok by (simp add: cbor_ok_def)
  have "first_entry rfc_cbor long_text_tree DCRCP_CRPM_RDR_FAILURE (text_tree (replicate 200 0x41))"
    by (simp add: first_entry_def get crpm_ids)
  moreover have "long_text (text_tree (replicate 200 0x41))"
    by (simp add: long_text_def text_tree_def)
  ultimately show ?thesis
    using decode_defined_unless [OF rfc_decode [OF long_text_tree_write, unfolded v] _ sz ix]
    by blast
qed

definition uid_map_tree :: cn_cbor where
  "uid_map_tree = CnCbor CN_CBOR_MAP 0 [] 0 [uint_tree 6, array_tree [bytes_tree [1, 2, 3, 4]]]"

lemma uid_map_tree_write:
  "cbor_write uid_map_tree = Some [0xA1, 0x06, 0x81, 0x44, 1, 2, 3, 4]"
  by (simp add: uid_map_tree_def uint_tree_def bytes_tree_def array_tree_def cbor_head.simps octet_def)

text \<open>One UID of four octets.\<close>

theorem decoded_within_bounds_witness:
  "\<exists>m c'. dcrcpDecode rfc_cbor (Some crpm_zero) (Some [0xA1, 0x06, 0x81, 0x44, 1, 2, 3, 4])
      (length [0xA1, 0x06, 0x81, 0x44, 1, 2, 3, 4 :: byte]) (Some ()) = Some (DCRCP_STATUS_OK, Some m, c') \<and>
    (\<exists>a. message_of m = Some a \<and> message_ok a)"
proof -
  have v: "cbor_value uid_map_tree = uid_map_tree"
    by (simp add: uid_map_tree_def uint_tree_def bytes_tree_def array_tree_def)
  note d = rfc_decode [OF uid_map_tree_write, unfolded v]
  have get: "mapget_int rfc_cbor uid_map_tree k =
      (if k = 6 then Some (array_tree [bytes_tree [1, 2, 3, 4]]) else None)" for k
    by (simp add: rfc_cbor_def uid_map_tree_def uint_tree_def)
  have sz: "\<forall>k p. mapget_int rfc_cbor uid_map_tree k = Some p \<longrightarrow> sized p"
    by (auto simp: get array_tree_def bytes_tree_def)
  have "\<exists>m c'. dcrcpDecode rfc_cbor (Some crpm_zero) (Some [0xA1, 0x06, 0x81, 0x44, 1, 2, 3, 4])
      (length [0xA1, 0x06, 0x81, 0x44, 1, 2, 3, 4 :: byte]) (Some ()) = Some (DCRCP_STATUS_OK, Some m, c')"
    unfolding dcrcpDecode_def
    by (simp add: d buf_read_def decode_message_def get crpm_ids array_tree_def bytes_tree_def
        crpm_zero_def buf_copy_def buf_write_def)
  then show ?thesis using decoded_within_bounds [OF d sz] by blast
qed

end
