(* ===== verification/Dcrcp_Pool.thy ===== *)
theory Dcrcp_Pool
  imports Dcrcp_Cbor
begin

text \<open>
  The codec on a pool of CBOR structures, as on a microcontroller (\<open>cn_cbor_context\<close> with a
  pool allocator, \<open>DCRCP_REQUIRED_CNCBOR_BUFFERS\<close> in \<open>dcrcp/lib/inc/dcrcp.h\<close>): how many
  structures an encoding takes, what happens when they run out, and what is given back.
  \<open>avail\<close> reads the number of free structures from the state of the allocation context.
\<close>

section \<open>An allocator that counts\<close>

text \<open>The structures a tree consists of: its root and the members of arrays and maps.\<close>

fun nodes :: "cn_cbor \<Rightarrow> nat" where
  "nodes (CnCbor t n bs l vs) =
     Suc (if t = CN_CBOR_ARRAY \<or> t = CN_CBOR_MAP then sum_list (map nodes vs) else 0)"

text \<open>
  A function that takes one structure: it reports that memory ran out exactly when none is
  free, and otherwise returns a value with \<open>P\<close>.
\<close>

definition takes_one ::
  "('c \<Rightarrow> nat) \<Rightarrow> 'c \<Rightarrow> ('a \<Rightarrow> bool) \<Rightarrow> (cbor_err + 'a) \<times> 'c \<Rightarrow> bool" where
  "takes_one avail c P x \<longleftrightarrow>
     (if avail c = 0 then fst x = Inl CN_CBOR_ERR_OUT_OF_MEMORY \<and> avail (snd x) = 0
      else (\<exists>v. fst x = Inr v \<and> P v) \<and> Suc (avail (snd x)) = avail c)"

definition single :: "cbor_type \<Rightarrow> cn_cbor \<Rightarrow> bool" where
  "single t v \<longleftrightarrow> ctype v = t \<and> nodes v = 1"

text \<open>
  What cn-cbor documents of its use of the allocator: one structure for every node created and
  one for the key of a map entry; appending to an array takes none and refuses a null pointer
  as an invalid parameter; freeing a tree gives back its structures; decoding takes the
  structures of the tree it returns and none when it fails, and fails for want of memory
  exactly when the tree that was written has more structures than are free.
\<close>

definition pool_alloc_ok :: "'c cbor_lib \<Rightarrow> ('c \<Rightarrow> nat) \<Rightarrow> bool" where
  "pool_alloc_ok lib avail \<longleftrightarrow>
     (\<forall>c. takes_one avail c (single CN_CBOR_MAP) (map_create lib c)) \<and>
     (\<forall>c. takes_one avail c (single CN_CBOR_ARRAY) (array_create lib c)) \<and>
     (\<forall>n c. takes_one avail c (\<lambda>v. nodes v = 1) (int_create lib n c)) \<and>
     (\<forall>s c. takes_one avail c (\<lambda>v. nodes v = 1) (string_create lib s c)) \<and>
     (\<forall>s c. takes_one avail c (\<lambda>v. nodes v = 1) (data_create lib s c)) \<and>
     (\<forall>c. (fst (calloc_func lib c) = None) = (avail c = 0) \<and>
          avail (snd (calloc_func lib c)) = avail c - 1)"

definition pool_tree_ok :: "'c cbor_lib \<Rightarrow> ('c \<Rightarrow> nat) \<Rightarrow> bool" where
  "pool_tree_ok lib avail \<longleftrightarrow>
     (\<forall>a v. ctype a = CN_CBOR_ARRAY \<longrightarrow> (\<exists>a'. array_append lib a (Some v) = Inr a' \<and>
        ctype a' = CN_CBOR_ARRAY \<and> nodes a' = nodes a + nodes v)) \<and>
     (\<forall>a. array_append lib a None = Inl CN_CBOR_ERR_OTHER) \<and>
     (\<forall>m k v c. ctype m = CN_CBOR_MAP \<longrightarrow>
        takes_one avail c (\<lambda>m'. ctype m' = CN_CBOR_MAP \<and> nodes m' = nodes m + nodes v + 1)
          (mapput_int lib m k v c)) \<and>
     (\<forall>v c. avail (cbor_free lib v c) = avail c + nodes v)"

definition pool_decode_ok :: "'c cbor_lib \<Rightarrow> ('c \<Rightarrow> nat) \<Rightarrow> bool" where
  "pool_decode_ok lib avail \<longleftrightarrow>
     (\<forall>b c v c'. cbor_decode lib b c = (Inr v, c') \<longrightarrow> avail c = avail c' + nodes v) \<and>
     (\<forall>b c e c'. cbor_decode lib b c = (Inl e, c') \<longrightarrow> avail c' = avail c) \<and>
     (\<forall>n m b c c'. ctype m = CN_CBOR_MAP \<longrightarrow> encoder_write lib n m = Some b \<longrightarrow>
        (cbor_decode lib b c = (Inl CN_CBOR_ERR_OUT_OF_MEMORY, c') \<longrightarrow> avail c < nodes m))"

definition pool_ok :: "'c cbor_lib \<Rightarrow> ('c \<Rightarrow> nat) \<Rightarrow> bool" where
  "pool_ok lib avail \<longleftrightarrow>
     pool_alloc_ok lib avail \<and> pool_tree_ok lib avail \<and> pool_decode_ok lib avail"

section \<open>Steps that need structures\<close>

text \<open>
  A step that takes \<open>k\<close> structures: with fewer it ends with the status \<open>s\<close> gives for the
  number that was free, and leaves none; otherwise its value has \<open>P\<close>.
\<close>

definition needs ::
  "('c \<Rightarrow> nat) \<Rightarrow> 'c \<Rightarrow> nat \<Rightarrow> (nat \<Rightarrow> DCRCPStatus) \<Rightarrow> ('a \<Rightarrow> bool) \<Rightarrow> ('c, 'a) enc \<Rightarrow> bool" where
  "needs avail c k s P x \<longleftrightarrow>
     (if avail c < k then \<exists>c'. x = Some (Inl (s (avail c)), c') \<and> avail c' = 0
      else \<exists>v c'. x = Some (Inr v, c') \<and> P v \<and> avail c = avail c' + k)"

abbreviation no_memory :: "nat \<Rightarrow> DCRCPStatus" where
  "no_memory \<equiv> (\<lambda>_. DCRCP_STATUS_OUT_OF_MEMORY)"

lemma needs_Inr [simp]: "needs avail c k s P (Some (Inr v, c')) \<longleftrightarrow> P v \<and> avail c = avail c' + k"
  by (auto simp: needs_def)

lemma needs_cases:
  assumes "needs avail c k s P x"
  obtains (short) c' where "avail c < k" "x = Some (Inl (s (avail c)), c')" "avail c' = 0"
    | (enough) v c' where "avail c = avail c' + k" "x = Some (Inr v, c')" "P v"
  using assms by (auto simp: needs_def split: if_splits)

lemma needs_weaken: "needs avail c k s P x \<Longrightarrow> (\<And>v. P v \<Longrightarrow> Q v) \<Longrightarrow> needs avail c k s Q x"
  by (erule needs_cases) (auto simp: needs_def)

lemma takes_one_cases:
  assumes "takes_one avail c P r"
  obtains (none) c' where "avail c = 0" "r = (Inl CN_CBOR_ERR_OUT_OF_MEMORY, c')" "avail c' = 0"
    | (one) v c' where "avail c = Suc (avail c')" "r = (Inr v, c')" "P v"
  using assms by (cases r) (auto simp: takes_one_def split: if_splits)

lemma needs_check_error:
  assumes "takes_one avail c P r"
    and "\<And>v c'. r = (Inr v, c') \<Longrightarrow> P v \<Longrightarrow> needs avail c' k s Q (f v c')"
  shows "needs avail c (Suc k) (\<lambda>n. if n = 0 then DCRCP_STATUS_OUT_OF_MEMORY else s (n - 1)) Q
    (check_error r f)"
  using assms(1)
proof (cases rule: takes_one_cases)
  case (none c')
  then show ?thesis by (simp add: check_error_def needs_def)
next
  case (one v c')
  from assms(2) [OF one(2,3)] show ?thesis
    by (cases rule: needs_cases) (use one in \<open>simp_all add: check_error_def needs_def\<close>)
qed

lemma needs_check_no_memory:
  assumes "takes_one avail c P r"
    and "\<And>v c'. r = (Inr v, c') \<Longrightarrow> P v \<Longrightarrow> needs avail c' k no_memory Q (f v c')"
  shows "needs avail c (Suc k) no_memory Q (check_error r f)"
  using needs_check_error [OF assms] by simp

lemma needs_bind:
  assumes "needs avail c k no_memory P x"
    and "\<And>v c'. P v \<Longrightarrow> needs avail c' j no_memory Q (f v c')"
  shows "needs avail c (k + j) no_memory Q (enc_bind x f)"
  using assms(1)
proof (cases rule: needs_cases)
  case (short c')
  then show ?thesis by (simp add: enc_bind_def needs_def)
next
  case (enough v c')
  from assms(2) [OF enough(3), of c'] show ?thesis
    by (cases rule: needs_cases) (use enough in \<open>simp_all add: enc_bind_def needs_def\<close>)
qed

section \<open>What the encoder takes\<close>

lemma pool_allocD:
  assumes "pool_alloc_ok lib avail"
  shows "takes_one avail c (single CN_CBOR_MAP) (map_create lib c)"
    and "takes_one avail c (single CN_CBOR_ARRAY) (array_create lib c)"
    and "takes_one avail c (\<lambda>v. nodes v = 1) (int_create lib n c)"
    and "takes_one avail c (\<lambda>v. nodes v = 1) (string_create lib s c)"
    and "takes_one avail c (\<lambda>v. nodes v = 1) (data_create lib s c)"
    and "fst (calloc_func lib c) = None \<longleftrightarrow> avail c = 0"
    and "avail (snd (calloc_func lib c)) = avail c - 1"
  using assms unfolding pool_alloc_ok_def by blast+

lemma pool_treeD:
  assumes "pool_tree_ok lib avail"
  shows "ctype a = CN_CBOR_ARRAY \<Longrightarrow> \<exists>a'. array_append lib a (Some v) = Inr a' \<and>
        ctype a' = CN_CBOR_ARRAY \<and> nodes a' = nodes a + nodes v"
    and "array_append lib a None = Inl CN_CBOR_ERR_OTHER"
    and "ctype m = CN_CBOR_MAP \<Longrightarrow>
        takes_one avail c (\<lambda>m'. ctype m' = CN_CBOR_MAP \<and> nodes m' = nodes m + nodes v + 1)
          (mapput_int lib m k v c)"
    and "avail (cbor_free lib v c) = avail c + nodes v"
  using assms unfolding pool_tree_ok_def by blast+

text \<open>An array of \<open>n\<close> structures in all.\<close>

definition array_of :: "nat \<Rightarrow> cn_cbor \<Rightarrow> bool" where
  "array_of n v \<longleftrightarrow> ctype v = CN_CBOR_ARRAY \<and> nodes v = n"

lemma needs_append:
  assumes "pool_tree_ok lib avail" "array_of n a" "takes_one avail c (\<lambda>v. nodes v = 1) r"
  shows "needs avail c 1 no_memory (array_of (Suc n))
    (check_error r (\<lambda>v c. check_error (array_append lib a (Some v), c) (\<lambda>a c. Some (Inr a, c))))"
proof -
  have *: "needs avail c' 0 no_memory (array_of (Suc n))
      (check_error (array_append lib a (Some v), c') (\<lambda>a c. Some (Inr a, c)))"
    if v: "nodes v = 1" for v c'
  proof -
    obtain a' where "array_append lib a (Some v) = Inr a'" "array_of (Suc n) a'"
      using pool_treeD(1) [OF assms(1), of a v] assms(2) v by (auto simp: array_of_def)
    then show ?thesis by (simp add: check_error_def)
  qed
  show ?thesis unfolding One_nat_def by (rule needs_check_no_memory [OF assms(3)]) (rule *)
qed

lemma needs_arr_add:
  assumes "pool_alloc_ok lib avail" "pool_tree_ok lib avail" "array_of n a"
  shows "needs avail c 1 no_memory (array_of (Suc n)) (arr_add_int lib a i c)"
    and "c_string b = Some s \<Longrightarrow> needs avail c 1 no_memory (array_of (Suc n)) (arr_add_str lib a b c)"
  using needs_append [OF assms(2,3) pool_allocD(3) [OF assms(1)]]
    needs_append [OF assms(2,3) pool_allocD(4) [OF assms(1)]]
  by (simp_all add: arr_add_int_def arr_add_str_def)

lemma needs_add_auth_methods:
  assumes "pool_alloc_ok lib avail" "pool_tree_ok lib avail" "\<forall>i\<in>set is. i < length vals" "array_of n a"
  shows "needs avail c (length is) no_memory (array_of (n + length is)) (add_auth_methods lib vals is a c)"
  using assms(3,4)
proof (induction "is" arbitrary: a c n)
  case (Cons i "is")
  have "needs avail c (1 + length is) no_memory (array_of (Suc n + length is))
    (enc_bind (arr_add_int lib a (vals ! i) c) (add_auth_methods lib vals is))"
    by (rule needs_bind [OF needs_arr_add(1) [OF assms(1,2) Cons.prems(2)]], rule Cons.IH)
      (use Cons.prems(1) in simp)
  then show ?case using Cons.prems(1) by simp
qed simp

text \<open>A UID that gets no structure is appended as a null pointer: an invalid parameter.\<close>

lemma needs_add_uids:
  assumes "pool_alloc_ok lib avail" "pool_tree_ok lib avail"
    and "\<forall>i\<in>set is. i < length us \<and> uid_len (us ! i) \<le> length (uid (us ! i))" "array_of n a"
  shows "needs avail c (length is) (\<lambda>_. DCRCP_STATUS_INVALID_PARAM) (array_of (n + length is))
    (add_uids lib us is a c)"
  using assms(3,4)
proof (induction "is" arbitrary: a c n)
  case (Cons i "is")
  let ?b = "take (uid_len (us ! i)) (uid (us ! i))"
  have i: "i < length us" "uid_len (us ! i) \<le> length (uid (us ! i))" using Cons.prems(1) by auto
  from pool_allocD(5) [OF assms(1), of c ?b] show ?case
  proof (cases rule: takes_one_cases)
    case (none c')
    then show ?thesis using i pool_treeD(2) [OF assms(2)]
      by (simp add: buf_read_def check_error_def needs_def)
  next
    case (one v c')
    obtain a' where a': "array_append lib a (Some v) = Inr a'" "array_of (Suc n) a'"
      using pool_treeD(1) [OF assms(2), of a v] Cons.prems(2) one(3) by (auto simp: array_of_def)
    have "needs avail c' (length is) (\<lambda>_. DCRCP_STATUS_INVALID_PARAM) (array_of (Suc n + length is))
      (add_uids lib us is a' c')"
      using Cons.prems(1) by (intro Cons.IH a'(2)) simp
    then show ?thesis using i a'(1) one(1,2)
      by (auto simp: buf_read_def check_error_def needs_def split: if_splits)
  qed
qed simp

section \<open>The structures of a message\<close>

text \<open>
  Three structures for the map, the key and the payload, and one for every element of an array.
\<close>

fun entries :: "message \<Rightarrow> nat" where
  "entries (SysQueryResponse _ _ _ _ _ _) = 6"
| "entries (ActivateAuthMethod ams) = length ams"
| "entries (PiccUidObtained us) = length us"
| "entries _ = 0"

definition items :: "message \<Rightarrow> nat" where
  "items a = 3 + entries a"

lemma nodes_message_tree: "nodes (message_tree a) = Suc (entries a)"
proof -
  have "sum_list (map nodes (map f xs)) = length xs" if "\<And>x. nodes (f x) = 1"
    for xs :: "'b list" and f
    using that by (induction xs) simp_all
  then show ?thesis
    by (cases a) (simp_all add: array_tree_def null_tree_def uint_tree_def text_tree_def
        bytes_tree_def comp_def sum_list_triv)
qed

text \<open>The status when the structures run out after \<open>n\<close> of them.\<close>

definition payload_short :: "message \<Rightarrow> nat \<Rightarrow> DCRCPStatus" where
  "payload_short a n =
     (case a of
        PiccUidObtained us \<Rightarrow> if n = 0 then DCRCP_STATUS_OUT_OF_MEMORY else DCRCP_STATUS_INVALID_PARAM
      | _ \<Rightarrow> DCRCP_STATUS_OUT_OF_MEMORY)"

definition items_short :: "message \<Rightarrow> nat \<Rightarrow> DCRCPStatus" where
  "items_short a n =
     (case a of
        PiccUidObtained us \<Rightarrow>
          if 2 \<le> n \<and> n < 2 + length us then DCRCP_STATUS_INVALID_PARAM else DCRCP_STATUS_OUT_OF_MEMORY
      | _ \<Rightarrow> DCRCP_STATUS_OUT_OF_MEMORY)"

lemma needs_null_node:
  assumes "pool_alloc_ok lib avail"
  shows "needs avail c 1 no_memory (\<lambda>v. nodes v = 1) (null_node lib c)"
  using pool_allocD(6,7) [OF assms, of c]
  by (cases "calloc_func lib c"; cases "fst (calloc_func lib c)") (auto simp: null_node_def needs_def)

lemma needs_leaf:
  assumes "takes_one avail c (\<lambda>v. nodes v = 1) r"
  shows "needs avail c 1 no_memory (\<lambda>v. nodes v = 1) (check_error r (\<lambda>v c. Some (Inr v, c)))"
  using needs_check_no_memory [OF assms, of 0 "\<lambda>v. nodes v = 1"] by simp

lemma needs_array:
  assumes "pool_alloc_ok lib avail"
    and "\<And>a c. array_of 1 a \<Longrightarrow> needs avail c k s (array_of (Suc k)) (f a c)"
  shows "needs avail c (Suc k) (\<lambda>n. if n = 0 then DCRCP_STATUS_OUT_OF_MEMORY else s (n - 1))
    (\<lambda>v. nodes v = Suc k) (check_error (array_create lib c) f)"
  by (rule needs_weaken [OF needs_check_error [OF pool_allocD(2) [OF assms(1)] assms(2)]])
    (simp_all add: single_def array_of_def)

lemma needs_encode_payload:
  assumes al: "pool_alloc_ok lib avail" "pool_tree_ok lib avail" and m: "message_of m = Some a"
  shows "needs avail c (Suc (entries a)) (payload_short a) (\<lambda>v. nodes v = Suc (entries a))
    (encode_payload lib m c)"
proof (cases a)
  case (SysQueryResponse cl h r s ma mi)
  then have t: "crpm_type m = DCRCP_CRPM_SYS_QUERY_RESPONSE" "c_string (serial m) = Some s"
    using m by (auto simp: message_of_def crpm_ids split: if_splits)
  note int = needs_arr_add(1) [OF al] and str = needs_arr_add(2) [OF al _ t(2)]
  let ?f = "\<lambda>sqr c.
      enc_bind (arr_add_int lib sqr (unat (rdrClass m)) c) (\<lambda>sqr c.
      enc_bind (arr_add_int lib sqr (unat (hwModel m)) c) (\<lambda>sqr c.
      enc_bind (arr_add_int lib sqr (unat (hwRev m)) c) (\<lambda>sqr c.
      enc_bind (arr_add_str lib sqr (serial m) c) (\<lambda>sqr c.
      enc_bind (arr_add_int lib sqr (unat (swVerMajor m)) c) (\<lambda>sqr c.
      arr_add_int lib sqr (unat (swVerMinor m)) c)))))"
  have chain: "needs avail c 6 no_memory (array_of (Suc 6)) (?f sqr c)" if "array_of 1 sqr" for sqr c
  proof -
    have "needs avail c (1 + (1 + (1 + (1 + (1 + 1))))) no_memory
        (array_of (Suc (Suc (Suc (Suc (Suc (Suc 1))))))) (?f sqr c)"
      by (rule needs_bind [OF int [OF \<open>array_of 1 sqr\<close>]] needs_bind [OF int] needs_bind [OF str] int
          | assumption)+
    then show ?thesis by (simp add: eval_nat_numeral)
  qed
  have "needs avail c (Suc 6) (\<lambda>n. if n = 0 then DCRCP_STATUS_OUT_OF_MEMORY else no_memory (n - 1))
      (\<lambda>v. nodes v = Suc 6) (check_error (array_create lib c) ?f)"
    by (rule needs_array [OF al(1)]) (rule chain)
  then show ?thesis
    using t(1) SysQueryResponse by (simp add: encode_payload_def crpm_ids payload_short_def [abs_def])
next
  case (ActivateAuthMethod ams)
  then have t: "crpm_type m = DCRCP_CRPM_ACTIVATE_AUTH_METHOD" "auth_len m \<le> length (auth_vals m)"
    "length ams = auth_len m"
    using m by (auto simp: message_of_def crpm_ids split: if_splits)
  have loop: "needs avail c (auth_len m) no_memory (array_of (Suc (auth_len m)))
    (add_auth_methods lib (auth_vals m) [0..<auth_len m] v c)" if "array_of 1 v" for v c
    using needs_add_auth_methods [OF al, of "[0..<auth_len m]" "auth_vals m" 1 v c] that t(2) by simp
  have "needs avail c (Suc (auth_len m))
      (\<lambda>n. if n = 0 then DCRCP_STATUS_OUT_OF_MEMORY else no_memory (n - 1))
      (\<lambda>v. nodes v = Suc (auth_len m))
      (check_error (array_create lib c) (\<lambda>v c. add_auth_methods lib (auth_vals m) [0..<auth_len m] v c))"
    by (rule needs_array [OF al(1)]) (rule loop)
  then show ?thesis
    using t ActivateAuthMethod by (simp add: encode_payload_def crpm_ids payload_short_def [abs_def])
next
  case (PiccUidObtained us)
  then have t: "crpm_type m = DCRCP_CRPM_AM0_PICC_UID_OBTAINED" "am0_len m \<le> length (am0_vals m)"
    "\<forall>u\<in>set (take (am0_len m) (am0_vals m)). uid_len u \<le> length (uid u)" "length us = am0_len m"
    using m by (auto simp: message_of_def crpm_ids split: if_splits)
  have "\<forall>i\<in>set [0..<am0_len m]. i < length (am0_vals m) \<and>
      uid_len (am0_vals m ! i) \<le> length (uid (am0_vals m ! i))"
    using t(2,3) by (fastforce simp: in_set_conv_nth)
  then have loop: "needs avail c (am0_len m) (\<lambda>_. DCRCP_STATUS_INVALID_PARAM) (array_of (Suc (am0_len m)))
    (add_uids lib (am0_vals m) [0..<am0_len m] v c)" if "array_of 1 v" for v c
    using needs_add_uids [OF al, of "[0..<am0_len m]" "am0_vals m" 1 v c] that by simp
  have "needs avail c (Suc (am0_len m))
      (\<lambda>n. if n = 0 then DCRCP_STATUS_OUT_OF_MEMORY else DCRCP_STATUS_INVALID_PARAM)
      (\<lambda>v. nodes v = Suc (am0_len m))
      (check_error (array_create lib c) (\<lambda>v c. add_uids lib (am0_vals m) [0..<am0_len m] v c))"
    by (rule needs_array [OF al(1)]) (rule loop)
  then show ?thesis
    using t PiccUidObtained by (simp add: encode_payload_def crpm_ids payload_short_def [abs_def])
next
  case (RdrFailure s)
  then have "crpm_type m = DCRCP_CRPM_RDR_FAILURE" "c_string (rdrFailure m) = Some s"
    using m by (auto simp: message_of_def crpm_ids split: if_splits)
  then show ?thesis
    using needs_leaf [OF pool_allocD(4) [OF al(1)]] RdrFailure
    by (simp add: encode_payload_def crpm_ids payload_short_def [abs_def])
next
  case (UiUpdate n)
  then have "crpm_type m = DCRCP_CRPM_UI_UPDATE"
    using m by (auto simp: message_of_def crpm_ids split: if_splits)
  then show ?thesis
    using needs_leaf [OF pool_allocD(3) [OF al(1)]] UiUpdate
    by (simp add: encode_payload_def crpm_ids payload_short_def [abs_def])
qed (use m needs_null_node [OF al(1), of c] in \<open>auto simp: message_of_def crpm_ids encode_payload_def
      payload_short_def [abs_def] split: if_splits\<close>)

text \<open>
  The whole encoding: short of structures it leaves none; otherwise it gives all of them back,
  and what it writes is a tree of the message's structures.
\<close>

lemma encode_crpm_pool:
  assumes "pool_ok lib avail" and m: "message_of m = Some a"
  shows "if avail c < items a
    then \<exists>c'. encode_crpm lib m n c = Some (Inl (items_short a (avail c)), c') \<and> avail c' = 0
    else \<exists>t c'. ctype t = CN_CBOR_MAP \<and> nodes t = items a \<and> avail c' = avail c \<and>
      encode_crpm lib m n c = Some (case encoder_write lib n t of
          None \<Rightarrow> Inl DCRCP_STATUS_BUFFER_SMALL | Some b \<Rightarrow> Inr b, c')"
proof -
  have al: "pool_alloc_ok lib avail" "pool_tree_ok lib avail" using assms(1) by (auto simp: pool_ok_def)
  have ty: "\<not> DCRCP_CRPM_AM0_PICC_UID_OBTAINED < crpm_type m"
    using message_of_cases [OF m] by (simp add: crpm_ids)
  from pool_allocD(1) [OF al(1), of c] show ?thesis
  proof (cases rule: takes_one_cases)
    case (none c1)
    then show ?thesis
      by (simp add: encode_crpm_def check_error_def items_def items_short_def split: message.split)
  next
    case (one t c1)
    from needs_encode_payload [OF al m, of c1] show ?thesis
    proof (cases rule: needs_cases)
      case (short c2)
      then show ?thesis using one ty
        by (auto simp: encode_crpm_def check_error_def enc_bind_def items_def items_short_def
            payload_short_def split: message.split)
    next
      case (enough v c2)
      have "takes_one avail c2 (\<lambda>m'. ctype m' = CN_CBOR_MAP \<and> nodes m' = nodes t + nodes v + 1)
          (mapput_int lib t (crpm_type m) v c2)"
        using one(3) by (intro pool_treeD(3) [OF al(2)]) (simp add: single_def)
      then show ?thesis
      proof (cases rule: takes_one_cases)
        case (none c3)
        then show ?thesis using one enough ty
          by (auto simp: encode_crpm_def check_error_def enc_bind_def items_def items_short_def
              split: message.split)
      next
        case (one t' c3)
        have "nodes t' = items a" "avail (cbor_free lib t' c3) = avail c3 + items a"
          using one(3) enough(3) \<open>single CN_CBOR_MAP t\<close> pool_treeD(4) [OF al(2)]
          by (simp_all add: items_def single_def)
        then show ?thesis
          using one enough \<open>avail c = Suc (avail c1)\<close> \<open>map_create lib c = (Inr t, c1)\<close> ty
          by (auto simp: encode_crpm_def check_error_def enc_bind_def items_def
              intro!: exI [of _ t'] exI [of _ "cbor_free lib t' c3"] split: option.split)
      qed
    qed
  qed
qed

lemma dcrcpEncode_pool:
  assumes "pool_ok lib avail" "message_of m = Some a" "0 < n"
  shows "if avail c < items a
    then \<exists>c'. dcrcpEncode lib (Some m) False n False (Some c) =
        Some (items_short a (avail c), [], Some c') \<and> avail c' = 0
    else \<exists>t c'. ctype t = CN_CBOR_MAP \<and> nodes t = items a \<and> avail c' = avail c \<and>
      dcrcpEncode lib (Some m) False n False (Some c) =
        Some (case encoder_write lib n t of
          None \<Rightarrow> (DCRCP_STATUS_BUFFER_SMALL, [], Some c')
        | Some b \<Rightarrow> (DCRCP_STATUS_OK, b, Some c'))"
proof (cases "avail c < items a")
  case True
  then show ?thesis
    using encode_crpm_pool [OF assms(1,2), of c n] assms(3) by (auto simp: dcrcpEncode_def)
next
  case False
  then obtain t c' where t: "ctype t = CN_CBOR_MAP" "nodes t = items a" "avail c' = avail c"
    "encode_crpm lib m n c = Some (case encoder_write lib n t of
        None \<Rightarrow> Inl DCRCP_STATUS_BUFFER_SMALL | Some b \<Rightarrow> Inr b, c')"
    using encode_crpm_pool [OF assms(1,2), of c n] by auto
  then have "dcrcpEncode lib (Some m) False n False (Some c) =
        Some (case encoder_write lib n t of
          None \<Rightarrow> (DCRCP_STATUS_BUFFER_SMALL, [], Some c')
        | Some b \<Rightarrow> (DCRCP_STATUS_OK, b, Some c'))"
    using assms(3) by (simp add: dcrcpEncode_def split: option.split)
  then show ?thesis using False t(1-3) by auto
qed

section \<open>What the decoder takes\<close>

lemma dcrcpDecode_cases:
  assumes "dcrcpDecode lib old b n (Some d) = Some (st, r, d')"
  obtains (invalid) "st = DCRCP_STATUS_INVALID_PARAM" "d' = Some d"
    | (failed) bs e d1 where "Option.bind b (buf_read n) = Some bs"
        "cbor_decode lib bs d = (Inl e, d1)" "d' = Some d1"
    | (decoded) bs v d1 where "cbor_decode lib bs d = (Inr v, d1)" "d' = Some (cbor_free lib v d1)"
        "st = DCRCP_STATUS_OK \<or> st = DCRCP_STATUS_SCHEMA_FAIL"
proof (cases "old = None \<or> b = None \<or> n = 0")
  case True
  then show thesis using assms by (intro invalid) (auto simp: dcrcpDecode_def split: option.splits)
next
  case False
  then obtain bb bs where bb: "b = Some bb" "buf_read n bb = Some bs"
    using assms by (auto simp: dcrcpDecode_def bind_eq_Some_conv)
  obtain x d1 where x: "cbor_decode lib bs d = (x, d1)" by fastforce
  show thesis
  proof (cases x)
    case (Inl e)
    then show thesis using assms False bb x
      by (intro failed [of bs e d1]) (auto simp: dcrcpDecode_def split: cbor_err.splits)
  next
    case (Inr v)
    then show thesis using assms False bb x
      by (intro decoded [of bs v d1]) (auto simp: dcrcpDecode_def bind_eq_Some_conv split: if_splits)
  qed
qed

text \<open>Whatever the octets, decoding leaves as many free as it found.\<close>

lemma decode_gives_back:
  assumes "pool_ok lib avail"
    and "dcrcpDecode lib old b n (Some d) = Some (st, r, Some d')"
  shows "avail d' = avail d"
proof -
  have laws: "cbor_decode lib b c = (Inr v, c') \<Longrightarrow> avail c = avail c' + nodes v"
    "cbor_decode lib b c = (Inl e, c') \<Longrightarrow> avail c' = avail c"
    "avail (cbor_free lib v c) = avail c + nodes v" for b c c' e v
    using assms(1) unfolding pool_ok_def pool_decode_ok_def pool_tree_ok_def by blast+
  from assms(2) show ?thesis
    by (cases rule: dcrcpDecode_cases) (use laws in auto)
qed

lemma encoding_decodes_pool:
  assumes "cbor_ok lib" "pool_ok lib avail" "message_ok a" "encoding_of lib a n b"
    and t: "ctype t = CN_CBOR_MAP" "encoder_write lib n t = Some b" "nodes t \<le> avail d"
  shows "\<exists>m' d'. dcrcpDecode lib (Some old) (Some b) (length b) (Some d) =
      Some (DCRCP_STATUS_OK, Some m', Some d') \<and> message_of m' = Some a \<and> avail d' = avail d"
proof -
  obtain st m d0 where dec: "dcrcpDecode lib (Some old) (Some b) (length b) (Some d) = Some (st, Some m, d0)"
    "st = DCRCP_STATUS_OK \<and> message_of m = Some a \<or> st = DCRCP_STATUS_OUT_OF_MEMORY"
    using encoding_decodes [OF assms(1,3,4), of old d] by blast
  have "cbor_decode lib b d \<noteq> (Inl CN_CBOR_ERR_OUT_OF_MEMORY, d')" for d'
    using assms(2) t unfolding pool_ok_def pool_decode_ok_def by (metis not_less)
  then have "(st = DCRCP_STATUS_OK \<or> st \<noteq> DCRCP_STATUS_OUT_OF_MEMORY) \<and> (\<exists>d'. d0 = Some d')"
    using dec
    by (cases rule: dcrcpDecode_cases [OF dec(1)])
      (auto simp: buf_simps dcrcpDecode_def split: option.splits if_splits cbor_err.splits)
  then show ?thesis using dec decode_gives_back [OF assms(2)] by blast
qed

section \<open>A library on a pool\<close>

text \<open>
  The library of \<open>Dcrcp_Cbor\<close> with a counter of free structures as the allocation context, so
  that the laws are about something.
\<close>

definition take_one :: "nat \<Rightarrow> cn_cbor \<Rightarrow> (cbor_err + cn_cbor) \<times> nat" where
  "take_one c v = (if c = 0 then (Inl CN_CBOR_ERR_OUT_OF_MEMORY, 0) else (Inr v, c - 1))"

definition pool_cbor :: "nat cbor_lib" where
  "pool_cbor =
     \<lparr>map_create = \<lambda>c. take_one c (CnCbor CN_CBOR_MAP 0 [] 0 []),
      array_create = \<lambda>c. take_one c (array_tree []),
      int_create = \<lambda>n c. take_one c (uint_tree n),
      string_create = \<lambda>s c. take_one c (text_tree s),
      data_create = \<lambda>s c. take_one c (bytes_tree s),
      calloc_func = \<lambda>c. (if c = 0 then None else Some (CnCbor CN_CBOR_OTHER 0 [] 0 []), c - 1),
      array_append = array_append rfc_cbor,
      mapput_int = \<lambda>m k v c.
        (if ctype m = CN_CBOR_MAP
         then take_one c (CnCbor CN_CBOR_MAP 0 [] 0 (uint_tree k # v # children m))
         else (Inl CN_CBOR_ERR_OTHER, c)),
      mapget_int = mapget_int rfc_cbor,
      cbor_index = cbor_index rfc_cbor,
      encoder_write = encoder_write rfc_cbor,
      cbor_decode = \<lambda>b c. (case read_node (2 * length b) b of
          Some (v, []) \<Rightarrow>
            if nodes v \<le> c then (Inr v, c - nodes v) else (Inl CN_CBOR_ERR_OUT_OF_MEMORY, c)
        | _ \<Rightarrow> (Inl CN_CBOR_ERR_OTHER, c)),
      cbor_free = \<lambda>v c. c + nodes v\<rparr>"

lemma nodes_value [simp]: "nodes (cbor_value v) = nodes v"
proof (induction v)
  case (CnCbor t n bs l vs)
  then have "map (\<lambda>v. nodes (cbor_value v)) vs = map nodes vs" by simp
  then have "(\<Sum>v\<leftarrow>vs. nodes (cbor_value v)) = sum_list (map nodes vs)" by (rule arg_cong)
  then show ?case by (simp add: comp_def split: cbor_type.split)
qed

lemma pool_decode:
  assumes "encoder_write pool_cbor n m = Some b"
  shows "cbor_decode pool_cbor b c =
    (if nodes m \<le> c then (Inr (cbor_value m), c - nodes m) else (Inl CN_CBOR_ERR_OUT_OF_MEMORY, c))"
proof -
  have "cbor_write m = Some b"
    using assms by (auto simp: pool_cbor_def rfc_cbor_def split: option.splits if_splits)
  then show ?thesis
    using reads_back [of m, unfolded reads_back_def, rule_format, of b "2 * length b" "[]"]
    by (simp add: pool_cbor_def)
qed

lemma take_one_Inr [simp]: "take_one c v = (Inr w, c') \<longleftrightarrow> c = Suc c' \<and> v = w"
  by (auto simp: take_one_def)

lemma takes_take_one [simp]: "takes_one id c P (take_one c v) \<longleftrightarrow> c = 0 \<or> P v"
  by (auto simp: takes_one_def take_one_def)

lemma pool_cbor_fields:
  "mapget_int pool_cbor = mapget_int rfc_cbor" "cbor_index pool_cbor = cbor_index rfc_cbor"
  "array_append pool_cbor = array_append rfc_cbor" "encoder_write pool_cbor = encoder_write rfc_cbor"
  by (simp_all add: pool_cbor_def)

lemma pool_cbor_ok: "cbor_ok pool_cbor"
proof -
  have rfc: "append_ok rfc_cbor" "array_index_ok rfc_cbor" "codec_ok rfc_cbor"
    using rfc_cbor_ok by (simp_all add: cbor_ok_def)
  have "codec_ok pool_cbor"
    unfolding codec_ok_def
  proof (intro allI impI conjI)
    fix n m b and c :: nat and r c'
    assume m: "ctype m = CN_CBOR_MAP" and w: "encoder_write pool_cbor n m = Some b"
    have w': "encoder_write rfc_cbor n m = Some b" using w by (simp add: pool_cbor_fields)
    show "b \<noteq> []" "length b \<le> n" using rfc(3) m w' unfolding codec_ok_def by blast+
    have d: "cbor_decode rfc_cbor b () = (Inr (cbor_value m), ())"
      using w' by (intro rfc_decode) (auto simp: rfc_cbor_def split: option.splits if_splits)
    assume "cbor_decode pool_cbor b c = (r, c')"
    then have "r = (if nodes m \<le> c then Inr (cbor_value m) else Inl CN_CBOR_ERR_OUT_OF_MEMORY)"
      using pool_decode [OF w, of c] by (simp split: if_splits)
    moreover have "case Inr (cbor_value m) of Inl e \<Rightarrow> e = CN_CBOR_ERR_OUT_OF_MEMORY
      | Inr m' \<Rightarrow> \<forall>k. map_option cbor_value (mapget_int rfc_cbor m' k) =
          map_option cbor_value (mapget_int rfc_cbor m k)"
      using rfc(3) m w' d unfolding codec_ok_def by blast
    ultimately show "case r of Inl e \<Rightarrow> e = CN_CBOR_ERR_OUT_OF_MEMORY
      | Inr m' \<Rightarrow> \<forall>k. map_option cbor_value (mapget_int pool_cbor m' k) =
          map_option cbor_value (mapget_int pool_cbor m k)"
      by (simp add: pool_cbor_fields split: if_split)
  qed
  moreover have "create_ok pool_cbor"
    by (auto simp: create_ok_def pool_cbor_def cbor_value_eq uint_tree_def text_tree_def
        bytes_tree_def array_tree_def)
  moreover have "append_ok pool_cbor" "array_index_ok pool_cbor"
    using rfc by (simp_all add: append_ok_def array_index_ok_def pool_cbor_fields)
  moreover have "map_ok pool_cbor"
    by (auto simp: map_ok_def pool_cbor_def rfc_cbor_def uint_tree_def fun_eq_iff split: if_splits)
  ultimately show ?thesis by (simp add: cbor_ok_def)
qed

lemma pool_cbor_pool: "pool_ok pool_cbor id"
proof -
  have "pool_alloc_ok pool_cbor id"
    by (simp add: pool_alloc_ok_def pool_cbor_def single_def array_tree_def uint_tree_def
        text_tree_def bytes_tree_def)
  moreover have "Suc (sum_list (map nodes (children a))) = nodes a"
    if "ctype a = CN_CBOR_ARRAY \<or> ctype a = CN_CBOR_MAP" for a
    using that by (cases a) auto
  then have "pool_tree_ok pool_cbor id"
    by (auto simp: pool_tree_ok_def pool_cbor_def rfc_cbor_def uint_tree_def)
  moreover have "pool_decode_ok pool_cbor id"
    unfolding pool_decode_ok_def
  proof (intro conjI allI impI)
    show "id c = id c' + nodes v" if "cbor_decode pool_cbor b c = (Inr v, c')" for b c v c'
      using that by (auto simp: pool_cbor_def split: option.splits prod.splits list.splits if_splits)
    show "id c' = id c" if "cbor_decode pool_cbor b c = (Inl e, c')" for b c e c'
      using that by (auto simp: pool_cbor_def split: option.splits prod.splits list.splits if_splits)
    show "id c < nodes m" if "encoder_write pool_cbor n m = Some b"
      "cbor_decode pool_cbor b c = (Inl CN_CBOR_ERR_OUT_OF_MEMORY, c')" for n m b c c'
      using pool_decode [OF that(1), of c] that(2) by (simp split: if_splits)
  qed
  ultimately show ?thesis by (simp add: pool_ok_def)
qed

section \<open>Properties\<close>

text \<open>
  C30. The encoder and its memory.  A message takes three CBOR structures and one for every
  element of its array.  With so many free the encoder reports success or a small buffer and
  gives every structure back; with fewer it reports the want of memory (or, when a UID is the
  first to get none, an invalid parameter) and leaves none free: what it had built is never
  released, so that every later encoding or decoding on the pool fails too.
\<close>

theorem encoder_memory:
  assumes "pool_ok lib avail" "message_of m = Some a" "0 < n"
  shows "\<exists>st b c'. dcrcpEncode lib (Some m) False n False (Some c) = Some (st, b, Some c') \<and>
    (if items a \<le> avail c
     then (st = DCRCP_STATUS_OK \<or> st = DCRCP_STATUS_BUFFER_SMALL) \<and> avail c' = avail c
     else st = items_short a (avail c) \<and> avail c' = 0)"
proof (cases "avail c < items a")
  case True
  then show ?thesis using dcrcpEncode_pool [OF assms, of c] by auto
next
  case False
  then obtain t c' where "avail c' = avail c" "dcrcpEncode lib (Some m) False n False (Some c) =
      Some (case encoder_write lib n t of
          None \<Rightarrow> (DCRCP_STATUS_BUFFER_SMALL, [], Some c')
        | Some b \<Rightarrow> (DCRCP_STATUS_OK, b, Some c'))"
    using dcrcpEncode_pool [OF assms, of c] by auto
  then show ?thesis using False by (cases "encoder_write lib n t") auto
qed

text \<open>A system query response takes nine structures: with eight the pool is empty afterwards.\<close>

theorem encoder_memory_witness:
  "\<exists>b. dcrcpEncode pool_cbor (Some sample_crpm) False 64 False (Some 8)
     = Some (DCRCP_STATUS_OUT_OF_MEMORY, b, Some 0)"
  using encoder_memory [OF pool_cbor_pool sample_message, of 64 8]
  by (auto simp: items_def items_short_def)

text \<open>
  C29. The documented pool of \<open>DCRCP_REQUIRED_CNCBOR_BUFFERS\<close> structures, one for the encoder
  and one for the decoder, each full: every message within the bounds with at most six array
  elements is encoded (unless the octet buffer is too small), decoded to the same meaning, and
  leaves both pools full.  A message with seven to ten elements, which the schema allows too, can
  not be encoded: an error is reported and the encoder's pool is empty afterwards.
\<close>

theorem required_buffers:
  assumes "cbor_ok lib" "pool_ok lib avail" "message_of m = Some a" "message_ok a" "0 < n"
    and "avail c = DCRCP_REQUIRED_CNCBOR_BUFFERS" "avail d = DCRCP_REQUIRED_CNCBOR_BUFFERS"
  shows "\<exists>st b c'. dcrcpEncode lib (Some m) False n False (Some c) = Some (st, b, Some c') \<and>
    (if entries a \<le> 6
     then avail c' = DCRCP_REQUIRED_CNCBOR_BUFFERS \<and>
       (st = DCRCP_STATUS_BUFFER_SMALL \<or>
        st = DCRCP_STATUS_OK \<and>
          (\<exists>m' d'. dcrcpDecode lib (Some old) (Some b) (length b) (Some d) =
              Some (DCRCP_STATUS_OK, Some m', Some d') \<and>
            message_of m' = Some a \<and> avail d' = DCRCP_REQUIRED_CNCBOR_BUFFERS))
     else (st = DCRCP_STATUS_OUT_OF_MEMORY \<or> st = DCRCP_STATUS_INVALID_PARAM) \<and> avail c' = 0)"
proof (cases "entries a \<le> 6")
  case True
  then have "\<not> avail c < items a"
    using assms(6) by (simp add: items_def DCRCP_REQUIRED_CNCBOR_BUFFERS_def)
  then obtain t c' where t: "ctype t = CN_CBOR_MAP" "nodes t = items a" "avail c' = avail c"
    and enc: "dcrcpEncode lib (Some m) False n False (Some c) =
      Some (case encoder_write lib n t of
          None \<Rightarrow> (DCRCP_STATUS_BUFFER_SMALL, [], Some c')
        | Some b \<Rightarrow> (DCRCP_STATUS_OK, b, Some c'))"
    using dcrcpEncode_pool [OF assms(2,3,5), of c] by auto
  have "\<exists>m' d'. dcrcpDecode lib (Some old) (Some b) (length b) (Some d) =
      Some (DCRCP_STATUS_OK, Some m', Some d') \<and> message_of m' = Some a \<and> avail d' = avail d"
    if w: "encoder_write lib n t = Some b" for b
  proof (rule encoding_decodes_pool [OF assms(1,2,4) _ t(1) w])
    show "encoding_of lib a n b"
      using dcrcpEncode_encoding [OF assms(1,3,4), of n c] enc w by auto
    show "nodes t \<le> avail d" using True t(2) assms(7)
      by (simp add: items_def DCRCP_REQUIRED_CNCBOR_BUFFERS_def)
  qed
  then show ?thesis
    using True enc t(3) assms(6,7) by (cases "encoder_write lib n t") auto
next
  case False
  then have "avail c < items a"
    using assms(6) by (simp add: items_def DCRCP_REQUIRED_CNCBOR_BUFFERS_def)
  then show ?thesis
    using dcrcpEncode_pool [OF assms(2,3,5), of c] False
    by (auto simp: items_short_def split: message.split)
qed

theorem required_buffers_witness:
  "\<exists>st b. dcrcpEncode pool_cbor (Some sample_crpm) False 64 False (Some 9) = Some (st, b, Some 9) \<and>
    (st = DCRCP_STATUS_BUFFER_SMALL \<or>
     st = DCRCP_STATUS_OK \<and>
      (\<exists>m'. dcrcpDecode pool_cbor (Some crpm_zero) (Some b) (length b) (Some 9) =
          Some (DCRCP_STATUS_OK, Some m', Some 9) \<and>
        message_of m' = Some (SysQueryResponse 0x0102 3 4 [0x41, 0x42, 0x43] 200 1)))"
  using required_buffers [OF pool_cbor_ok pool_cbor_pool sample_message, of 64 9 9 crpm_zero]
  by (auto simp: DCRCP_REQUIRED_CNCBOR_BUFFERS_def)

end
