(* ===== verification/Spec2Isabelle.thy ===== *)
theory Spec2Isabelle
  imports Dcl2_Progress Dcl2_Session Dcl2_Wrapper Dcl2_Posix Dcl2_Emulated Dcrcp_Pool
begin

text \<open>
  libdeadcom: a reliable datagram link between two stations over a serial line (\<open>dcl2\<close>),
  its frame codec (a modified \<open>yahdlc\<close>), a POSIX and a Python binding of the link, the
  controller-reader protocol (\<open>dcrcp\<close>) whose messages the link carries, and the link
  emulator of its tests (\<open>leaky-pipe\<close>).

  How the parts interact.  An application builds a message with \<open>dcrcpEncode\<close> and gives
  its octets to \<open>dcSendMessage\<close>, which frames them with \<open>yahdlc_frame_data\<close>, transmits the
  frame through a callback and waits on a condition variable.  The receiving thread feeds
  what arrives to \<open>dcProcessData\<close>, in chunks of any size; \<open>yahdlc_get_data\<close> finds frames in
  it and the handler of each type stores a message, sends an answer, or signals the
  waiting thread.  \<open>dcGetReceivedMsg\<close> hands a stored message over and acknowledges it, and
  \<open>dcrcpDecode\<close> reads it.  A mutex, a condition variable and the transmission are callbacks
  of the link object, supplied by the pthreads helper or by the Python bindings.

  Theories and code.
  \<^item> \<open>Deadcom_Prelude\<close>: machine types, buffers of the caller, result types and the rewrite
    collections shared by all proofs.
  \<^item> \<open>Yahdlc_Fcs\<close>, \<open>Yahdlc_Control\<close>, \<open>Yahdlc_Encode\<close>, \<open>Yahdlc_Decode\<close>: \<open>dcl2/lib/src/yahdlc.c\<close>
    and \<open>yahdlc.h\<close>, one definition per function; the body, the loop and the epilogue of
    \<open>yahdlc_get_data\<close> are \<open>get_data_byte\<close>, \<open>get_data_loop\<close> and \<open>get_data_finish\<close>; the macros
    of the control octet are constants of their own, and the enumerations of this and the
    other headers are instances of \<open>enum\<close>.
    \<open>Yahdlc_Stream\<close>: what the parser does with a delimited run of octets.
  \<^item> \<open>Dcl2_Link\<close>: the object \<open>DeadcomL2\<close> of \<open>dcl2/lib/inc/dcl2.h\<close> as a record and the
    functions an application calls (\<open>dcInit\<close>, \<open>dcConnect\<close>, \<open>dcDisconnect\<close>, \<open>dcSendMessage\<close>,
    \<open>dcGetReceivedMsg\<close>); \<open>Dcl2_Receive\<close>: \<open>dcProcessData\<close>, one definition per frame type.
    \<open>Dcl2_Frames\<close>, \<open>Dcl2_Delivery\<close> and \<open>Dcl2_Api\<close> hold their functional behaviour.
  \<^item> \<open>Dcl2_Steps\<close>: an abstract machine of the link as a step relation with its invariant;
    \<open>Dcl2_Refine\<close>: every operation makes only runs of it.
  \<^item> \<open>Dcl2_Mutex\<close>: the locking discipline of the operations, and the contract
    \<open>callback_invariant\<close> under which they keep any property of the callbacks' world.
  \<^item> \<open>Dcl2_Exchange\<close>: a station whose callbacks run the other station, over a medium that
    loses frames.
  \<^item> \<open>Dcl2_Threads\<close>: \<open>dcSendMessage\<close> cut at its waits, and the proof that the pieces are the
    function; \<open>Dcl2_Stations\<close>: a station whose sending, picking up and receiving threads
    take their steps in any order with transmissions that may fail, and the line between two
    of them, which delays and loses frames; \<open>Dcl2_Network\<close>: the invariant of two such stations, what follows for all
    runs, and a reliable channel that each direction refines;
    \<open>Dcl2_Progress\<close>: that a waiting call can still succeed in every reachable state;
    \<open>Dcl2_Session\<close>: the same stations from \<open>dcInit\<close> on, with \<open>dcConnect\<close> cut at its wait.
  \<^item> \<open>Dcl2_Pthreads\<close>: \<open>dcl2/helper-pthreads/src/dcl2-pthreads.c\<close>; \<open>Dcl2_Posix\<close>: its method
    table as the callbacks of \<open>dcl2.c\<close>.
  \<^item> \<open>Dcl2_Python\<close>: the bridge callbacks, the five methods and the constructor of
    \<open>dcl2/py3-bindings/dcl2\<close>, with the error indicator of the interpreter and the
    references the code takes and gives back; \<open>Dcl2_PyObject\<close>: the life of the object, the
    references it stores, its method table and type, and the module (\<open>_dcl2_type.c\<close>,
    \<open>_dcl2_module.c\<close>); \<open>Dcl2_Wrapper\<close>: the Python class \<open>DeadcomL2\<close> of \<open>__init__.py\<close>.
  \<^item> \<open>Leaky_Pipe\<close>: \<open>leaky-pipe/src/leaky-pipe.c\<close>; \<open>Dcl2_Emulated\<close>: the link over this
    emulator, whose other end is read by a thread that feeds \<open>dcProcessData\<close> octet by octet.
  \<^item> \<open>Dcrcp\<close>: \<open>dcrcp/lib/src/dcrcp.c\<close> and \<open>dcrcp.h\<close>; \<open>Dcrcp_Roundtrip\<close>: the meaning of a
    message, the CBOR tree of the schema, and both halves of the codec against it;
    \<open>Dcrcp_Cbor\<close>: a CBOR library that keeps the laws the round trip needs; \<open>Dcrcp_Pool\<close>: the
    CBOR structures each message takes from an allocator that may run out of them.

  State and results.  A C object is a record, \<open>size_t\<close> values are numbers with their
  wrap-around written out, octets and other fixed-width integers are words.  A computation
  is an \<open>option\<close>: \<open>None\<close> stands for undefined behaviour (a load or store outside an object,
  a null dereference), so that an equation with \<open>Some\<close> is also a proof of memory safety.
  Error codes of the code are values inside it.  The callbacks act on a world \<open>'e\<close> and on
  the link object, which another thread may change while a thread waits: the wait of an
  environment (\<open>dcl2_env\<close>) returns the object changed by what the other threads did.
  Three C integers are unbounded numbers: the count that \<open>yahdlc_get_data\<close> converts to \<open>int\<close>,
  its \<open>src_index\<close>, and \<open>byte_counter\<close> of the emulator (a \<open>long\<close>); the model is the code for
  inputs below \<open>INT_MAX\<close> octets per call and fewer octets than these types count.  The
  operations of a link are those on an initialised object, whose method table is not null
  (\<open>dcInit\<close> tests it).  The assertions of the Python methods are those of a build with
  \<open>NDEBUG\<close>, so that \<open>python_contract\<close> has to show what they ask for.  The members of the union
  in \<open>DeadcomCRPM\<close> are separate fields, of which the code reads only the selected one.

  What the lemmas show.  The frame codec: round trip, unique decodability, the exact
  condition under which the parser accepts a run, detection of errors in two neighbouring
  octets, memory safety for every input with a large enough destination, and independence
  from how the input is cut into chunks.  The link: the behaviour of every operation on
  every branch, refinement of the abstract machine and its invariant (a permissive machine
  that translates no code of its own), a pending message that no operation changes, at most
  three transmissions and termination of \<open>dcSendMessage\<close> where no CONN request meets a timeout
  (\<open>conn_restarts_retransmissions\<close> shows what happens there), the locking discipline.  Two
  stations: the handshake, one message over a medium that loses frames, and for every
  interleaving of the threads of both stations, during and after the handshake, that messages
  are received in order, without duplicates and at least those whose \<open>dcSendMessage\<close> returned
  \<open>DC_OK\<close>, that the sequence numbers count them, and that success remains reachable; a frame in
  which the line corrupts two neighbouring octets has no effect, and its repetition has the
  effect the frame would have had, if no flag or escape octet is among the octets before and
  after (\<open>escape_may_be_accepted\<close> shows why).  The messages: what
  is encoded is decoded to the same meaning, a message that is accepted is within the bounds
  the decoder tests, which are wider than those of the schema (\<open>bounds_wider_than_schema\<close>), the exact set of inputs for which the
  decoder leaves defined behaviour, and the CBOR structures the encoder needs, all of which it
  gives back, and the documented pool of nine suffices for both directions up to six array
  elements.  Some properties state where the code goes wrong: a
  short frame and a long message that overflow buffers, a stale response, a reused
  sequence number, a late answer to a connection request, a request that meets a
  timeout, a timeout that hides an acknowledgment, an exception that leaves the mutex locked, unbalanced references.

  Loops and bounds.  Loops over octets are structural recursions.  The loop of
  \<open>dcProcessData\<close> (\<open>process_loop\<close>) terminates by the octets left, as every call of the
  parser consumes one.  The retransmission loop \<open>send_loop\<close> and the waiting loop \<open>wait_loop\<close>
  are partial functions, as their callbacks may undo their progress; that they return is a
  theorem each.  The loop that adds random octets in \<open>leaky-pipe\<close>, \<open>noise_loop\<close>, is a partial
  function too: with probability one it never ends, and the theorems have a hypothesis on
  the draws it makes for the octets sent that stops it (\<open>lucky\<close>).  The reader of \<open>Dcrcp_Cbor\<close>
  has fuel of twice the length of its input, which suffices since each nested item consumes
  an octet.

  Parameters.  Code outside the repository is an argument of the definitions: the threading
  and transmission callbacks (\<open>dcl2_env\<close>), the pthread calls and the clock, the allocator,
  the Python objects the bindings call, the pipe of the Python class, \<open>rand_r\<close> and the pipe library, and \<open>cn-cbor\<close>.  The
  laws assumed of them (\<open>closed_by\<close>, \<open>no_answer\<close>, \<open>waits_count\<close>, \<open>counts_calls\<close>, \<open>cbor_ok\<close>, \<open>pool_ok\<close>,
  \<open>pops\<close> and the like) are hypotheses of the theorems
  that need them, each with an instance (\<open>pool_cbor\<close> hands structures out of a pool of any size).

  Not modelled.  Destructors that run while the constructor replaces an object are not
  followed.  In \<open>Dcl2_Network\<close> and \<open>Dcl2_Session\<close> a step of a station is one locked section
  (\<open>mutex_discipline\<close> makes them atomic), a frame arrives as a whole (\<open>chunks_do_not_matter\<close>), and
  a frame whose octets the line changes is a lost one (\<open>corrupted_frame_rejected\<close> and
  \<open>corrupted_then_repeated\<close>, for two neighbouring octets; the check value does not detect every
  change).  A first transmission may fail there, a retransmission does not, as
  \<open>failed_retransmission_reuses_number\<close> shows what it breaks; one station connects, and not again
  once its CONN frame has been transmitted, as \<open>late_conn_ack_loses_message\<close> shows what
  connecting again can break; messages of 248 and 249 octets are left out, as
  \<open>long_message_overflows\<close> shows.  Tests are no part of the program, and the git submodules are
  not in the repository.
\<close>

section \<open>Properties of two connected stations\<close>

text \<open>
  C5. Reliable delivery of one message: when sender and peer agree on the next sequence
  number, \<open>dcSendMessage\<close> of a message of 1 to 247 octets over a medium that loses
  frames and answers at will returns \<open>DC_OK\<close> exactly when during one of its three waits
  both the frame and the answer get through.  Then the peer's application has received
  the message exactly once, although up to three copies of the frame may have arrived,
  and the stations agree on the next number.  Otherwise the result is \<open>DC_LINK_RESET\<close>,
  the sender is disconnected, and the message has been received once or not at all.
\<close>

theorem message_delivered_once:
  assumes "in_step d e" "0 < length m" "length m \<le> 247"
  shows "\<exists>d' e'. dcSendMessage duplex_env (Some d) (Some m) (length m) e =
      Some (if gets_through 3 e then DC_OK else DC_LINK_RESET, Some d', e') \<and>
    (if gets_through 3 e
     then in_step d' e' \<and> send_number d' = (send_number d + 1) mod 8 \<and>
       delivered e' = delivered e @ [m]
     else state d' = DC_DISCONNECTED \<and> delivered e' \<in> {delivered e, delivered e @ [m]})"
  using assms by (intro send_over_medium) (auto simp: DEADCOM_PAYLOAD_MAX_LEN_def)

text \<open>The first frame is lost, then an answer; the third attempt gets through.\<close>

theorem message_delivered_once_witness:
  "\<exists>d' e'. dcSendMessage duplex_env (Some sample_link) (Some [1, 2, 3]) 3
      (sample_duplex [(False, True), (True, False), (True, True)]) = Some (DC_OK, Some d', e') \<and>
    delivered e' = [[1, 2, 3]]"
  using message_delivered_once [OF sample_in_step, of "[1, 2, 3]"
      "[(False, True), (True, False), (True, True)]"]
  by (auto simp: gets_through_def sample_duplex_def eval_nat_numeral)

text \<open>
  Exactly once and in order: a sequence of messages sent one after the other until
  one is not acknowledged arrives at the peer's application as a prefix of the sequence,
  without loss, duplication or reordering.  The prefix consists of the messages that
  returned \<open>DC_OK\<close> and possibly the one whose acknowledgment was lost; when all return
  \<open>DC_OK\<close> the stations are still in step.  Sequence numbers wrap modulo eight on the way.
\<close>

theorem exactly_once_in_order:
  assumes "in_step d e" "list_all sendable ms"
  shows "\<exists>n d' e'. send_all duplex_env ms d e = Some (n, d', e') \<and> n \<le> length ms \<and>
    (if n = length ms
     then in_step d' e' \<and> delivered e' = delivered e @ ms
     else delivered e' = delivered e @ take n ms \<or> delivered e' = delivered e @ take (Suc n) ms)"
  by (rule send_all_delivers [OF assms])

text \<open>Nine messages, so that the numbers wrap, over a medium that loses nothing of them.\<close>

theorem exactly_once_in_order_witness:
  "\<exists>n d' e'. send_all duplex_env (replicate 9 [5]) sample_link (sample_duplex (replicate 9 (True, True)))
      = Some (n, d', e') \<and> n \<le> 9"
  using exactly_once_in_order [OF sample_in_step, of "replicate 9 [5]" "replicate 9 (True, True)"]
  by (auto simp: sendable_def DEADCOM_PAYLOAD_MAX_LEN_def list_all_iff)

text \<open>
  C6. The handshake brings the stations in step: \<open>dcConnect\<close> on a disconnected station,
  whatever its sequence numbers and those of the other station (which must not be
  connecting itself), returns \<open>DC_OK\<close> exactly when the CONN frame and the CONN\_ACK get
  through, and then both are connected with sequence number zero and ready to exchange
  messages; otherwise it returns \<open>DC_NOT_CONNECTED\<close> and is disconnected.
\<close>

theorem handshake_brings_in_step:
  assumes "link_idle d" "state d = DC_DISCONNECTED"
    and "link_idle (peer e)" "state (peer e) \<noteq> DC_CONNECTING"
  shows "\<exists>d' e'. dcConnect duplex_env (Some d) e =
      Some (if gets_through 1 e then DC_OK else DC_NOT_CONNECTED, Some d', e') \<and>
    delivered e' = delivered e \<and>
    (if gets_through 1 e then in_step d' e' \<and> send_number d' = 0 else state d' = DC_DISCONNECTED)"
  by (rule connect_over_medium [OF assms])

text \<open>A disconnected station and a peer that still believes in an old connection.\<close>

theorem handshake_brings_in_step_witness:
  "\<exists>d' e'. dcConnect duplex_env (Some (sample_link\<lparr>state := DC_DISCONNECTED, send_number := 5\<rparr>))
      (sample_duplex [(True, True)]) = Some (DC_OK, Some d', e') \<and> in_step d' e' \<and> send_number d' = 0"
proof -
  have "link_idle (sample_link\<lparr>state := DC_DISCONNECTED, send_number := 5\<rparr>)"
    using sample_link_idle by (simp add: link_idle_def link_inv_def)
  moreover have "link_idle (peer (sample_duplex fs))" "state (peer (sample_duplex fs)) = DC_CONNECTED" for fs
    using sample_link_idle by (simp_all add: sample_duplex_def) (simp add: sample_link_def)
  ultimately show ?thesis
    using handshake_brings_in_step [of "sample_link\<lparr>state := DC_DISCONNECTED, send_number := 5\<rparr>"
        "sample_duplex [(True, True)]"]
    by (auto simp: gets_through_def sample_duplex_def)
qed

text \<open>
  C35. A late CONN\_ACK loses a message.  When the sender has lost its link after the other
  station accepted exactly one message, and connects again, its CONN request is lost, and
  the CONN\_ACK of an earlier handshake arrives meanwhile (answers carry nothing that tells
  them apart), then \<open>dcConnect\<close> returns \<open>DC_OK\<close> although the other station has not reset its
  numbers.  The next message, whatever it is, carries the number of the one accepted
  before: it is taken for a copy, acknowledged and dropped, and \<open>dcSendMessage\<close> returns
  \<open>DC_OK\<close> for a message that is never received.
\<close>

theorem late_conn_ack_loses_message:
  assumes "link_idle d" "state d = DC_DISCONNECTED" "peer_ready (peer e) 1"
    and "fates e = (True, True) # fs" "0 < length m" "length m \<le> 247"
  shows "\<exists>d1 e1 d2 e2. dcConnect late_answer_env (Some d) e = Some (DC_OK, Some d1, e1) \<and>
    dcSendMessage duplex_env (Some d1) (Some m) (length m) e1 = Some (DC_OK, Some d2, e2) \<and>
    delivered e2 = delivered e"
proof -
  obtain d1 e1 where c: "dcConnect late_answer_env (Some d) e = Some (DC_OK, Some d1, e1)" "link_idle d1"
      "state d1 = DC_CONNECTED" "send_number d1 = 0" "next_expected_ack d1 = 0"
      "peer e1 = peer e" "delivered e1 = delivered e" "fates e1 = fates e"
    using late_answer_connects [OF assms(1, 2)] by blast
  moreover have "\<exists>d2 e2. dcSendMessage duplex_env (Some d1) (Some m) (length m) e1
      = Some (DC_OK, Some d2, e2) \<and> delivered e2 = delivered e1"
    by (rule used_number_confirmed [where fs = fs])
      (use assms c in \<open>auto simp: sendable_def DEADCOM_PAYLOAD_MAX_LEN_def\<close>)
  ultimately show ?thesis by auto
qed

text \<open>The medium itself loses nothing of the message.\<close>

theorem late_conn_ack_loses_message_witness:
  "\<exists>d1 e1 d2 e2. dcConnect late_answer_env (Some (sample_link\<lparr>state := DC_DISCONNECTED\<rparr>))
      ((sample_duplex [(True, True)])\<lparr>peer := sample_link\<lparr>recv_number := 1\<rparr>\<rparr>) = Some (DC_OK, Some d1, e1) \<and>
    dcSendMessage duplex_env (Some d1) (Some [7]) 1 e1 = Some (DC_OK, Some d2, e2) \<and> delivered e2 = []"
proof -
  have "link_idle (sample_link\<lparr>state := DC_DISCONNECTED\<rparr>)" "peer_ready (sample_link\<lparr>recv_number := 1\<rparr>) 1"
    using sample_link_idle sample_in_step [of "[]"]
    by (simp_all add: link_idle_def link_inv_def in_step_def peer_ready_def sample_duplex_def)
  then show ?thesis
    using late_conn_ack_loses_message [of "sample_link\<lparr>state := DC_DISCONNECTED\<rparr>"
        "(sample_duplex [(True, True)])\<lparr>peer := sample_link\<lparr>recv_number := 1\<rparr>\<rparr>" "[]" "[7]"]
    by (simp add: sample_duplex_def)
qed

text \<open>
  C7. A controller-reader message from end to end: what \<open>dcrcpEncode\<close> makes of a message
  within the decoder's bounds, with a buffer of at most 247 octets, is accepted by
  \<open>dcSendMessage\<close> of a station in step with the other one.  When one of its three attempts gets
  through, the other station's application receives exactly one message more, the encoded one;
  otherwise the link is reset and it has received that message once or not at all.
  \<open>dcrcpDecode\<close> reads it back with the same meaning or reports that its memory ran out.
\<close>

theorem crpm_delivered:
  assumes "in_step d e" and ok: "cbor_ok lib" "message_of m = Some a" "message_ok a" and "n \<le> 247"
    and enc: "dcrcpEncode lib (Some m) False n False (Some c) = Some (DCRCP_STATUS_OK, b, c')"
  shows "\<exists>d' e'. dcSendMessage duplex_env (Some d) (Some b) (length b) e =
      Some (if gets_through 3 e then DC_OK else DC_LINK_RESET, Some d', e') \<and>
    (if gets_through 3 e then in_step d' e' \<and> delivered e' = delivered e @ [b]
     else state d' = DC_DISCONNECTED \<and> delivered e' \<in> {delivered e, delivered e @ [b]}) \<and>
    (\<exists>st m' k'. dcrcpDecode lib (Some old) (Some b) (length b) (Some k) = Some (st, Some m', k') \<and>
       (st = DCRCP_STATUS_OK \<and> message_of m' = Some a \<or> st = DCRCP_STATUS_OUT_OF_MEMORY))"
proof -
  have "encoding_of lib a n b" using dcrcpEncode_encoding [OF ok, of n c] enc by simp
  from encoding_decodes [OF ok(1,3) this, of old k]
  have b: "b \<noteq> []" "length b \<le> n" and
    dec: "\<exists>st m' k'. dcrcpDecode lib (Some old) (Some b) (length b) (Some k) = Some (st, Some m', k') \<and>
         (st = DCRCP_STATUS_OK \<and> message_of m' = Some a \<or> st = DCRCP_STATUS_OUT_OF_MEMORY)"
    by blast+
  have "\<exists>d' e'. dcSendMessage duplex_env (Some d) (Some b) (length b) e =
      Some (if gets_through 3 e then DC_OK else DC_LINK_RESET, Some d', e') \<and>
    (if gets_through 3 e
     then in_step d' e' \<and> send_number d' = (send_number d + 1) mod 8 \<and>
       delivered e' = delivered e @ [b]
     else state d' = DC_DISCONNECTED \<and> delivered e' \<in> {delivered e, delivered e @ [b]})"
    using assms(1,5) b by (intro send_over_medium) (auto simp: DEADCOM_PAYLOAD_MAX_LEN_def)
  then show ?thesis using dec by auto
qed

text \<open>The sample message, of which the first transmission is lost.\<close>

theorem crpm_delivered_witness:
  "\<exists>d' e' x st m' k'. dcSendMessage duplex_env (Some sample_link)
      (Some [0xA1, 0x02, 0x86, 0x19, 0x01, 0x02, 0x03, 0x04, 0x63, 0x41, 0x42, 0x43, 0x18, 0xC8, 0x01])
      15 (sample_duplex [(False, True), (True, True)]) = Some (DC_OK, Some d', e') \<and>
    delivered e' = [x] \<and>
    dcrcpDecode rfc_cbor (Some crpm_zero) (Some x) (length x) (Some ()) = Some (st, Some m', k') \<and>
    (st = DCRCP_STATUS_OK \<and>
       message_of m' = Some (SysQueryResponse 0x0102 3 4 [0x41, 0x42, 0x43] 200 1) \<or>
     st = DCRCP_STATUS_OUT_OF_MEMORY)"
proof -
  have l: "15 = length [0xA1, 0x02, 0x86, 0x19, 0x01, 0x02, 0x03, 0x04, 0x63, 0x41, 0x42, 0x43,
    0x18, 0xC8, 0x01 :: byte]" by simp
  have g: "gets_through 3 (sample_duplex [(False, True), (True, True)])"
    by (simp add: gets_through_def sample_duplex_def eval_nat_numeral)
  have ok: "message_ok (SysQueryResponse 0x0102 3 4 [0x41, 0x42, 0x43] 200 1)" by simp
  show ?thesis
    unfolding l
    using crpm_delivered [OF sample_in_step rfc_cbor_ok sample_message ok _ sample_encoding,
        of "[(False, True), (True, True)]" crpm_zero "()"] g
    by (auto simp: sample_duplex_def)
qed

end
